(* ===== verification/Tlpi_Prelude.thy ===== *)
theory Tlpi_Prelude
  imports Main "HOL-Library.Word" "HOL-Library.Char_ord" "HOL-Library.List_Lexorder"
begin

text \<open>
  Shared vocabulary of the development: how a modelled C function can stop, the result type
  and its sequencing operator, the integer limits of the platform (LP64 Linux), single bits of
  a flag word, and the generic list lemmas that several components use.
\<close>

unbundle bit_operations_syntax

section \<open>Collections of rewrite rules\<close>

named_theorems c_string "facts about the string functions of the C library"
named_theorems flag_bits "facts that turn mask tests into single bits"
named_theorems heap_list "facts about linked lists in the heap"

section \<open>How a modelled function can stop\<close>

text \<open>
  A function of the repository that does not return normally either ends the process (with the
  exit status and the diagnostic it printed last) or does something C leaves undefined.  Both
  are values, so that every such branch of the source is a branch of the model.
\<close>

datatype undefined_behaviour =
    NullDeref            \<comment> \<open>access through a null pointer\<close>
  | OutOfBounds          \<comment> \<open>access outside an object\<close>
  | UseAfterFree         \<comment> \<open>access to an object that was freed\<close>
  | Uninitialised        \<comment> \<open>use of an indeterminate value\<close>
  | DivByZero            \<comment> \<open>integer division or remainder by zero\<close>
  | SignedOverflow       \<comment> \<open>signed arithmetic outside the range of its type\<close>
  | NoReturnValue        \<comment> \<open>end of a non-void function whose value the caller uses\<close>
  | WildCall             \<comment> \<open>call of an address at which there is no function\<close>
  | Misaligned           \<comment> \<open>access at an address that is not a multiple of the object's alignment\<close>

datatype stop =
    Exit int string
  | Undefined undefined_behaviour

type_synonym 'a result = "stop + 'a"

definition rbind :: "'e + 'a \<Rightarrow> ('a \<Rightarrow> 'e + 'b) \<Rightarrow> 'e + 'b" where
  "rbind m f = (case m of Inl e \<Rightarrow> Inl e | Inr x \<Rightarrow> f x)"

lemma rbind_simps [simp]:
  "rbind (Inl e) f = Inl e"
  "rbind (Inr x) f = f x"
  by (simp_all add: rbind_def)

lemma rbind_eq_Inr [simp]: "rbind m f = Inr y \<longleftrightarrow> (\<exists>x. m = Inr x \<and> f x = Inr y)"
  by (cases m) simp_all

text \<open>The same sequencing for routines whose loops may not end: \<open>None\<close> is a loop that does not.\<close>

definition obind :: "('e + 'a) option \<Rightarrow> ('a \<Rightarrow> ('e + 'b) option) \<Rightarrow> ('e + 'b) option" where
  "obind m f = Option.bind m (\<lambda>r. case r of Inl e \<Rightarrow> Some (Inl e) | Inr x \<Rightarrow> f x)"

lemma obind_simps [simp]:
  "obind None f = None"
  "obind (Some (Inl e)) f = Some (Inl e)"
  "obind (Some (Inr x)) f = f x"
  by (simp_all add: obind_def)

lemma obind_eq_Inr [simp]:
  "obind m f = Some (Inr y) \<longleftrightarrow> (\<exists>x. m = Some (Inr x) \<and> f x = Some (Inr y))"
proof (cases m)
  case (Some r)
  then show ?thesis by (cases r) simp_all
qed simp

lemma obind_mono [partial_function_mono]:
  assumes "mono_option m" and "\<And>x. mono_option (\<lambda>rec. f x rec)"
  shows "mono_option (\<lambda>rec. obind (m rec) (\<lambda>x. f x rec))"
proof -
  have "mono_option (\<lambda>rec. case r of Inl e \<Rightarrow> Some (Inl e) | Inr x \<Rightarrow> f x rec)" for r
    using assms(2) by (cases r) (auto intro: partial_function_mono)
  then show ?thesis unfolding obind_def using assms(1) by (intro partial_function_mono)
qed

section \<open>Integer limits\<close>

abbreviation (input) INT_MAX :: int where "INT_MAX \<equiv> 2147483647"
abbreviation (input) INT_MIN :: int where "INT_MIN \<equiv> - 2147483648"
abbreviation (input) LONG_MAX :: int where "LONG_MAX \<equiv> 9223372036854775807"
abbreviation (input) LONG_MIN :: int where "LONG_MIN \<equiv> - 9223372036854775808"
abbreviation (input) EXIT_FAILURE :: int where "EXIT_FAILURE \<equiv> 1"
abbreviation (input) EXIT_SUCCESS :: int where "EXIT_SUCCESS \<equiv> 0"

section \<open>Flag words\<close>

text \<open>A mask test of a flag with one bit reads that bit.\<close>

lemma and_exp_iff_bit [flag_bits]:
  fixes w :: "'a::len word"
  shows "w AND 2 ^ n = 0 \<longleftrightarrow> \<not> bit w n"
  by (simp add: and_exp_eq_0_iff_not_bit)

section \<open>Lists\<close>

lemma takeWhile_dropWhile_append:
  assumes "\<forall>x\<in>set xs. P x" and "ys = [] \<or> \<not> P (hd ys)"
  shows "takeWhile P (xs @ ys) = xs \<and> dropWhile P (xs @ ys) = ys"
  using assms by (cases ys) (auto simp: takeWhile_tail dropWhile_append3)

lemma dropWhile_hd: "dropWhile P xs = y # ys \<Longrightarrow> \<not> P y"
  by (induction xs) (auto split: if_splits)

section \<open>Bytes of a machine word\<close>

text \<open>The four bytes of an \<open>int\<close> or \<open>unsigned int\<close> in memory, least significant first, and the
  value read from four bytes.\<close>

definition le_bytes :: "32 word \<Rightarrow> 8 word list" where
  "le_bytes w = [ucast w, ucast (drop_bit 8 w), ucast (drop_bit 16 w), ucast (drop_bit 24 w)]"

definition of_le_bytes :: "8 word list \<Rightarrow> 32 word" where
  "of_le_bytes bs = foldr (\<lambda>b acc. ucast b OR push_bit 8 acc) bs 0"

lemma of_le_bytes_le_bytes [simp]: "of_le_bytes (le_bytes w) = w"
proof (rule bit_word_eqI)
  fix n assume "n < LENGTH(32)"
  then have "n < 8 \<or> 8 \<le> n \<and> n < 16 \<or> 16 \<le> n \<and> n < 24 \<or> 24 \<le> n \<and> n < 32" by auto
  then show "bit (of_le_bytes (le_bytes w)) n = bit w n"
    by (auto simp: of_le_bytes_def le_bytes_def bit_or_iff bit_push_bit_iff bit_ucast_iff
        bit_drop_bit_eq)
qed

lemma length_le_bytes [simp]: "length (le_bytes w) = 4"
  by (simp add: le_bytes_def)

end
