(* ===== verification/CLib.thy ===== *)
theory CLib
  imports Tlpi_Prelude
begin

text \<open>
  The functions of the C standard library that the repository uses on strings and numbers, as
  functions on \<open>string\<close> (the bytes before the terminating null byte).  These are the language's
  own functions, not code of the repository: nothing here is in the map.
\<close>

section \<open>Strings\<close>

abbreviation nul :: char where "nul \<equiv> CHR 0x00"
abbreviation newline :: char where "newline \<equiv> CHR 0x0A"

definition cstring :: "string \<Rightarrow> bool" where
  "cstring s \<longleftrightarrow> nul \<notin> set s"

text \<open>What a library function reads from a byte array that holds a string: the bytes before the
  first null byte.\<close>

definition c_str :: "string \<Rightarrow> string" where
  "c_str bytes = takeWhile (\<lambda>c. c \<noteq> nul) bytes"

lemma c_str_terminated [simp]: "cstring s \<Longrightarrow> c_str (s @ nul # rest) = s"
  by (induction s) (auto simp: c_str_def cstring_def)

lemma c_str_id [simp]: "cstring s \<Longrightarrow> c_str s = s"
  by (induction s) (auto simp: c_str_def cstring_def)

lemma cstring_c_str [simp]: "cstring (c_str s)"
  by (auto simp: c_str_def cstring_def dest: set_takeWhileD)

fun strcmp :: "string \<Rightarrow> string \<Rightarrow> int" where
  "strcmp [] [] = 0"
| "strcmp [] (y # ys) = - int (of_char y)"
| "strcmp (x # xs) [] = int (of_char x)"
| "strcmp (x # xs) (y # ys) =
     (if x = y then strcmp xs ys else int (of_char x) - int (of_char y))"

text \<open>\<open>strstr\<close>: the tail of the first string that starts at the first occurrence of the second.\<close>

fun strstr :: "string \<Rightarrow> string \<Rightarrow> string option" where
  "strstr [] t = (if t = [] then Some [] else None)"
| "strstr (c # s) t = (if take (length t) (c # s) = t then Some (c # s) else strstr s t)"

text \<open>\<open>snprintf(buf, n, \<dots>)\<close> with \<open>n > 0\<close> keeps at most \<open>n - 1\<close> bytes of the expanded format.\<close>

definition snprintf :: "nat \<Rightarrow> string \<Rightarrow> string" where
  "snprintf n expanded = take (n - 1) expanded"

text \<open>\<open>strncpy(dst, src, n)\<close>: the \<open>n\<close> bytes stored, padded with null bytes.\<close>

definition strncpy :: "string \<Rightarrow> nat \<Rightarrow> string" where
  "strncpy src n = take n src @ replicate (n - length src) nul"

definition toupper :: "char \<Rightarrow> char" where
  "toupper c = (if 97 \<le> (of_char c :: nat) \<and> (of_char c :: nat) \<le> 122
                then char_of ((of_char c :: nat) - 32) else c)"

lemma nul_of_char: "(of_char c :: nat) = 0 \<longleftrightarrow> c = nul"
proof -
  have "(of_char c :: nat) = of_char nul \<longleftrightarrow> c = nul"
    by (rule of_char_eq_iff)
  then show ?thesis by simp
qed

lemma strcmp_eq_0_iff [c_string]:
  "cstring s \<Longrightarrow> cstring t \<Longrightarrow> strcmp s t = 0 \<longleftrightarrow> s = t"
  by (induction s t rule: strcmp.induct) (auto simp: cstring_def nul_of_char)

lemma strcmp_refl [simp]: "strcmp s s = 0"
  by (induction s) auto

text \<open>\<open>strcmp\<close> is the lexicographic order on unsigned bytes.\<close>

lemma strcmp_less_iff [c_string]:
  "cstring s \<Longrightarrow> cstring t \<Longrightarrow> strcmp s t < 0 \<longleftrightarrow> s < t"
proof (induction s t rule: strcmp.induct)
  case (2 y ys)
  then have "0 < (of_char y :: nat)" by (auto simp: cstring_def neq0_conv [symmetric] nul_of_char)
  then show ?case by simp
qed (auto simp: cstring_def less_char_def)

lemma cstring_simps [simp]:
  "cstring []"
  "cstring (c # s) \<longleftrightarrow> c \<noteq> nul \<and> cstring s"
  "cstring (s @ t) \<longleftrightarrow> cstring s \<and> cstring t"
  by (auto simp: cstring_def)

text \<open>What a string function reads from the bytes that \<open>strncpy\<close> stored.\<close>

lemma c_str_padded: "cstring s \<Longrightarrow> c_str (s @ replicate n nul) = s"
  by (cases n) simp_all

lemma cstring_take: "cstring s \<Longrightarrow> cstring (take n s)"
  by (auto simp: cstring_def dest: in_set_takeD)

lemma c_str_strncpy: "cstring s \<Longrightarrow> c_str (strncpy s n) = take n s"
  by (simp add: strncpy_def c_str_padded cstring_take)

section \<open>Numbers in text\<close>

definition isspace :: "char \<Rightarrow> bool" where
  "isspace c \<longleftrightarrow> (of_char c :: nat) = 32 \<or> 9 \<le> (of_char c :: nat) \<and> (of_char c :: nat) \<le> 13"

definition isdigit :: "char \<Rightarrow> bool" where
  "isdigit c \<longleftrightarrow> 48 \<le> (of_char c :: nat) \<and> (of_char c :: nat) \<le> 57"

text \<open>The value of a character as a digit; 36 for one that is no digit in any base.\<close>

definition digit_val :: "char \<Rightarrow> nat" where
  "digit_val c = (let n = of_char c :: nat in
     if 48 \<le> n \<and> n \<le> 57 then n - 48
     else if 97 \<le> n \<and> n \<le> 122 then n - 87
     else if 65 \<le> n \<and> n \<le> 90 then n - 55
     else 36)"

definition digits_val :: "nat \<Rightarrow> string \<Rightarrow> nat" where
  "digits_val base ds = foldl (\<lambda>acc c. acc * base + digit_val c) 0 ds"

text \<open>The sign that \<open>strtol\<close> accepts before the digits.\<close>

definition split_sign :: "string \<Rightarrow> bool \<times> string" where
  "split_sign s = (case s of
     [] \<Rightarrow> (False, [])
   | c # r \<Rightarrow> if c = CHR ''-'' then (True, r) else if c = CHR ''+'' then (False, r) else (False, s))"

definition hex_prefix :: "string \<Rightarrow> bool" where
  "hex_prefix s \<longleftrightarrow>
     (case s of a # b # c # _ \<Rightarrow> a = CHR ''0'' \<and> (b = CHR ''x'' \<or> b = CHR ''X'') \<and> digit_val c < 16
      | _ \<Rightarrow> False)"

text \<open>The base that is used and the text in which the digits are looked for.\<close>

definition resolve_base :: "nat \<Rightarrow> string \<Rightarrow> nat \<times> string" where
  "resolve_base base s =
     (if (base = 0 \<or> base = 16) \<and> hex_prefix s then (16, drop 2 s)
      else if base = 0 then (if s \<noteq> [] \<and> hd s = CHR ''0'' then 8 else 10, s)
      else (base, s))"

record strtol_result =
  st_value :: int
  st_end :: string      \<comment> \<open>the text that \<open>*endptr\<close> points at\<close>
  st_erange :: bool     \<comment> \<open>whether \<open>errno\<close> was set to \<open>ERANGE\<close>\<close>

definition clamp_long :: "int \<Rightarrow> int" where
  "clamp_long v = (if v < LONG_MIN then LONG_MIN else if LONG_MAX < v then LONG_MAX else v)"

definition strtol :: "string \<Rightarrow> nat \<Rightarrow> strtol_result" where
  "strtol arg base =
     (let (neg, s) = split_sign (dropWhile isspace arg);
          (b, t) = resolve_base base s;
          ds = takeWhile (\<lambda>c. digit_val c < b) t;
          v = (if neg then - int (digits_val b ds) else int (digits_val b ds))
      in if ds = [] then \<lparr>st_value = 0, st_end = arg, st_erange = False\<rparr>
         else \<lparr>st_value = clamp_long v, st_end = drop (length ds) t,
               st_erange = (v < LONG_MIN \<or> LONG_MAX < v)\<rparr>)"

text \<open>The definitions that evaluate a conversion of a literal.\<close>

lemmas strtol_eval = strtol_def split_sign_def resolve_base_def hex_prefix_def digits_val_def
  digit_val_def isspace_def clamp_long_def Let_def

text \<open>\<open>atoi\<close> is \<open>(int) strtol(s, NULL, 10)\<close>, as the GNU library defines it.\<close>

definition atoi :: "string \<Rightarrow> int" where
  "atoi s = sint (word_of_int (st_value (strtol s 10)) :: 32 word)"

text \<open>Decimal output, the \<open>%d\<close> and \<open>%ld\<close> conversions.\<close>

fun dec_nat :: "nat \<Rightarrow> string" where
  "dec_nat n = (if n < 10 then [char_of (48 + n)] else dec_nat (n div 10) @ [char_of (48 + n mod 10)])"

declare dec_nat.simps [simp del]

definition dec_int :: "int \<Rightarrow> string" where
  "dec_int i = (if i < 0 then CHR ''-'' # dec_nat (nat (- i)) else dec_nat (nat i))"

section \<open>What the conversions do\<close>

lemma isdigit_digit_val [c_string]: "isdigit c \<longleftrightarrow> digit_val c < 10"
  by (auto simp: isdigit_def digit_val_def Let_def)

lemma isdigit_not_space [c_string]: "isdigit c \<Longrightarrow> \<not> isspace c"
  by (auto simp: isdigit_def isspace_def)

lemma isdigit_not_sign: "isdigit c \<Longrightarrow> c \<noteq> CHR ''-'' \<and> c \<noteq> CHR ''+''"
  by (auto simp: isdigit_def)

lemma digit_val_char_of: "d < 10 \<Longrightarrow> digit_val (char_of (48 + d :: nat)) = d"
  by (simp add: digit_val_def Let_def)

lemma isdigit_char_of: "d < 10 \<Longrightarrow> isdigit (char_of (48 + d :: nat))"
  by (simp add: isdigit_digit_val digit_val_char_of)

lemma digits_val_snoc: "digits_val b (ds @ [c]) = digits_val b ds * b + digit_val c"
  by (simp add: digits_val_def)

lemma dec_nat_digits: "\<forall>c\<in>set (dec_nat n). isdigit c"
  by (induction n rule: dec_nat.induct)
     (subst dec_nat.simps, auto simp: isdigit_char_of)

lemma dec_nat_nonempty [simp]: "dec_nat n \<noteq> []"
  by (subst dec_nat.simps) simp

lemma digits_val_dec_nat: "digits_val 10 (dec_nat n) = n"
proof (induction n rule: dec_nat.induct)
  case (1 n)
  then show ?case
    by (subst dec_nat.simps) (auto simp: digits_val_snoc digit_val_char_of digits_val_def)
qed

text \<open>The decimal numerals of C, stated without the conversion routine: white space, a sign, one
  digit or more.\<close>

definition decimal_numeral :: "string \<Rightarrow> int \<Rightarrow> bool" where
  "decimal_numeral s v \<longleftrightarrow>
     (\<exists>ws sg ds. s = ws @ sg @ ds \<and> (\<forall>c\<in>set ws. isspace c) \<and> sg \<in> {[], ''-'', ''+''} \<and>
        ds \<noteq> [] \<and> (\<forall>c\<in>set ds. isdigit c) \<and>
        v = (if sg = ''-'' then - int (digits_val 10 ds) else int (digits_val 10 ds)))"

lemma digits_no_space_hd:
  assumes "\<forall>c\<in>set ds. isdigit c" and "ds \<noteq> []"
  shows "\<not> isspace (hd ds)" and "hd ds \<noteq> CHR ''-''" and "hd ds \<noteq> CHR ''+''"
  using assms isdigit_not_space isdigit_not_sign by (cases ds; auto)+

lemma strtol_of_numeral:
  assumes "\<forall>c\<in>set ws. isspace c" and sg: "sg \<in> {[], ''-'', ''+''}"
    and ds: "\<forall>c\<in>set ds. isdigit c" "ds \<noteq> []"
  defines "v \<equiv> (if sg = ''-'' then - int (digits_val 10 ds) else int (digits_val 10 ds))"
  shows "strtol (ws @ sg @ ds) 10 =
    \<lparr>st_value = clamp_long v, st_end = [], st_erange = (v < LONG_MIN \<or> LONG_MAX < v)\<rparr>"
proof -
  have "\<not> isspace (hd (sg @ ds))"
    using sg digits_no_space_hd[OF ds] ds(2) by (auto simp: isspace_def)
  then have ws: "dropWhile isspace (ws @ sg @ ds) = sg @ ds"
    using takeWhile_dropWhile_append[of ws isspace "sg @ ds"] assms(1) by simp
  have sign: "split_sign (sg @ ds) = (sg = ''-'', ds)"
    using sg digits_no_space_hd[OF ds] ds(2) by (cases ds) (auto simp: split_sign_def)
  have "takeWhile (\<lambda>c. digit_val c < 10) ds = ds"
    using ds(1) by (simp add: isdigit_digit_val)
  note tw = this
  show ?thesis
    using ds(2) by (simp add: strtol_def ws sign resolve_base_def v_def tw Let_def)
qed

lemma split_signE:
  assumes "split_sign u = (neg, t)"
  obtains sg where "sg \<in> {[], ''-'', ''+''}" "u = sg @ t" "neg = (sg = ''-'')"
proof (cases "u = [] \<or> hd u \<noteq> CHR ''-'' \<and> hd u \<noteq> CHR ''+''")
  case True
  with assms that[of "[]"] show ?thesis by (auto simp: split_sign_def split: list.splits)
next
  case False
  with assms that[of "[hd u]"] show ?thesis by (auto simp: split_sign_def split: list.splits if_splits)
qed

lemma strtol_end_numeral:
  assumes "strtol s 10 = r" and "st_end r = []" and "s \<noteq> []"
  shows "\<exists>v. decimal_numeral s v \<and> st_value r = clamp_long v \<and>
    st_erange r = (v < LONG_MIN \<or> LONG_MAX < v)"
proof -
  let ?u = "dropWhile isspace s"
  obtain neg t where t: "split_sign ?u = (neg, t)" by fastforce
  define ds where "ds = takeWhile (\<lambda>c. digit_val c < 10) t"
  have ne: "ds \<noteq> []" and "drop (length ds) t = []"
    using assms t by (auto simp: strtol_def resolve_base_def Let_def ds_def split: if_splits)
  then have "dropWhile (\<lambda>c. digit_val c < 10) t = []" by (simp add: ds_def dropWhile_eq_drop)
  then have dt: "ds = t" unfolding ds_def by (metis append_Nil2 takeWhile_dropWhile_id)
  from t obtain sg where sg: "sg \<in> {[], ''-'', ''+''}" "?u = sg @ t" "neg = (sg = ''-'')"
    by (rule split_signE)
  have digits: "\<forall>c\<in>set ds. isdigit c"
    by (auto simp: ds_def isdigit_digit_val dest: set_takeWhileD)
  obtain ws where ws: "\<forall>c\<in>set ws. isspace c" and s: "s = ws @ sg @ ds"
    using sg(2) dt by (metis set_takeWhileD takeWhile_dropWhile_id)
  define v where "v = (if sg = ''-'' then - int (digits_val 10 ds) else int (digits_val 10 ds))"
  have "decimal_numeral s v"
    unfolding decimal_numeral_def v_def using s ws sg(1) ne digits by blast
  moreover have "st_value r = clamp_long v \<and> st_erange r = (v < LONG_MIN \<or> LONG_MAX < v)"
    using strtol_of_numeral[OF ws sg(1) digits ne] assms(1)
    unfolding s v_def by (simp only: strtol_result.simps)
  ultimately show ?thesis by blast
qed

lemma strtol_decimal:
  assumes "s \<noteq> []"
  shows "st_value (strtol s 10) = v \<and> st_end (strtol s 10) = [] \<and> \<not> st_erange (strtol s 10)
    \<longleftrightarrow> decimal_numeral s v \<and> LONG_MIN \<le> v \<and> v \<le> LONG_MAX" (is "?L \<longleftrightarrow> ?R")
proof
  assume ?L
  with strtol_end_numeral[OF refl _ assms] show ?R by (auto simp: clamp_long_def)
next
  assume ?R
  then show ?L
    unfolding decimal_numeral_def using strtol_of_numeral
    by (fastforce simp: clamp_long_def)
qed

lemma decimal_numeral_dec_int: "decimal_numeral (dec_int i) i"
proof (cases "i < 0")
  case True
  then show ?thesis
    unfolding decimal_numeral_def dec_int_def
    by (intro exI[of _ "[]"] exI[of _ "''-''"] exI[of _ "dec_nat (nat (- i))"])
       (simp add: dec_nat_digits digits_val_dec_nat)
next
  case False
  then show ?thesis
    unfolding decimal_numeral_def dec_int_def
    by (intro exI[of _ "[]"] exI[of _ "dec_nat (nat i)"])
       (simp add: dec_nat_digits digits_val_dec_nat)
qed

lemma dec_int_nonempty [simp]: "dec_int i \<noteq> []"
  by (simp add: dec_int_def)

text \<open>\<open>atoi\<close> reads back what \<open>%d\<close> prints.\<close>

lemma atoi_dec_int:
  assumes "INT_MIN \<le> i" and "i \<le> INT_MAX"
  shows "atoi (dec_int i) = i"
proof -
  have "st_value (strtol (dec_int i) 10) = i"
    using strtol_decimal[of "dec_int i" i] decimal_numeral_dec_int[of i] assms by simp
  moreover have "sint (word_of_int i :: 32 word) = i"
    using assms by (simp add: int_word_sint)
  ultimately show ?thesis by (simp add: atoi_def)
qed

end
