(* ===== verification/Get_Num.thy ===== *)
theory Get_Num
  imports CLib
begin

text \<open>
  \<open>get_num.c\<close>: the conversion of command-line arguments to numbers.  \<open>gnFail\<close> prints its
  diagnostic and exits, so it is the \<open>Inl\<close> value of the result; \<open>getNum\<close> is the common routine of
  \<open>getLong\<close> and \<open>getInt\<close>.  The last section holds the interface \<open>int_argument\<close> that the
  programs taking numeric arguments rely on, and its interpretation by \<open>getInt\<close>.
\<close>

section \<open>Flags\<close>

type_synonym flags = "32 word"

definition GN_NONNEG :: flags where "GN_NONNEG = 0x1"
definition GN_GT_0 :: flags where "GN_GT_0 = 0x2"
definition GN_ANY_BASE :: flags where "GN_ANY_BASE = 0x40"
definition GN_BASE_8 :: flags where "GN_BASE_8 = 0x80"
definition GN_BASE_16 :: flags where "GN_BASE_16 = 0x100"

lemmas gn_flag_defs = GN_NONNEG_def GN_GT_0_def GN_ANY_BASE_def GN_BASE_8_def GN_BASE_16_def

section \<open>The conversion\<close>

text \<open>The diagnostic that \<open>gnFail\<close> writes to standard error before it exits.\<close>

definition gnFail :: "string \<Rightarrow> string \<Rightarrow> string option \<Rightarrow> string option \<Rightarrow> stop" where
  "gnFail fname msg arg name = Exit EXIT_FAILURE
     (fname @ '' error''
      @ (case name of None \<Rightarrow> [] | Some n \<Rightarrow> '' (in '' @ n @ '')'')
      @ '': '' @ msg @ [newline]
      @ (case arg of None \<Rightarrow> []
         | Some a \<Rightarrow> if a \<noteq> [] then ''        offending text: '' @ a @ [newline] else []))"

definition base_of :: "flags \<Rightarrow> nat" where
  "base_of flags = (if flags AND GN_ANY_BASE \<noteq> 0 then 0 else if flags AND GN_BASE_8 \<noteq> 0 then 8
                    else if flags AND GN_BASE_16 \<noteq> 0 then 16 else 10)"

definition getNum :: "string \<Rightarrow> string option \<Rightarrow> flags \<Rightarrow> string option \<Rightarrow> int result" where
  "getNum fname arg flags name = (case arg of
     None \<Rightarrow> Inl (gnFail fname ''null or empty string'' arg name)
   | Some text \<Rightarrow>
       if text = [] then Inl (gnFail fname ''null or empty string'' arg name)
       else let r = strtol text (base_of flags); res = st_value r in
         if st_erange r then Inl (gnFail fname ''strtol() failed'' arg name)
         else if st_end r \<noteq> [] then Inl (gnFail fname ''nonnumeric characters'' arg name)
         else if flags AND GN_NONNEG \<noteq> 0 \<and> res < 0
           then Inl (gnFail fname ''negative value not allowed'' arg name)
         else if flags AND GN_GT_0 \<noteq> 0 \<and> res \<le> 0
           then Inl (gnFail fname ''value must be > 0'' arg name)
         else Inr res)"

definition getLong :: "string option \<Rightarrow> flags \<Rightarrow> string option \<Rightarrow> int result" where
  "getLong arg flags name = getNum ''getLong'' arg flags name"

definition getInt :: "string option \<Rightarrow> flags \<Rightarrow> string option \<Rightarrow> int result" where
  "getInt arg flags name = rbind (getNum ''getInt'' arg flags name) (\<lambda>res.
     if INT_MAX < res \<or> res < INT_MIN
     then Inl (gnFail ''getInt'' ''integer out of range'' arg name) else Inr res)"

section \<open>Correctness\<close>

definition flags_allow :: "flags \<Rightarrow> int \<Rightarrow> bool" where
  "flags_allow flags v \<longleftrightarrow>
     (flags AND GN_NONNEG \<noteq> 0 \<longrightarrow> 0 \<le> v) \<and> (flags AND GN_GT_0 \<noteq> 0 \<longrightarrow> 0 < v)"

lemma getNum_Inr_iff:
  "getNum fname arg flags name = Inr v \<longleftrightarrow> (\<exists>s. arg = Some s \<and> s \<noteq> [] \<and>
     st_value (strtol s (base_of flags)) = v \<and> st_end (strtol s (base_of flags)) = [] \<and>
     \<not> st_erange (strtol s (base_of flags)) \<and> flags_allow flags v)"
  by (auto simp: getNum_def flags_allow_def Let_def split: option.splits if_splits)

lemma strtol_value_range: "LONG_MIN \<le> st_value (strtol s b) \<and> st_value (strtol s b) \<le> LONG_MAX"
  by (simp add: strtol_def clamp_long_def Let_def split: prod.splits)

lemma getInt_Inr_iff:
  "getInt arg flags name = Inr v \<longleftrightarrow>
     getNum ''getInt'' arg flags name = Inr v \<and> INT_MIN \<le> v \<and> v \<le> INT_MAX"
  by (cases "getNum ''getInt'' arg flags name") (auto simp: getInt_def)

text \<open>C15: with decimal flags, \<open>getLong\<close> accepts exactly the decimal numerals of C (white space, an
  optional sign, digits up to the end of the text) whose value fits in a \<open>long\<close> and that the
  \<open>GN_NONNEG\<close> and \<open>GN_GT_0\<close> flags allow, and returns that value.\<close>

theorem getLong_accepts:
  assumes "flags AND GN_ANY_BASE = 0" and "flags AND GN_BASE_8 = 0" and "flags AND GN_BASE_16 = 0"
  shows "getLong (Some s) flags name = Inr v \<longleftrightarrow>
    decimal_numeral s v \<and> LONG_MIN \<le> v \<and> v \<le> LONG_MAX \<and> flags_allow flags v"
proof -
  have base: "base_of flags = 10" using assms by (simp add: base_of_def)
  have "decimal_numeral s v \<Longrightarrow> s \<noteq> []" by (auto simp: decimal_numeral_def)
  then show ?thesis
    unfolding getLong_def getNum_Inr_iff base using strtol_decimal[of s v] by blast
qed

theorem getLong_accepts_witness: "decimal_numeral '' -42'' (- 42)"
proof -
  have "getLong (Some '' -42'') 0 None = Inr (- 42)" by code_simp
  then show ?thesis using getLong_accepts[of 0 "'' -42''" None "- 42"] by simp
qed

lemma decimal_flags:
  "flags \<in> {0, GN_NONNEG, GN_GT_0, GN_NONNEG OR GN_GT_0} \<Longrightarrow> base_of flags = 10"
  by (auto simp: base_of_def gn_flag_defs)

text \<open>C35: \<open>getInt\<close> reads back every \<open>int\<close> printed with \<open>%d\<close> when the flags ask for decimal and allow
  the value.\<close>

theorem getInt_roundtrip:
  assumes "INT_MIN \<le> i" and "i \<le> INT_MAX"
    and "flags \<in> {0, GN_NONNEG, GN_GT_0, GN_NONNEG OR GN_GT_0}" and "flags_allow flags i"
  shows "getInt (Some (dec_int i)) flags name = Inr i"
  using strtol_decimal[of "dec_int i" i] decimal_numeral_dec_int[of i] decimal_flags[OF assms(3)] assms
  unfolding getInt_Inr_iff getNum_Inr_iff by auto

theorem getInt_roundtrip_witness: "getInt (Some (dec_int 1024)) GN_GT_0 None = Inr 1024"
  by (rule getInt_roundtrip) (simp_all add: flags_allow_def gn_flag_defs)

lemma getNum_Inl: "getNum fname arg flags name = Inl e \<Longrightarrow> \<exists>msg. e = gnFail fname msg arg name"
  by (auto simp: getNum_def Let_def split: option.splits if_splits)

lemma getInt_Inl: "getInt arg flags name = Inl e \<Longrightarrow> \<exists>msg. e = gnFail ''getInt'' msg arg name"
  by (cases "getNum ''getInt'' arg flags name")
     (auto simp: getInt_def dest: getNum_Inl split: if_splits)

text \<open>C36: whatever its argument, \<open>getInt\<close> either returns a value that fits in an \<open>int\<close> and that the
  flags allow, or it ends the process with status 1 after a diagnostic that starts with its name.\<close>

theorem getInt_contract:
  "case getInt arg flags name of
     Inr v \<Rightarrow> INT_MIN \<le> v \<and> v \<le> INT_MAX \<and> flags_allow flags v
   | Inl e \<Rightarrow> \<exists>msg. e = gnFail ''getInt'' msg arg name"
  using getInt_Inl[of arg flags name] getInt_Inr_iff[of arg flags name]
  by (auto simp: getNum_Inr_iff split: sum.splits)

section \<open>The interface the programs rely on\<close>

text \<open>What a caller of \<open>getInt\<close> may assume: a returned value fits in an \<open>int\<close> and is allowed by the
  flags, and a call that does not return ends the process.\<close>

locale int_argument =
  fixes parse :: "string option \<Rightarrow> flags \<Rightarrow> string option \<Rightarrow> int result"
  assumes parse_range: "parse arg flags name = Inr v \<Longrightarrow> INT_MIN \<le> v \<and> v \<le> INT_MAX"
    and parse_allow: "parse arg flags name = Inr v \<Longrightarrow> flags_allow flags v"
    and parse_stop: "parse arg flags name = Inl e \<Longrightarrow> \<exists>text. e = Exit EXIT_FAILURE text"
begin

lemma parse_positive: "parse arg flags name = Inr v \<Longrightarrow> flags AND GN_GT_0 \<noteq> 0 \<Longrightarrow> 0 < v"
  using parse_allow by (auto simp: flags_allow_def)

lemma parse_nonnegative: "parse arg flags name = Inr v \<Longrightarrow> flags AND GN_NONNEG \<noteq> 0 \<Longrightarrow> 0 \<le> v"
  using parse_allow by (auto simp: flags_allow_def)

end

interpretation get_int: int_argument getInt
proof
  fix arg flags name v
  assume "getInt arg flags name = Inr v"
  then show "INT_MIN \<le> v \<and> v \<le> INT_MAX" and "flags_allow flags v"
    by (auto simp: getInt_Inr_iff getNum_Inr_iff)
next
  fix arg flags name e
  assume "getInt arg flags name = Inl e"
  then show "\<exists>text. e = Exit EXIT_FAILURE text"
    by (auto dest!: getInt_Inl simp: gnFail_def)
qed

end
