(* ===== verification/Error_Functions.thy ===== *)
theory Error_Functions
  imports Get_Num
begin

text \<open>
  \<open>error_functions.c\<close>: the diagnostics that nearly every program of the repository calls.  The
  state is the part of the process they touch: \<open>errno\<close>, the two standard output streams and how
  the process ended.  The text of \<open>strerror\<close>, the value of the environment variable
  \<open>EF_DUMPCORE\<close> and what the output calls leave in \<open>errno\<close> are arguments; the format string and
  its arguments appear as the text they expand to.
\<close>

section \<open>The process state\<close>

record proc =
  errno :: int
  out_pending :: string    \<comment> \<open>bytes in the buffer of \<open>stdout\<close>\<close>
  out_written :: string    \<comment> \<open>bytes that reached standard output\<close>
  err_written :: string    \<comment> \<open>bytes that reached standard error\<close>

datatype ending = Aborted | Exited int | Exited_now int

definition fflush_stdout :: "proc \<Rightarrow> proc" where
  "fflush_stdout p = p\<lparr>out_written := out_written p @ out_pending p, out_pending := []\<rparr>"

text \<open>\<open>exit(3)\<close> flushes the streams, \<open>_exit(2)\<close> does not.\<close>

definition exit_process :: "int \<Rightarrow> proc \<Rightarrow> ending \<times> proc" where
  "exit_process status p = (Exited status, fflush_stdout p)"

definition fputs_stderr :: "string \<Rightarrow> proc \<Rightarrow> proc" where
  "fputs_stderr s p = p\<lparr>err_written := err_written p @ s\<rparr>"

section \<open>The error names\<close>

definition ename :: "string list" where
  "ename =
  [[], ''EPERM'', ''ENOENT'', ''ESRCH'', ''EINTR'', ''EIO'', ''ENXIO'', ''E2BIG'', ''ENOEXEC'',
   ''EBADF'', ''ECHILD'', ''EAGAIN/EWOULDBLOCK'', ''ENOMEM'', ''EACCES'', ''EFAULT'',
   ''ENOTBLK'', ''EBUSY'', ''EEXIST'', ''EXDEV'', ''ENODEV'', ''ENOTDIR'', ''EISDIR'',
   ''EINVAL'', ''ENFILE'', ''EMFILE'', ''ENOTTY'', ''ETXTBSY'', ''EFBIG'', ''ENOSPC'',
   ''ESPIPE'', ''EROFS'', ''EMLINK'', ''EPIPE'', ''EDOM'', ''ERANGE'', ''EDEADLK/EDEADLOCK'',
   ''ENAMETOOLONG'', ''ENOLCK'', ''ENOSYS'', ''ENOTEMPTY'', ''ELOOP'', [], ''ENOMSG'', ''EIDRM'',
   ''ECHRNG'', ''EL2NSYNC'', ''EL3HLT'', ''EL3RST'', ''ELNRNG'', ''EUNATCH'', ''ENOCSI'',
   ''EL2HLT'', ''EBADE'', ''EBADR'', ''EXFULL'', ''ENOANO'', ''EBADRQC'', ''EBADSLT'', [],
   ''EBFONT'', ''ENOSTR'', ''ENODATA'', ''ETIME'', ''ENOSR'', ''ENONET'', ''ENOPKG'',
   ''EREMOTE'', ''ENOLINK'', ''EADV'', ''ESRMNT'', ''ECOMM'', ''EPROTO'', ''EMULTIHOP'',
   ''EDOTDOT'', ''EBADMSG'', ''EOVERFLOW'', ''ENOTUNIQ'', ''EBADFD'', ''EREMCHG'', ''ELIBACC'',
   ''ELIBBAD'', ''ELIBSCN'', ''ELIBMAX'', ''ELIBEXEC'', ''EILSEQ'', ''ERESTART'', ''ESTRPIPE'',
   ''EUSERS'', ''ENOTSOCK'', ''EDESTADDRREQ'', ''EMSGSIZE'', ''EPROTOTYPE'', ''ENOPROTOOPT'',
   ''EPROTONOSUPPORT'', ''ESOCKTNOSUPPORT'', ''EOPNOTSUPP/ENOTSUP'', ''EPFNOSUPPORT'',
   ''EAFNOSUPPORT'', ''EADDRINUSE'', ''EADDRNOTAVAIL'', ''ENETDOWN'', ''ENETUNREACH'',
   ''ENETRESET'', ''ECONNABORTED'', ''ECONNRESET'', ''ENOBUFS'', ''EISCONN'', ''ENOTCONN'',
   ''ESHUTDOWN'', ''ETOOMANYREFS'', ''ETIMEDOUT'', ''ECONNREFUSED'', ''EHOSTDOWN'',
   ''EHOSTUNREACH'', ''EALREADY'', ''EINPROGRESS'', ''ESTALE'', ''EUCLEAN'', ''ENOTNAM'',
   ''ENAVAIL'', ''EISNAM'', ''EREMOTEIO'', ''EDQUOT'', ''ENOMEDIUM'', ''EMEDIUMTYPE'',
   ''ECANCELED'', ''ENOKEY'', ''EKEYEXPIRED'', ''EKEYREVOKED'', ''EKEYREJECTED'', ''EOWNERDEAD'',
   ''ENOTRECOVERABLE'', ''ERFKILL'', ''EHWPOISON'']"

definition MAX_ENAME :: int where "MAX_ENAME = 133"

definition BUF_SIZE :: nat where "BUF_SIZE = 500"

section \<open>The routines\<close>

definition terminate_proc :: "string option \<Rightarrow> bool \<Rightarrow> proc \<Rightarrow> ending \<times> proc" where
  "terminate_proc ef_dumpcore useExit3 p =
     (if ef_dumpcore \<noteq> None \<and> ef_dumpcore \<noteq> Some [] then (Aborted, p)
      else if useExit3 then exit_process EXIT_FAILURE p
      else (Exited_now EXIT_FAILURE, p))"

definition error_text :: "(int \<Rightarrow> string) \<Rightarrow> bool \<Rightarrow> int \<Rightarrow> string" where
  "error_text strerror useErr err = snprintf BUF_SIZE
     (if useErr then '' ['' @ (if 0 < err \<and> err \<le> MAX_ENAME then ename ! nat err else ''?UNKNOWN?'')
                     @ '' '' @ strerror err @ '']''
      else '':'')"

definition outputError ::
    "(int \<Rightarrow> string) \<Rightarrow> (int \<Rightarrow> int) \<Rightarrow> bool \<Rightarrow> int \<Rightarrow> bool \<Rightarrow> string \<Rightarrow> proc \<Rightarrow> proc" where
  "outputError strerror io_errno useErr err flushStdout expanded p =
     (let userMsg = snprintf BUF_SIZE expanded;
          errText = error_text strerror useErr err;
          buf = snprintf BUF_SIZE (''ERROR'' @ errText @ '' '' @ userMsg @ [newline]);
          p' = fputs_stderr buf (if flushStdout then fflush_stdout p else p)
      in p'\<lparr>errno := io_errno (errno p')\<rparr>)"

definition errMsg :: "(int \<Rightarrow> string) \<Rightarrow> (int \<Rightarrow> int) \<Rightarrow> string \<Rightarrow> proc \<Rightarrow> proc" where
  "errMsg strerror io_errno expanded p =
     (let savedErrno = errno p;
          p' = outputError strerror io_errno True (errno p) True expanded p
      in p'\<lparr>errno := savedErrno\<rparr>)"

definition errExit ::
    "(int \<Rightarrow> string) \<Rightarrow> (int \<Rightarrow> int) \<Rightarrow> string option \<Rightarrow> string \<Rightarrow> proc \<Rightarrow> ending \<times> proc" where
  "errExit strerror io_errno ef_dumpcore expanded p =
     terminate_proc ef_dumpcore True (outputError strerror io_errno True (errno p) True expanded p)"

definition err_exit ::
    "(int \<Rightarrow> string) \<Rightarrow> (int \<Rightarrow> int) \<Rightarrow> string option \<Rightarrow> string \<Rightarrow> proc \<Rightarrow> ending \<times> proc" where
  "err_exit strerror io_errno ef_dumpcore expanded p =
     terminate_proc ef_dumpcore False (outputError strerror io_errno True (errno p) False expanded p)"

definition errExitEN ::
    "(int \<Rightarrow> string) \<Rightarrow> (int \<Rightarrow> int) \<Rightarrow> string option \<Rightarrow> int \<Rightarrow> string \<Rightarrow> proc \<Rightarrow> ending \<times> proc" where
  "errExitEN strerror io_errno ef_dumpcore errnum expanded p =
     terminate_proc ef_dumpcore True (outputError strerror io_errno True errnum True expanded p)"

definition fatal ::
    "(int \<Rightarrow> string) \<Rightarrow> (int \<Rightarrow> int) \<Rightarrow> string option \<Rightarrow> string \<Rightarrow> proc \<Rightarrow> ending \<times> proc" where
  "fatal strerror io_errno ef_dumpcore expanded p =
     terminate_proc ef_dumpcore True (outputError strerror io_errno False 0 True expanded p)"

definition usageErr :: "string \<Rightarrow> proc \<Rightarrow> ending \<times> proc" where
  "usageErr expanded p =
     exit_process EXIT_FAILURE
       (fputs_stderr expanded (fputs_stderr ''Usage: '' (fflush_stdout p)))"

definition cmdLineErr :: "string \<Rightarrow> proc \<Rightarrow> ending \<times> proc" where
  "cmdLineErr expanded p =
     exit_process EXIT_FAILURE
       (fputs_stderr expanded (fputs_stderr ''Command-line usage error: '' (fflush_stdout p)))"

section \<open>What they print\<close>

lemma length_ename: "length ename = nat MAX_ENAME + 1"
  by (simp add: ename_def MAX_ENAME_def)

lemma take_nested: "n \<le> length a + m \<Longrightarrow> take n (a @ take m b @ c) = take n (a @ b @ c)"
  by (cases "length b \<le> m") (auto simp: take_append min_def)

text \<open>The diagnostic as one line, with no buffers: the specification of \<open>outputError\<close>.\<close>

definition diagnostic_line :: "(int \<Rightarrow> string) \<Rightarrow> bool \<Rightarrow> int \<Rightarrow> string \<Rightarrow> string" where
  "diagnostic_line strerror useErr err expanded =
     ''ERROR'' @ (if useErr then '' ['' @ (if 0 < err \<and> err \<le> MAX_ENAME then ename ! nat err
                                        else ''?UNKNOWN?'') @ '' '' @ strerror err @ '']'' else '':'')
     @ '' '' @ expanded @ [newline]"

lemma error_buffer:
  "snprintf BUF_SIZE (''ERROR'' @ error_text strerror useErr err @ '' ''
      @ snprintf BUF_SIZE expanded @ [newline])
   = take 499 (diagnostic_line strerror useErr err expanded)"
proof -
  define E where "E = (if useErr then '' ['' @ (if 0 < err \<and> err \<le> MAX_ENAME then ename ! nat err
      else ''?UNKNOWN?'') @ '' '' @ strerror err @ '']'' else '':'')"
  have "take 499 (''ERROR'' @ take 499 E @ ('' '' @ take 499 expanded @ [newline]))
      = take 499 (''ERROR'' @ E @ ('' '' @ take 499 expanded @ [newline]))"
    by (rule take_nested) simp
  also have "\<dots> = take 499 ((''ERROR'' @ E @ '' '') @ take 499 expanded @ [newline])"
    by simp
  also have "\<dots> = take 499 ((''ERROR'' @ E @ '' '') @ expanded @ [newline])"
    by (rule take_nested) simp
  finally show ?thesis
    by (simp add: snprintf_def BUF_SIZE_def diagnostic_line_def error_text_def E_def)
qed

lemma outputError_effect:
  "outputError strerror io_errno useErr err fl expanded p =
     (let p' = (if fl then fflush_stdout p else p) in
      p'\<lparr>err_written := err_written p @ take 499 (diagnostic_line strerror useErr err expanded),
        errno := io_errno (errno p)\<rparr>)"
  unfolding outputError_def Let_def error_buffer
  by (simp add: fputs_stderr_def fflush_stdout_def)

text \<open>\<open>errMsg\<close> leaves \<open>errno\<close> as it found it whatever the output calls do to it, and its three
  500-byte buffers together print exactly the first 499 bytes of the one-line diagnostic, after all
  pending output of \<open>stdout\<close>.\<close>

lemma errMsg_effect:
  "errMsg strerror io_errno expanded p =
     p\<lparr>out_written := out_written p @ out_pending p, out_pending := [],
       err_written := err_written p @ take 499 (diagnostic_line strerror True (errno p) expanded)\<rparr>"
  by (simp add: errMsg_def outputError_effect fflush_stdout_def Let_def)

text \<open>\<open>errExit\<close> brings all pending output of \<open>stdout\<close> out before the process ends, however it
  ends, while \<open>err_exit\<close> leaves the buffer of \<open>stdout\<close> and what was written untouched and never ends
  through \<open>exit(3)\<close>; both print the same diagnostic.\<close>

lemma errExit_versus_err_exit:
  "(let (how, q) = errExit strerror io_errno dump expanded p;
        (how', q') = err_exit strerror io_errno dump expanded p
    in out_written q = out_written p @ out_pending p \<and> out_pending q = [] \<and>
       out_written q' = out_written p \<and> out_pending q' = out_pending p \<and>
       how' \<noteq> Exited EXIT_FAILURE \<and> how = (if how' = Aborted then Aborted else Exited EXIT_FAILURE) \<and>
       err_written q = err_written q' \<and>
       err_written q = err_written p @ take 499 (diagnostic_line strerror True (errno p) expanded))"
  by (simp add: errExit_def err_exit_def terminate_proc_def outputError_effect fflush_stdout_def
      exit_process_def Let_def)

text \<open>The value by which the models of the programs stand for a call that ends the process: the
  exit status and the text given to the routine.\<close>

definition stop_with :: "string \<Rightarrow> stop" where
  "stop_with text = Exit EXIT_FAILURE text"

end
