(* ===== verification/Malloc_Test.thy ===== *)
theory Malloc_Test
  imports Error_Functions
begin

text \<open>
  \<open>7-1-malloc_test.c\<close>: allocate \<open>num-allocs\<close> blocks, then free every \<open>step\<close>-th of them between
  \<open>min\<close> and \<open>max\<close>.  The number parser is an argument of the definitions, so that what is proved
  about the program rests on the interface \<open>int_argument\<close> alone; whether each \<open>malloc\<close> succeeds is
  an argument too.  The value of the program break that is printed after each step is not
  modelled, the event \<open>Print_break\<close> stands for the line.
\<close>

section \<open>The program\<close>

definition MAX_ALLOCS :: int where "MAX_ALLOCS = 1000000"

type_synonym int_parser = "string option \<Rightarrow> flags \<Rightarrow> string option \<Rightarrow> int result"

record alloc_args =
  numAllocs :: int
  blockSize :: int
  freeStep :: int
  freeMin :: int
  freeMax :: int

definition arg_or :: "int_parser \<Rightarrow> string list \<Rightarrow> nat \<Rightarrow> string \<Rightarrow> int \<Rightarrow> int result" where
  "arg_or parse argv k name dflt =
     (if k < length argv then parse (Some (argv ! k)) GN_GT_0 (Some name) else Inr dflt)"

definition malloc_test_args :: "int_parser \<Rightarrow> string list \<Rightarrow> alloc_args result" where
  "malloc_test_args parse argv =
     (if length argv < 3 \<or> strcmp (argv ! 1) ''--help'' = 0
      then Inl (stop_with (argv ! 0 @ '' num-allocs block-size [step [min [max]]]'' @ [newline]))
      else rbind (parse (Some (argv ! 1)) GN_GT_0 (Some ''num-allocs'')) (\<lambda>num.
        if MAX_ALLOCS < num then Inl (stop_with (''num-allocs > '' @ dec_int MAX_ALLOCS @ [newline]))
        else rbind (parse (Some (argv ! 2)) (GN_GT_0 OR GN_ANY_BASE) (Some ''block-size'')) (\<lambda>size.
          rbind (arg_or parse argv 3 ''step'' 1) (\<lambda>step.
          rbind (arg_or parse argv 4 ''min'' 1) (\<lambda>mn.
          rbind (arg_or parse argv 5 ''max'' num) (\<lambda>mx.
            if num < mx then Inl (stop_with (''free-max > num-allocs'' @ [newline]))
            else Inr \<lparr>numAllocs = num, blockSize = size, freeStep = step,
                      freeMin = mn, freeMax = mx\<rparr>))))))"

datatype alloc_event = Alloc nat int | Free int | Print_break

fun alloc_loop :: "(nat \<Rightarrow> bool) \<Rightarrow> int \<Rightarrow> nat \<Rightarrow> nat \<Rightarrow> alloc_event list result" where
  "alloc_loop malloc_ok bsize j 0 = Inr []"
| "alloc_loop malloc_ok bsize j (Suc k) =
     (if \<not> malloc_ok j then Inl (stop_with ''malloc'')
      else rbind (alloc_loop malloc_ok bsize (Suc j) k) (\<lambda>evs. Inr (Alloc j bsize # Print_break # evs)))"

text \<open>The loop that frees: \<open>ptr[j]\<close> must be one of the \<open>num\<close> initialised entries, must not have been
  freed before (the set \<open>freed\<close>), and \<open>j += freeStep\<close> is signed arithmetic.  \<open>None\<close> would be a loop
  that does not end.\<close>

partial_function (option) free_loop ::
    "int \<Rightarrow> int \<Rightarrow> int \<Rightarrow> int list \<Rightarrow> int \<Rightarrow> int list result option" where
  "free_loop num step mx freed j =
     (if \<not> j < mx then Some (Inr freed)
      else if j < 0 \<or> num \<le> j then Some (Inl (Undefined OutOfBounds))
      else if j \<in> set freed then Some (Inl (Undefined UseAfterFree))
      else if INT_MAX < j + step then Some (Inl (Undefined SignedOverflow))
      else free_loop num step mx (freed @ [j]) (j + step))"

definition malloc_test_main ::
    "int_parser \<Rightarrow> (nat \<Rightarrow> bool) \<Rightarrow> string list \<Rightarrow> alloc_event list result option" where
  "malloc_test_main parse malloc_ok argv =
     (case malloc_test_args parse argv of Inl e \<Rightarrow> Some (Inl e)
      | Inr a \<Rightarrow>
         (case alloc_loop malloc_ok (blockSize a) 0 (nat (numAllocs a)) of Inl e \<Rightarrow> Some (Inl e)
          | Inr evs \<Rightarrow>
             map_option (\<lambda>r. rbind r (\<lambda>freed.
                 Inr (Print_break # evs @ Print_break # map Free freed @ [Print_break])))
               (free_loop (numAllocs a) (freeStep a) (freeMax a) [] (freeMin a - 1))))"

section \<open>The freeing loop\<close>

definition strided :: "int \<Rightarrow> int \<Rightarrow> int \<Rightarrow> int set" where
  "strided lo hi step = {j. lo \<le> j \<and> j < hi \<and> step dvd (j - lo)}"

lemma strided_empty: "hi \<le> lo \<Longrightarrow> strided lo hi step = {}"
  by (auto simp: strided_def)

lemma strided_step:
  assumes "0 < step" and "lo < hi"
  shows "strided lo hi step = insert lo (strided (lo + step) hi step)"
proof -
  have "lo + step \<le> j" if "lo \<le> j" "j \<noteq> lo" "step dvd j - lo" for j
    using that assms zdvd_imp_le[of step "j - lo"] by simp
  moreover have "step dvd j - (lo + step) \<longleftrightarrow> step dvd j - lo" for j
    by (metis diff_diff_eq dvd_refl dvd_diff_commute dvd_minus_iff dvd_add_right_iff
        diff_add_cancel)
  ultimately show ?thesis using assms by (auto simp: strided_def)
qed

lemma free_loop_result:
  assumes "0 < step" and "0 \<le> lo" and "mx \<le> num" and "step \<le> INT_MAX - mx"
    and "\<forall>j\<in>set freed. j < lo"
  shows "\<exists>fs. free_loop num step mx freed lo = Some (Inr (freed @ fs)) \<and> distinct fs \<and>
    set fs = strided lo mx step"
  using assms(2,5)
proof (induction "nat (mx - lo)" arbitrary: lo freed rule: less_induct)
  case less
  show ?case
  proof (cases "lo < mx")
    case False
    then show ?thesis by (subst free_loop.simps) (auto simp: strided_empty)
  next
    case True
    have "\<forall>j\<in>set (freed @ [lo]). j < lo + step"
      using less.prems(2) assms(1) by force
    moreover have "nat (mx - (lo + step)) < nat (mx - lo)" "0 \<le> lo + step"
      using True assms(1) less.prems(1) by auto
    ultimately obtain fs where fs:
      "free_loop num step mx (freed @ [lo]) (lo + step) = Some (Inr ((freed @ [lo]) @ fs))"
      "distinct fs" "set fs = strided (lo + step) mx step"
      using less.hyps by blast
    have "free_loop num step mx freed lo = free_loop num step mx (freed @ [lo]) (lo + step)"
      using True less.prems assms(3,4) by (subst free_loop.simps) auto
    moreover have "lo \<notin> set fs" using fs(3) assms(1) by (auto simp: strided_def)
    ultimately show ?thesis
      using fs strided_step[OF assms(1) True] by (intro exI[of _ "lo # fs"]) auto
  qed
qed

lemma alloc_loop_ok:
  "\<forall>i. j \<le> i \<and> i < j + k \<longrightarrow> malloc_ok i \<Longrightarrow>
   alloc_loop malloc_ok bsize j k = Inr (concat (map (\<lambda>i. [Alloc i bsize, Print_break]) [j..<j + k]))"
  by (induction k arbitrary: j) (auto simp: upt_conv_Cons)

context int_argument
begin

lemma arg_or_positive: "arg_or parse argv k name dflt = Inr v \<Longrightarrow> 0 < dflt \<Longrightarrow> 0 < v"
  by (auto simp: arg_or_def gn_flag_defs split: if_splits dest!: parse_positive)

text \<open>The ranges that the checks of \<open>main\<close> establish before the first allocation.\<close>

lemma malloc_test_args_range:
  assumes "malloc_test_args parse argv = Inr a"
  shows "0 < numAllocs a" "numAllocs a \<le> MAX_ALLOCS" "0 < blockSize a" "0 < freeStep a"
    "0 < freeMin a" "0 < freeMax a" "freeMax a \<le> numAllocs a"
proof -
  from assms obtain num bsz step mn mx where p:
      "parse (Some (argv ! 1)) GN_GT_0 (Some ''num-allocs'') = Inr num" "num \<le> MAX_ALLOCS"
      "parse (Some (argv ! 2)) (GN_GT_0 OR GN_ANY_BASE) (Some ''block-size'') = Inr bsz"
      "arg_or parse argv 3 ''step'' 1 = Inr step" "arg_or parse argv 4 ''min'' 1 = Inr mn"
      "arg_or parse argv 5 ''max'' num = Inr mx" "mx \<le> num"
      "a = \<lparr>numAllocs = num, blockSize = bsz, freeStep = step, freeMin = mn, freeMax = mx\<rparr>"
    by (auto simp: malloc_test_args_def split: if_splits)
  have num: "0 < num" using p(1) by (rule parse_positive) (simp add: gn_flag_defs)
  have "0 < bsz" using p(3) by (rule parse_positive) (simp add: gn_flag_defs)
  then show "0 < numAllocs a" "numAllocs a \<le> MAX_ALLOCS" "0 < blockSize a" "0 < freeStep a"
    "0 < freeMin a" "0 < freeMax a" "freeMax a \<le> numAllocs a"
    using num p(2,7,8) arg_or_positive[OF p(4)] arg_or_positive[OF p(5)] arg_or_positive[OF p(6)]
    by simp_all
qed

lemma malloc_test_frees:
  assumes args: "malloc_test_args parse argv = Inr a"
    and step: "freeStep a \<le> INT_MAX - MAX_ALLOCS"
    and ok: "\<forall>j. int j < numAllocs a \<longrightarrow> malloc_ok j"
  shows "\<exists>fs. malloc_test_main parse malloc_ok argv = Some (Inr
      (Print_break # concat (map (\<lambda>i. [Alloc i (blockSize a), Print_break]) [0..<nat (numAllocs a)])
       @ Print_break # map Free fs @ [Print_break])) \<and> distinct fs \<and>
    set fs = strided (freeMin a - 1) (freeMax a) (freeStep a)"
proof -
  note r = malloc_test_args_range[OF args]
  obtain fs where fs: "free_loop (numAllocs a) (freeStep a) (freeMax a) [] (freeMin a - 1)
      = Some (Inr ([] @ fs))" "distinct fs" "set fs = strided (freeMin a - 1) (freeMax a) (freeStep a)"
    using free_loop_result[of "freeStep a" "freeMin a - 1" "freeMax a" "numAllocs a" "[]"]
      r step by (auto simp: MAX_ALLOCS_def)
  have "alloc_loop malloc_ok (blockSize a) 0 (nat (numAllocs a))
      = Inr (concat (map (\<lambda>i. [Alloc i (blockSize a), Print_break]) [0..<nat (numAllocs a)]))"
    using alloc_loop_ok[of 0 "nat (numAllocs a)" malloc_ok] ok by auto
  then show ?thesis using args fs by (auto simp: malloc_test_main_def)
qed

end

text \<open>C13: for every command line that \<open>main\<close> accepts and whose step is at most \<open>INT_MAX\<close> minus the
  number of blocks, if all allocations succeed the program ends, reads only the initialised
  entries of \<open>ptr\<close>, frees no block twice, and frees exactly the blocks
  \<open>min - 1, min - 1 + step, \<dots>\<close> below \<open>max\<close>.\<close>

theorem malloc_test_frees_selected:
  assumes "malloc_test_args getInt argv = Inr a"
    and "freeStep a \<le> INT_MAX - MAX_ALLOCS"
    and "\<forall>j. int j < numAllocs a \<longrightarrow> malloc_ok j"
  shows "\<exists>fs. malloc_test_main getInt malloc_ok argv = Some (Inr
      (Print_break # concat (map (\<lambda>i. [Alloc i (blockSize a), Print_break]) [0..<nat (numAllocs a)])
       @ Print_break # map Free fs @ [Print_break])) \<and> distinct fs \<and>
    set fs = strided (freeMin a - 1) (freeMax a) (freeStep a)"
  using assms by (rule get_int.malloc_test_frees)

theorem malloc_test_frees_selected_witness:
  "\<exists>fs. malloc_test_main getInt (\<lambda>_. True) [''prog'', ''5'', ''0x10'', ''2''] = Some (Inr
      (Print_break # concat (map (\<lambda>i. [Alloc i 16, Print_break]) [0..<5])
       @ Print_break # map Free fs @ [Print_break])) \<and> distinct fs \<and> set fs = strided 0 5 2"
proof -
  have "malloc_test_args getInt [''prog'', ''5'', ''0x10'', ''2''] = Inr
      \<lparr>numAllocs = 5, blockSize = 16, freeStep = 2, freeMin = 1, freeMax = 5\<rparr>"
    by code_simp
  from malloc_test_frees_selected[OF this, of "\<lambda>_. True"] show ?thesis
    by (simp add: MAX_ALLOCS_def)
qed

text \<open>Without the bound on the step, \<open>j += freeStep\<close> overflows \<open>int\<close>: with two blocks, the
  largest step and \<open>min\<close> 2, all arguments pass the checks and the program reaches undefined
  behaviour.\<close>

lemma malloc_test_step_overflows:
  "malloc_test_main getInt (\<lambda>_. True) [''prog'', ''2'', ''1'', ''2147483647'', ''2'']
     = Some (Inl (Undefined SignedOverflow))"
proof -
  have "malloc_test_args getInt [''prog'', ''2'', ''1'', ''2147483647'', ''2''] = Inr
      \<lparr>numAllocs = 2, blockSize = 1, freeStep = 2147483647, freeMin = 2, freeMax = 2\<rparr>"
    by (simp add: malloc_test_args_def arg_or_def getInt_def getNum_def strtol_eval gn_flag_defs
        base_of_def MAX_ALLOCS_def)
  moreover have "free_loop 2 2147483647 2 [] 1 = Some (Inl (Undefined SignedOverflow))"
    by (subst free_loop.simps) simp
  moreover have "alloc_loop (\<lambda>_. True) 1 0 (nat 2)
      = Inr [Alloc 0 1, Print_break, Alloc 1 1, Print_break]"
    by code_simp
  ultimately show ?thesis by (simp add: malloc_test_main_def)
qed

end
