(* ===== verification/File_Perms.thy ===== *)
theory File_Perms
  imports Error_Functions
begin

text \<open>
  \<open>file_perms.c\<close> (the \<open>ls\<close>-style permission string), \<open>15-3-nano_timespec.c\<close> (its client, which
  prints a \<open>struct stat\<close>) and \<open>15-6-chmodarx.c\<close> (the mode that \<open>a+rX\<close> gives a file).  Modes are
  32-bit words.  \<open>stat\<close> and \<open>chmod\<close> are arguments over a type of system states; \<open>major\<close>, \<open>minor\<close>
  and \<open>ctime\<close> are arguments too.
\<close>

section \<open>Mode bits\<close>

type_synonym mode = "32 word"

definition S_ISUID :: mode where "S_ISUID = 0x800"
definition S_ISGID :: mode where "S_ISGID = 0x400"
definition S_ISVTX :: mode where "S_ISVTX = 0x200"
definition S_IRUSR :: mode where "S_IRUSR = 0x100"
definition S_IWUSR :: mode where "S_IWUSR = 0x80"
definition S_IXUSR :: mode where "S_IXUSR = 0x40"
definition S_IRGRP :: mode where "S_IRGRP = 0x20"
definition S_IWGRP :: mode where "S_IWGRP = 0x10"
definition S_IXGRP :: mode where "S_IXGRP = 0x8"
definition S_IROTH :: mode where "S_IROTH = 0x4"
definition S_IWOTH :: mode where "S_IWOTH = 0x2"
definition S_IXOTH :: mode where "S_IXOTH = 0x1"
definition S_IRWXU :: mode where "S_IRWXU = 0x1C0"
definition S_IRWXG :: mode where "S_IRWXG = 0x38"
definition S_IRWXO :: mode where "S_IRWXO = 0x7"
definition S_IFMT :: mode where "S_IFMT = 0xF000"
definition S_PERMS :: mode where "S_PERMS = 0xFFF"   \<comment> \<open>the twelve bits that \<open>chmod\<close> sets\<close>

lemmas mode_defs = S_ISUID_def S_ISGID_def S_ISVTX_def S_IRUSR_def S_IWUSR_def S_IXUSR_def
  S_IRGRP_def S_IWGRP_def S_IXGRP_def S_IROTH_def S_IWOTH_def S_IXOTH_def S_IFMT_def

lemma mask_test [flag_bits]:
  fixes w :: mode
  shows "w AND 0x800 = 0 \<longleftrightarrow> \<not> bit w 11" "w AND 0x400 = 0 \<longleftrightarrow> \<not> bit w 10"
    "w AND 0x200 = 0 \<longleftrightarrow> \<not> bit w 9" "w AND 0x100 = 0 \<longleftrightarrow> \<not> bit w 8"
    "w AND 0x80 = 0 \<longleftrightarrow> \<not> bit w 7" "w AND 0x40 = 0 \<longleftrightarrow> \<not> bit w 6"
    "w AND 0x20 = 0 \<longleftrightarrow> \<not> bit w 5" "w AND 0x10 = 0 \<longleftrightarrow> \<not> bit w 4"
    "w AND 0x8 = 0 \<longleftrightarrow> \<not> bit w 3" "w AND 0x4 = 0 \<longleftrightarrow> \<not> bit w 2"
    "w AND 0x2 = 0 \<longleftrightarrow> \<not> bit w 1" "w AND 0x1 = 0 \<longleftrightarrow> \<not> bit w 0"
  using and_exp_iff_bit[of w 11] and_exp_iff_bit[of w 10] and_exp_iff_bit[of w 9]
    and_exp_iff_bit[of w 8] and_exp_iff_bit[of w 7] and_exp_iff_bit[of w 6]
    and_exp_iff_bit[of w 5] and_exp_iff_bit[of w 4] and_exp_iff_bit[of w 3]
    and_exp_iff_bit[of w 2] and_exp_iff_bit[of w 1] and_exp_iff_bit[of w 0]
  by simp_all

section \<open>The permission string\<close>

definition FP_SPECIAL :: flags where "FP_SPECIAL = 1"

definition filePermStr :: "mode \<Rightarrow> flags \<Rightarrow> string" where
  "filePermStr perm flags = snprintf 10
     [if perm AND S_IRUSR \<noteq> 0 then CHR ''r'' else CHR ''-'',
      if perm AND S_IWUSR \<noteq> 0 then CHR ''w'' else CHR ''-'',
      if perm AND S_IXUSR \<noteq> 0
        then (if perm AND S_ISUID \<noteq> 0 \<and> flags AND FP_SPECIAL \<noteq> 0 then CHR ''s'' else CHR ''x'')
        else (if perm AND S_ISUID \<noteq> 0 \<and> flags AND FP_SPECIAL \<noteq> 0 then CHR ''S'' else CHR ''-''),
      if perm AND S_IRGRP \<noteq> 0 then CHR ''r'' else CHR ''-'',
      if perm AND S_IWGRP \<noteq> 0 then CHR ''w'' else CHR ''-'',
      if perm AND S_IXGRP \<noteq> 0
        then (if perm AND S_ISGID \<noteq> 0 \<and> flags AND FP_SPECIAL \<noteq> 0 then CHR ''s'' else CHR ''x'')
        else (if perm AND S_ISGID \<noteq> 0 \<and> flags AND FP_SPECIAL \<noteq> 0 then CHR ''S'' else CHR ''-''),
      if perm AND S_IROTH \<noteq> 0 then CHR ''r'' else CHR ''-'',
      if perm AND S_IWOTH \<noteq> 0 then CHR ''w'' else CHR ''-'',
      if perm AND S_IXOTH \<noteq> 0
        then (if perm AND S_ISVTX \<noteq> 0 \<and> flags AND FP_SPECIAL \<noteq> 0 then CHR ''t'' else CHR ''x'')
        else (if perm AND S_ISVTX \<noteq> 0 \<and> flags AND FP_SPECIAL \<noteq> 0 then CHR ''T'' else CHR ''-'')]"

text \<open>The inverse, as a reader of \<open>ls -l\<close> applies it.\<close>

definition class_of_chars :: "mode \<Rightarrow> mode \<Rightarrow> mode \<Rightarrow> mode \<Rightarrow> string \<Rightarrow> mode" where
  "class_of_chars rbit wbit xbit sbit s =
     (if s ! 0 = CHR ''r'' then rbit else 0) OR (if s ! 1 = CHR ''w'' then wbit else 0) OR
     (if s ! 2 \<in> {CHR ''x'', CHR ''s'', CHR ''t''} then xbit else 0) OR
     (if s ! 2 \<in> {CHR ''s'', CHR ''t'', CHR ''S'', CHR ''T''} then sbit else 0)"

definition perm_of_str :: "string \<Rightarrow> mode" where
  "perm_of_str s = class_of_chars S_IRUSR S_IWUSR S_IXUSR S_ISUID (take 3 s) OR
     class_of_chars S_IRGRP S_IWGRP S_IXGRP S_ISGID (take 3 (drop 3 s)) OR
     class_of_chars S_IROTH S_IWOTH S_IXOTH S_ISVTX (drop 6 s)"

lemma flag_bit:
  fixes x :: mode
  shows "x = 2 ^ k \<Longrightarrow> k < 32 \<Longrightarrow> bit (if b then x else 0) n \<longleftrightarrow> b \<and> n = k"
  by (auto simp: bit_exp_iff)

lemma bit_flag [flag_bits]:
  fixes n :: nat
  shows "bit (if b then 0x800 else 0 :: mode) n \<longleftrightarrow> b \<and> n = 11"
    "bit (if b then 0x400 else 0 :: mode) n \<longleftrightarrow> b \<and> n = 10"
    "bit (if b then 0x200 else 0 :: mode) n \<longleftrightarrow> b \<and> n = 9"
    "bit (if b then 0x100 else 0 :: mode) n \<longleftrightarrow> b \<and> n = 8"
    "bit (if b then 0x80 else 0 :: mode) n \<longleftrightarrow> b \<and> n = 7"
    "bit (if b then 0x40 else 0 :: mode) n \<longleftrightarrow> b \<and> n = 6"
    "bit (if b then 0x20 else 0 :: mode) n \<longleftrightarrow> b \<and> n = 5"
    "bit (if b then 0x10 else 0 :: mode) n \<longleftrightarrow> b \<and> n = 4"
    "bit (if b then 0x8 else 0 :: mode) n \<longleftrightarrow> b \<and> n = 3"
    "bit (if b then 0x4 else 0 :: mode) n \<longleftrightarrow> b \<and> n = 2"
    "bit (if b then 0x2 else 0 :: mode) n \<longleftrightarrow> b \<and> n = 1"
    "bit (if b then 0x1 else 0 :: mode) n \<longleftrightarrow> b \<and> n = 0"
  by (rule flag_bit; simp)+

lemma and_low12: fixes w :: mode shows "w AND 0xFFF = take_bit 12 w"
 by (simp add: take_bit_eq_mask mask_eq_exp_minus_1)

lemma less12: "n < 12 \<longleftrightarrow> n \<in> {11, 10, 9, 8, 7, 6, 5, 4, 3, 2, 1, 0 :: nat}" unfolding insert_iff empty_iff by presburger

lemma class_bits:
   "class_of_chars r w x s
      [if p then CHR ''r'' else CHR ''-'', if q then CHR ''w'' else CHR ''-'',
       if e then (if t then c1 else CHR ''x'') else (if t then c2 else CHR ''-'')]
    = (if p then r else 0) OR (if q then w else 0) OR (if e then x else 0) OR (if t then s else 0)"
  if "(c1, c2) \<in> {(CHR ''s'', CHR ''S''), (CHR ''t'', CHR ''T'')}"
  using that by (auto simp: class_of_chars_def)

text \<open>C40: with the \<open>FP_SPECIAL\<close> flag the nine characters of \<open>filePermStr\<close> determine all twelve
  permission bits: reading the string back gives the low twelve bits of the mode.\<close>

theorem filePermStr_roundtrip:
  "perm_of_str (filePermStr perm FP_SPECIAL) = perm AND 0xFFF"
proof -
  have take: "take 3 (a # b # c # xs) = [a, b, c]" for a b c :: char and xs by simp
  have "perm_of_str (filePermStr perm FP_SPECIAL) =
    ((if bit perm 8 then 0x100 else 0) OR (if bit perm 7 then 0x80 else 0) OR
     (if bit perm 6 then 0x40 else 0) OR (if bit perm 11 then 0x800 else 0)) OR
    ((if bit perm 5 then 0x20 else 0) OR (if bit perm 4 then 0x10 else 0) OR
     (if bit perm 3 then 0x8 else 0) OR (if bit perm 10 then 0x400 else 0)) OR
    ((if bit perm 2 then 0x4 else 0) OR (if bit perm 1 then 0x2 else 0) OR
     (if bit perm 0 then 0x1 else 0) OR (if bit perm 9 then 0x200 else 0))"
    unfolding perm_of_str_def filePermStr_def snprintf_def mode_defs FP_SPECIAL_def mask_test
    by (simp add: class_bits split del: if_split)
  also have "\<dots> = perm AND 0xFFF"
    by (rule bit_word_eqI) (auto simp: bit_or_iff bit_flag and_low12 bit_take_bit_iff less12
        split del: if_split)
  finally show ?thesis .
qed

section \<open>\<open>displayStatInfo\<close>\<close>

record stat =
  st_dev :: nat
  st_ino :: "64 word"
  st_mode :: mode
  st_nlink :: "64 word"
  st_uid :: "32 word"
  st_gid :: "32 word"
  st_rdev :: nat
  st_size :: int
  st_blksize :: int
  st_blocks :: int
  st_atim :: "int \<times> int"    \<comment> \<open>seconds and nanoseconds\<close>
  st_mtim :: "int \<times> int"
  st_ctim :: "int \<times> int"

definition file_type_text :: "mode \<Rightarrow> string" where
  "file_type_text m = (let t = m AND S_IFMT in
     if t = 0x8000 then ''regular file'' else if t = 0x4000 then ''directory''
     else if t = 0x2000 then ''character device'' else if t = 0x6000 then ''block device''
     else if t = 0xA000 then ''symbolic (soft) link'' else if t = 0x1000 then ''FIFO or pipe''
     else if t = 0xC000 then ''socket'' else ''unknown file type?'') @ [newline]"

text \<open>The \<open>%lo\<close> conversion.\<close>

fun oct_nat :: "nat \<Rightarrow> string" where
  "oct_nat n = (if n < 8 then [char_of (48 + n)] else oct_nat (n div 8) @ [char_of (48 + n mod 8)])"

declare oct_nat.simps [simp del]

definition time_line :: "(int \<Rightarrow> string) \<Rightarrow> string \<Rightarrow> int \<times> int \<Rightarrow> string" where
  "time_line ctime label t = label @ ctime (fst t) @ '' (and '' @ dec_int (snd t) @ '' ns)''"

text \<open>The lines before the three times.\<close>

definition stat_lines :: "(nat \<Rightarrow> nat) \<Rightarrow> (nat \<Rightarrow> nat) \<Rightarrow> stat \<Rightarrow> string" where
  "stat_lines major minor sb =
     ''File type:                '' @ file_type_text (st_mode sb)
     @ ''Device containing i-node: major='' @ dec_nat (major (st_dev sb))
     @ ''   minor='' @ dec_nat (minor (st_dev sb)) @ [newline]
     @ ''I-node number:            '' @ dec_int (sint (st_ino sb)) @ [newline]
     @ ''Mode:                     '' @ oct_nat (unat (st_mode sb))
     @ '' ('' @ filePermStr (st_mode sb) 0 @ '')'' @ [newline]
     @ (if st_mode sb AND (S_ISUID OR S_ISGID OR S_ISVTX) \<noteq> 0
        then ''    special bits set:     ''
             @ (if st_mode sb AND S_ISUID \<noteq> 0 then ''set-UID '' else [])
             @ (if st_mode sb AND S_ISGID \<noteq> 0 then ''set-GID '' else [])
             @ (if st_mode sb AND S_ISVTX \<noteq> 0 then ''sticky '' else []) @ [newline]
        else [])
     @ ''Number of (hard) links:   '' @ dec_int (sint (st_nlink sb)) @ [newline]
     @ ''Ownership:                UID='' @ dec_nat (unat (st_uid sb))
     @ ''   GID='' @ dec_nat (unat (st_gid sb)) @ [newline]
     @ (if st_mode sb AND S_IFMT = 0x2000 \<or> st_mode sb AND S_IFMT = 0x6000
        then ''Device number (st_rdev):  major='' @ dec_nat (major (st_rdev sb))
             @ ''; minor='' @ dec_nat (minor (st_rdev sb)) @ [newline]
        else [])
     @ ''File size:                '' @ dec_int (st_size sb) @ '' bytes'' @ [newline]
     @ ''Optimal I/O block size:   '' @ dec_int (st_blksize sb) @ '' bytes'' @ [newline]
     @ ''512B blocks allocated:    '' @ dec_int (st_blocks sb) @ [newline]"

definition displayStatInfo ::
    "(nat \<Rightarrow> nat) \<Rightarrow> (nat \<Rightarrow> nat) \<Rightarrow> (int \<Rightarrow> string) \<Rightarrow> stat \<Rightarrow> string" where
  "displayStatInfo major minor ctime sb =
     stat_lines major minor sb
     @ time_line ctime ''Last file access:         '' (st_atim sb)
     @ time_line ctime ''Last file modification:   '' (st_mtim sb)
     @ time_line ctime ''Last status change:       '' (st_ctim sb)"

text \<open>\<open>main\<close> of \<open>15-3-nano_timespec.c\<close>: which of \<open>lstat\<close> and \<open>stat\<close> is called on which argument.\<close>

definition nano_timespec_main ::
    "(string \<Rightarrow> stat option) \<Rightarrow> (string \<Rightarrow> stat option) \<Rightarrow> (stat \<Rightarrow> string) \<Rightarrow> string list
     \<Rightarrow> string result" where
  "nano_timespec_main lstat_call stat_call display argv =
     (let statLink = 1 < length argv \<and> strcmp (argv ! 1) ''-l'' = 0;
          fname = (if statLink then 2 else 1 :: nat)
      in if length argv \<le> fname \<or> (1 < length argv \<and> strcmp (argv ! 1) ''--help'' = 0)
         then Inl (stop_with (argv ! 0 @ '' [-l] file'' @ [newline]
                     @ ''        -l = use lstat() instead of stat()'' @ [newline]))
         else if statLink
         then (case lstat_call (argv ! fname) of None \<Rightarrow> Inl (stop_with ''lstat'') | Some sb \<Rightarrow> Inr (display sb))
         else (case stat_call (argv ! fname) of None \<Rightarrow> Inl (stop_with ''stat'') | Some sb \<Rightarrow> Inr (display sb)))"

text \<open>\<open>ctime\<close> ends its text with a newline, and \<open>displayStatInfo\<close> prints the nanoseconds after
  it: each time is broken over two lines, the label of the next time follows on the same line, and
  the output does not end with a newline.\<close>

lemma displayStatInfo_breaks_times:
  assumes "\<forall>t. \<exists>tx. ctime t = tx @ [newline]"
  shows "\<exists>pre tx. displayStatInfo major minor ctime sb = pre @ tx @ [newline] @ '' (and ''
      @ dec_int (snd (st_mtim sb)) @ '' ns)Last status change:       ''
      @ ctime (fst (st_ctim sb)) @ '' (and '' @ dec_int (snd (st_ctim sb)) @ '' ns)''"
proof -
  obtain tx where tx: "ctime (fst (st_mtim sb)) = tx @ [newline]" using assms by blast
  show ?thesis
    by (rule exI[of _ "stat_lines major minor sb
          @ time_line ctime ''Last file access:         '' (st_atim sb)
          @ ''Last file modification:   ''"], rule exI[of _ tx])
       (simp add: displayStatInfo_def time_line_def tx)
qed

section \<open>\<open>chmodarx\<close>\<close>

definition new_mode :: "mode \<Rightarrow> mode" where
  "new_mode old =
     (let mode = old AND (S_IRWXU OR S_IRWXG OR S_IRWXO);
          mode = mode OR S_IRUSR OR S_IRGRP OR S_IROTH
      in if old AND S_IFMT = 0x4000 then mode OR S_IXUSR OR S_IXGRP OR S_IXOTH else mode)"

text \<open>The loop over the file names.  \<open>stat_call w f\<close> is the mode that \<open>stat\<close> reports (\<open>None\<close> for
  -1) and \<open>chmod_call w f m\<close> the state after a successful \<open>chmod\<close>.\<close>

fun chmodarx_loop ::
    "('w \<Rightarrow> string \<Rightarrow> mode option) \<Rightarrow> ('w \<Rightarrow> string \<Rightarrow> mode \<Rightarrow> 'w option) \<Rightarrow> 'w \<Rightarrow> string list
     \<Rightarrow> 'w result" where
  "chmodarx_loop stat_call chmod_call w [] = Inr w"
| "chmodarx_loop stat_call chmod_call w (f # fs) =
     (case stat_call w f of None \<Rightarrow> Inl (stop_with ''stat'')
      | Some m \<Rightarrow>
         (case chmod_call w f (new_mode m) of None \<Rightarrow> Inl (stop_with ''chmod'')
          | Some w' \<Rightarrow> chmodarx_loop stat_call chmod_call w' fs))"

definition chmodarx_main ::
    "('w \<Rightarrow> string \<Rightarrow> mode option) \<Rightarrow> ('w \<Rightarrow> string \<Rightarrow> mode \<Rightarrow> 'w option) \<Rightarrow> 'w \<Rightarrow> string list
     \<Rightarrow> 'w result" where
  "chmodarx_main stat_call chmod_call w argv =
     (if length argv \<le> 2 \<or> strcmp (argv ! 1) ''--help'' = 0
      then Inl (stop_with (argv ! 0 @ '' file'' @ [newline]))
      else chmodarx_loop stat_call chmod_call w (tl argv))"

text \<open>The documented behaviour of \<open>chmod\<close>: it replaces the twelve permission bits of the file and
  keeps its type; another name either is unaffected or names the same file.\<close>

definition chmod_contract ::
    "('w \<Rightarrow> string \<Rightarrow> mode option) \<Rightarrow> ('w \<Rightarrow> string \<Rightarrow> mode \<Rightarrow> 'w option) \<Rightarrow> bool" where
  "chmod_contract stat_call chmod_call \<longleftrightarrow>
     (\<forall>w f m w'. chmod_call w f m = Some w' \<longrightarrow>
        stat_call w' f = map_option (\<lambda>old. (old AND NOT S_PERMS) OR (m AND S_PERMS))
            (stat_call w f) \<and>
        (\<forall>g. stat_call w' g = stat_call w g \<or>
             stat_call w g = stat_call w f \<and> stat_call w' g = stat_call w' f))"

definition readable_by_all :: "mode \<Rightarrow> bool" where
  "readable_by_all m \<longleftrightarrow> bit m 8 \<and> bit m 5 \<and> bit m 2 \<and>
     (m AND S_IFMT = 0x4000 \<longrightarrow> bit m 6 \<and> bit m 3 \<and> bit m 0)"

definition special_free :: "mode \<Rightarrow> bool" where
  "special_free m \<longleftrightarrow> \<not> bit m 11 \<and> \<not> bit m 10 \<and> \<not> bit m 9"

lemma bit_mode_const [flag_bits]:
  fixes n :: nat
  shows "bit S_IRUSR n \<longleftrightarrow> n = 8" "bit S_IXUSR n \<longleftrightarrow> n = 6" "bit S_IRGRP n \<longleftrightarrow> n = 5"
    "bit S_IXGRP n \<longleftrightarrow> n = 3" "bit S_IROTH n \<longleftrightarrow> n = 2" "bit S_IXOTH n \<longleftrightarrow> n = 0"
  using bit_flag[of True n]
  by (simp_all add: mode_defs)

lemma bit_mode_ranges [flag_bits]:
  fixes n :: nat
  shows "bit S_PERMS n \<longleftrightarrow> n < 12" "bit S_IRWXU n \<longleftrightarrow> 6 \<le> n \<and> n < 9"
    "bit S_IRWXG n \<longleftrightarrow> 3 \<le> n \<and> n < 6" "bit S_IRWXO n \<longleftrightarrow> n < 3"
    "bit S_IFMT n \<longleftrightarrow> 12 \<le> n \<and> n < 16"
proof -
  have m: "S_PERMS = mask 12" "S_IRWXU = push_bit 6 (mask 3)" "S_IRWXG = push_bit 3 (mask 3)"
    "S_IRWXO = mask 3" "S_IFMT = push_bit 12 (mask 4)"
    by (simp_all add: mask_eq_exp_minus_1 push_bit_eq_mult S_PERMS_def S_IRWXU_def S_IRWXG_def
        S_IRWXO_def S_IFMT_def)
  show "bit S_PERMS n \<longleftrightarrow> n < 12" "bit S_IRWXU n \<longleftrightarrow> 6 \<le> n \<and> n < 9"
    "bit S_IRWXG n \<longleftrightarrow> 3 \<le> n \<and> n < 6" "bit S_IRWXO n \<longleftrightarrow> n < 3"
    "bit S_IFMT n \<longleftrightarrow> 12 \<le> n \<and> n < 16"
    unfolding m by (auto simp: bit_mask_iff bit_push_bit_iff)
qed

lemmas word_bits = bit_or_iff bit_and_iff bit_not_iff

lemma new_mode_bits:
  "bit (new_mode old) n \<longleftrightarrow> n < 9 \<and> (bit old n \<or> n = 8 \<or> n = 5 \<or> n = 2 \<or>
     old AND S_IFMT = 0x4000 \<and> (n = 6 \<or> n = 3 \<or> n = 0))"
  unfolding new_mode_def Let_def by (auto simp: word_bits bit_mode_const bit_mode_ranges)

lemma chmod_result_type: "((old AND NOT S_PERMS) OR (m AND S_PERMS)) AND S_IFMT = old AND S_IFMT"
  by (rule bit_word_eqI) (auto simp: word_bits bit_mode_ranges)

lemma new_mode_good:
  fixes old :: mode
  defines "m \<equiv> (old AND NOT S_PERMS) OR (new_mode old AND S_PERMS)"
  shows "readable_by_all m" and "special_free m"
proof -
  have b: "bit m n = bit (new_mode old) n" if "n < 12" for n
    unfolding m_def using that by (auto simp: word_bits bit_mode_ranges)
  have t: "m AND S_IFMT = old AND S_IFMT" unfolding m_def by (rule chmod_result_type)
  show "readable_by_all m" and "special_free m"
    by (simp_all add: readable_by_all_def special_free_def b t new_mode_bits)
qed

definition granted :: "('w \<Rightarrow> string \<Rightarrow> mode option) \<Rightarrow> 'w \<Rightarrow> string \<Rightarrow> bool" where
  "granted stat_call w f \<longleftrightarrow>
     (\<exists>m. stat_call w f = Some m \<and> readable_by_all m \<and> special_free m)"

lemma chmod_granted:
  assumes "chmod_contract stat_call chmod_call" and "stat_call w f = Some m"
    and "chmod_call w f (new_mode m) = Some w'"
  shows "granted stat_call w' f" and "granted stat_call w g \<Longrightarrow> granted stat_call w' g"
proof -
  have c: "stat_call w' f = map_option (\<lambda>old. (old AND NOT S_PERMS) OR (new_mode m AND S_PERMS))
      (stat_call w f)" "stat_call w' g = stat_call w g \<or> stat_call w' g = stat_call w' f"
    using assms(1,3) unfolding chmod_contract_def by blast+
  have f: "stat_call w' f = Some ((m AND NOT S_PERMS) OR (new_mode m AND S_PERMS))"
    using c(1) assms(2) by simp
  from f show gf: "granted stat_call w' f" using new_mode_good[of m] by (auto simp: granted_def)
  show "granted stat_call w' g" if "granted stat_call w g"
    using c(2) gf that by (auto simp: granted_def)
qed

lemma chmodarx_loop_granted:
  assumes "chmod_contract stat_call chmod_call" and "chmodarx_loop stat_call chmod_call w fs = Inr w'"
    and "f \<in> set fs \<or> granted stat_call w f"
  shows "granted stat_call w' f"
  using assms(2,3)
proof (induction fs arbitrary: w)
  case (Cons g fs)
  from Cons.prems(1) obtain m w1 where s: "stat_call w g = Some m" "chmod_call w g (new_mode m) = Some w1"
    "chmodarx_loop stat_call chmod_call w1 fs = Inr w'"
    by (auto split: option.splits)
  have "f \<in> set fs \<or> granted stat_call w1 f"
    using Cons.prems(2) chmod_granted[OF assms(1) s(1,2)] by auto
  with s(3) show ?case by (rule Cons.IH)
qed simp

text \<open>If \<open>chmodarx\<close> succeeds on a list of files and \<open>chmod\<close> behaves as documented, then at the
  end every listed file is readable by all, every listed directory can also be searched by all,
  and none keeps a set-user-ID, set-group-ID or sticky bit.\<close>

lemma chmodarx_grants:
  assumes "chmod_contract stat_call chmod_call"
    and "chmodarx_main stat_call chmod_call w (prog # files) = Inr w'"
    and "f \<in> set files"
  shows "\<exists>m. stat_call w' f = Some m \<and> readable_by_all m \<and> special_free m"
  using assms chmodarx_loop_granted[OF assms(1), of w files w' f]
  by (auto simp: chmodarx_main_def granted_def split: if_splits)

definition map_chmod :: "(string \<rightharpoonup> mode) \<Rightarrow> string \<Rightarrow> mode \<Rightarrow> (string \<rightharpoonup> mode) option" where
  "map_chmod w f m = (case w f of None \<Rightarrow> None
     | Some old \<Rightarrow> Some (w(f \<mapsto> (old AND NOT S_PERMS) OR (m AND S_PERMS))))"

lemma map_chmod_contract: "chmod_contract (\<lambda>w. w) map_chmod"
  by (auto simp: chmod_contract_def map_chmod_def split: option.splits if_splits)

text \<open>The program accepts no command line with one file, although its usage text names one.\<close>

lemma chmodarx_single_file:
  "chmodarx_main stat_call chmod_call w [prog, f] = Inl (stop_with (prog @ '' file'' @ [newline]))"
  by (simp add: chmodarx_main_def)

end
