(* ===== verification/Linked_Heap.thy ===== *)
theory Linked_Heap
  imports Tlpi_Prelude
begin

text \<open>
  The singly linked lists with a dummy header that many programs of the repository keep (the
  clients of the talk server, the children of \<open>popen\<close>, the sorted file names of
  \<open>14-1-file_create_test.c\<close>).  A store maps addresses to nodes; every access goes through \<open>load\<close>,
  so that a null pointer or a freed node is a value of the result.  \<open>malloc\<close> hands out fresh
  addresses and fails when the store's quota is used up.
\<close>

section \<open>Stores and nodes\<close>

type_synonym addr = nat

abbreviation (input) NULL :: addr where "NULL \<equiv> 0"

text \<open>A node whose payload was not initialised holds \<open>None\<close>.\<close>

datatype 'a node = Node (payload: "'a option") (link: addr)

record 'a store =
  cells :: "addr \<rightharpoonup> 'a node"
  fresh :: addr
  quota :: nat

definition load :: "'a store \<Rightarrow> addr \<Rightarrow> 'a node result" where
  "load s p = (if p = NULL then Inl (Undefined NullDeref)
     else case cells s p of None \<Rightarrow> Inl (Undefined UseAfterFree) | Some nd \<Rightarrow> Inr nd)"

definition get_next :: "'a store \<Rightarrow> addr \<Rightarrow> addr result" where
  "get_next s p = rbind (load s p) (\<lambda>nd. Inr (link nd))"

definition get_payload :: "'a store \<Rightarrow> addr \<Rightarrow> 'a result" where
  "get_payload s p = rbind (load s p) (\<lambda>nd.
     case payload nd of None \<Rightarrow> Inl (Undefined Uninitialised) | Some x \<Rightarrow> Inr x)"

definition set_next :: "'a store \<Rightarrow> addr \<Rightarrow> addr \<Rightarrow> 'a store result" where
  "set_next s p q = rbind (load s p) (\<lambda>nd.
     Inr (s\<lparr>cells := (cells s)(p \<mapsto> Node (payload nd) q)\<rparr>))"

text \<open>\<open>malloc\<close> of a node, followed by the stores that fill its payload; \<open>None\<close> is the null pointer.\<close>

definition malloc_node :: "'a store \<Rightarrow> 'a option \<Rightarrow> (addr \<times> 'a store) option" where
  "malloc_node s x = (if quota s = 0 then None
     else Some (fresh s, s\<lparr>cells := (cells s)(fresh s \<mapsto> Node x NULL),
                           fresh := Suc (fresh s), quota := quota s - 1\<rparr>))"

definition free_node :: "'a store \<Rightarrow> addr \<Rightarrow> 'a store result" where
  "free_node s p = rbind (load s p) (\<lambda>_. Inr (s\<lparr>cells := (cells s)(p := None)\<rparr>))"

text \<open>\<open>tmp->next = p->next; p->next = tmp\<close> for a node \<open>tmp\<close>.\<close>

definition link_after :: "'a store \<Rightarrow> addr \<Rightarrow> addr \<Rightarrow> 'a store result" where
  "link_after s p tmp = rbind (get_next s p) (\<lambda>n. rbind (set_next s tmp n) (\<lambda>s1. set_next s1 p tmp))"

text \<open>\<open>tmp = p->next; p->next = tmp->next; free(tmp)\<close>.\<close>

definition unlink_after :: "'a store \<Rightarrow> addr \<Rightarrow> 'a store result" where
  "unlink_after s p = rbind (get_next s p) (\<lambda>tmp. rbind (get_next s tmp) (\<lambda>n.
     rbind (set_next s p n) (\<lambda>s1. free_node s1 tmp)))"

section \<open>The list that a store holds\<close>

definition store_ok :: "'a store \<Rightarrow> bool" where
  "store_ok s \<longleftrightarrow> 0 < fresh s \<and> (\<forall>a\<in>dom (cells s). 0 < a \<and> a < fresh s)"

fun seg :: "'a store \<Rightarrow> addr \<Rightarrow> (addr \<times> 'a option) list \<Rightarrow> addr \<Rightarrow> bool" where
  "seg s p [] q \<longleftrightarrow> p = q"
| "seg s p ((a, x) # L) q \<longleftrightarrow> p = a \<and> (\<exists>n. cells s a = Some (Node x n) \<and> seg s n L q)"

text \<open>The header at \<open>h\<close> with payload \<open>y\<close>, followed by the nodes \<open>L\<close>.\<close>

definition headed :: "'a store \<Rightarrow> addr \<Rightarrow> 'a option \<Rightarrow> (addr \<times> 'a) list \<Rightarrow> bool" where
  "headed s h y L \<longleftrightarrow> store_ok s \<and> seg s h ((h, y) # map (apsnd Some) L) NULL \<and>
     distinct (h # map fst L)"

lemma seg_append [heap_list]: "seg s p (L @ M) q \<longleftrightarrow> (\<exists>r. seg s p L r \<and> seg s r M q)"
  by (induction L arbitrary: p) (simp, fastforce)

lemma seg_frame [heap_list]:
  "\<forall>a\<in>set (map fst L). cells s' a = cells s a \<Longrightarrow> seg s' p L q = seg s p L q"
  by (induction L arbitrary: p) auto

lemma seg_frame_nodes:
  "\<forall>a\<in>set (map fst L). cells s' a = cells s a \<Longrightarrow>
   seg s' p (map (apsnd Some) L) q = seg s p (map (apsnd Some) L) q"
  by (rule seg_frame) auto

lemma seg_in_dom: "seg s p L q \<Longrightarrow> fst ` set L \<subseteq> dom (cells s)"
  by (induction L arbitrary: p) (simp, fastforce)

lemma seg_snoc: "seg s p (L @ [(a, x)]) q \<longleftrightarrow> seg s p L a \<and> cells s a = Some (Node x q)"
  by (auto simp: seg_append)

lemma load_ok: "store_ok s \<Longrightarrow> cells s p = Some nd \<Longrightarrow> load s p = Inr nd"
  by (force simp: load_def store_ok_def)

lemma store_ok_addr: "store_ok s \<Longrightarrow> cells s p = Some nd \<Longrightarrow> 0 < p \<and> p < fresh s"
  by (auto simp: store_ok_def)

lemma store_ok_fresh: "store_ok s \<Longrightarrow> cells s (fresh s) = None"
  by (auto simp: store_ok_def dom_def)

lemma upd_frame:
  "g = f(b := v, a := w) \<Longrightarrow> b \<notin> S \<Longrightarrow> a \<notin> S \<Longrightarrow> \<forall>c\<in>S. g c = f c"
  by auto

lemma ball_without: "S \<subseteq> T \<Longrightarrow> \<forall>a\<in>T. a \<noteq> b \<longrightarrow> P a \<Longrightarrow> b \<notin> S \<Longrightarrow> \<forall>c\<in>S. P c"
  by auto

text \<open>The node before a position of the list: the header or the last node of the part before it.\<close>

definition before :: "addr \<Rightarrow> (addr \<times> 'a) list \<Rightarrow> addr" where
  "before h L = (if L = [] then h else fst (last L))"

lemma before_simps [simp]:
  "before h [] = h" "before h (L @ [(a, x)]) = a" "before h ((a, x) # L) = before a L"
  by (auto simp: before_def)

lemma before_in: "before h L \<in> set (h # map fst L)"
  by (auto simp: before_def)

lemma headed_before:
  assumes "headed s h y (L @ M)"
  obtains z q where "cells s (before h L) = Some (Node z q)" "seg s q (map (apsnd Some) M) NULL"
    "seg s h (butlast ((h, y) # map (apsnd Some) L)) (before h L)"
    "(h, y) # map (apsnd Some) L = butlast ((h, y) # map (apsnd Some) L) @ [(before h L, z)]"
proof -
  let ?K = "(h, y) # map (apsnd Some) L"
  obtain q where q: "seg s h ?K q" "seg s q (map (apsnd Some) M) NULL"
    using assms by (auto simp: headed_def seg_append)
  have l: "fst (last ?K) = before h L" by (auto simp: before_def last_map)
  have K: "?K = butlast ?K @ [(before h L, snd (last ?K))]"
    by (metis append_butlast_last_id l list.distinct(1) prod.collapse)
  then have "seg s h (butlast ?K) (before h L) \<and>
      cells s (before h L) = Some (Node (snd (last ?K)) q)"
    using q(1) seg_snoc by metis
  then show thesis using that q(2) K by blast
qed

text \<open>Redirecting the link of the node before a position replaces the list from there on.\<close>

lemma headed_redirect:
  assumes "headed s h y (L @ M)" and "store_ok s'"
    and cell: "cells s (before h L) = Some (Node z q)"
    and cell': "cells s' (before h L) = Some (Node z q')"
    and keep: "\<forall>a\<in>set (h # map fst L). a \<noteq> before h L \<longrightarrow> cells s' a = cells s a"
    and seg': "seg s' q' (map (apsnd Some) N) NULL" and dist: "distinct (h # map fst (L @ N))"
  shows "headed s' h y (L @ N)"
proof -
  let ?K = "(h, y) # map (apsnd Some) L"
  obtain B z' q0 where z: "cells s (before h L) = Some (Node z' q0)"
    and B: "seg s h B (before h L)" and K: "?K = B @ [(before h L, z')]"
    using headed_before[OF assms(1)] by metis
  have "distinct (map fst ?K)" using dist by (auto simp: comp_def)
  then have new: "before h L \<notin> set (map fst B)" unfolding K by simp
  have "set (map fst ?K) = set (h # map fst L)" by force
  then have "set (map fst B) \<subseteq> set (h # map fst L)" unfolding K by auto
  then have "\<forall>c\<in>set (map fst B). cells s' c = cells s c"
    using keep new by (rule ball_without)
  then have "seg s' h B (before h L)" using B seg_frame[of B s' s] by metis
  then have "seg s' h ?K q'"
    unfolding K using cell' cell z by (simp add: seg_snoc)
  then have "seg s' h (?K @ map (apsnd Some) N) NULL"
    using seg' seg_append[of s' h ?K "map (apsnd Some) N" NULL] by blast
  then show ?thesis using assms(2) dist by (simp add: headed_def)
qed

lemma unlink_after_headed:
  assumes "headed s h y (L @ (a, x) # M)"
  shows "\<exists>s'. unlink_after s (before h L) = Inr s' \<and> headed s' h y (L @ M) \<and> cells s' a = None \<and>
    quota s' = quota s \<and> dom (cells s') = dom (cells s) - {a}"
proof -
  obtain z q where b: "cells s (before h L) = Some (Node z q)"
    and q: "seg s q (map (apsnd Some) ((a, x) # M)) NULL"
    using headed_before[OF assms] by metis
  then obtain n where qa: "q = a" and a: "cells s a = Some (Node (Some x) n)"
    and n: "seg s n (map (apsnd Some) M) NULL"
    by auto
  have ok: "store_ok s" and d: "distinct (h # map fst (L @ (a, x) # M))"
    using assms by (auto simp: headed_def)
  have ab: "a \<noteq> before h L" using d by (auto simp: before_def)
  let ?s = "s\<lparr>cells := (cells s)(before h L \<mapsto> Node z n, a := None)\<rparr>"
  have "unlink_after s (before h L) = Inr ?s"
    using store_ok_addr[OF ok b] store_ok_addr[OF ok a] ab qa a b
    by (simp add: unlink_after_def get_next_def set_next_def free_node_def load_def)
  moreover have "headed ?s h y (L @ M)"
  proof (rule headed_redirect[OF assms _ b])
    show "store_ok ?s" using ok b by (auto simp: store_ok_def split: if_splits)
    show "cells ?s (before h L) = Some (Node z n)" using ab by simp
    show "\<forall>c\<in>set (h # map fst L). c \<noteq> before h L \<longrightarrow> cells ?s c = cells s c" using d by auto
    have "set (h # map fst L) \<inter> set (map fst M) = {}" using d by auto
    then have "before h L \<notin> set (map fst M)" using before_in[of h L] by blast
    moreover have "a \<notin> set (map fst M)" using d by simp
    moreover have "cells ?s = (cells s)(before h L \<mapsto> Node z n, a := None)" by simp
    ultimately have "\<forall>c\<in>set (map fst M). cells ?s c = cells s c" using upd_frame by metis
    then show "seg ?s n (map (apsnd Some) M) NULL" using n seg_frame_nodes by metis
    show "distinct (h # map fst (L @ M))" using d by auto
  qed
  moreover have "dom (cells ?s) = dom (cells s) - {a}" using ab b by auto
  ultimately show ?thesis by simp
qed

lemma link_after_headed:
  assumes "headed s h y (L @ M)" and "0 < quota s"
  shows "\<exists>s1 s'. malloc_node s (Some x) = Some (fresh s, s1) \<and>
    link_after s1 (before h L) (fresh s) = Inr s' \<and> headed s' h y (L @ (fresh s, x) # M) \<and>
    quota s' = quota s - 1 \<and> dom (cells s') = insert (fresh s) (dom (cells s))"
proof -
  let ?a = "fresh s"
  obtain z q where b: "cells s (before h L) = Some (Node z q)"
    and q: "seg s q (map (apsnd Some) M) NULL"
    using headed_before[OF assms(1)] by metis
  have ok: "store_ok s" and d: "distinct (h # map fst (L @ M))"
    and used: "fst ` set ((h, y) # map (apsnd Some) (L @ M)) \<subseteq> dom (cells s)"
    using assms(1) seg_in_dom unfolding headed_def by blast+
  have "?a \<notin> dom (cells s)" using store_ok_fresh[OF ok] by (simp add: domIff)
  then have new: "?a \<notin> set (h # map fst (L @ M))" "?a \<noteq> before h L"
    using used b by (auto simp: image_iff) force+
  define s1 where "s1 = s\<lparr>cells := (cells s)(?a \<mapsto> Node (Some x) NULL), fresh := Suc ?a,
    quota := quota s - 1\<rparr>"
  let ?s = "s1\<lparr>cells := (cells s)(?a \<mapsto> Node (Some x) q, before h L \<mapsto> Node z ?a)\<rparr>"
  have pos: "0 < ?a" "before h L \<noteq> 0" using ok b by (auto simp: store_ok_def)
  have "link_after s1 (before h L) ?a = Inr ?s"
    using pos new(2) b
    by (auto simp: link_after_def get_next_def set_next_def load_def s1_def fun_upd_twist)
  moreover have "headed ?s h y (L @ (?a, x) # M)"
  proof (rule headed_redirect[OF assms(1) _ b])
    show "store_ok ?s" using pos store_ok_addr[OF ok b] store_ok_addr[OF ok]
      by (fastforce simp: store_ok_def s1_def split: if_splits)
    show "cells ?s (before h L) = Some (Node z ?a)" by simp
    have "?a \<notin> set (h # map fst L)" using new(1) by simp
    then show "\<forall>c\<in>set (h # map fst L). c \<noteq> before h L \<longrightarrow> cells ?s c = cells s c" by fastforce
    have "set (h # map fst L) \<inter> set (map fst M) = {}" using d by auto
    then have "before h L \<notin> set (map fst M)" using before_in[of h L] by blast
    moreover have "?a \<notin> set (map fst M)" using new(1) by simp
    moreover have "cells ?s = (cells s)(?a \<mapsto> Node (Some x) q, before h L \<mapsto> Node z ?a)" by simp
    ultimately have "\<forall>c\<in>set (map fst M). cells ?s c = cells s c" using upd_frame by metis
    then have "seg ?s q (map (apsnd Some) M) NULL" using q seg_frame_nodes by metis
    then show "seg ?s ?a (map (apsnd Some) ((?a, x) # M)) NULL" using new(2) by simp
    show "distinct (h # map fst (L @ (?a, x) # M))" using d new by auto
  qed
  moreover have "dom (cells ?s) = insert ?a (dom (cells s))" using b by auto
  ultimately show ?thesis using assms(2) by (simp add: malloc_node_def s1_def)
qed

lemma headed_next_last:
  assumes "headed s h y L"
  shows "get_next s (before h L) = Inr NULL"
proof -
  obtain z where b: "cells s (before h L) = Some (Node z NULL)"
    using headed_before[of s h y L "[]"] assms by auto
  have "store_ok s" using assms by (simp add: headed_def)
  then show ?thesis using load_ok[OF _ b] by (simp add: get_next_def)
qed

lemma headed_next:
  assumes "headed s h y (L @ (a, x) # M)"
  shows "get_next s (before h L) = Inr a" and "get_payload s a = Inr x" and "a \<noteq> NULL"
proof -
  obtain z q where b: "cells s (before h L) = Some (Node z q)"
    and q: "seg s q (map (apsnd Some) ((a, x) # M)) NULL"
    using headed_before[OF assms] by metis
  have ok: "store_ok s" using assms by (simp add: headed_def)
  from q obtain n where a: "q = a" "cells s a = Some (Node (Some x) n)" by auto
  show "get_next s (before h L) = Inr a" using load_ok[OF ok b] a by (simp add: get_next_def)
  show "get_payload s a = Inr x" using load_ok[OF ok a(2)] by (simp add: get_payload_def)
  show "a \<noteq> NULL" using store_ok_addr[OF ok a(2)] by simp
qed

section \<open>Several lists in one store\<close>

lemma headed_frame:
  assumes "headed s h y L" and "store_ok s'" and "\<forall>a\<in>set (h # map fst L). cells s' a = cells s a"
  shows "headed s' h y L"
proof -
  have "\<forall>a\<in>set (map fst ((h, y) # map (apsnd Some) L)). cells s' a = cells s a" using assms(3) by auto
  then show ?thesis using assms(1,2) seg_frame[of "(h, y) # map (apsnd Some) L" s' s h NULL] by (simp add: headed_def del: seg.simps)
qed

lemma headed_used: "headed s h y L \<Longrightarrow> set (h # map fst L) \<subseteq> dom (cells s)"
  using seg_in_dom[of s h "(h, y) # map (apsnd Some) L" NULL] by (force simp: headed_def)

text \<open>A new header, and a new node behind a header: the other cells stay as they are.\<close>

lemma new_header:
  assumes "store_ok s" and "0 < quota s"
  shows "\<exists>s'. malloc_node s y = Some (fresh s, s') \<and> headed s' (fresh s) y [] \<and> quota s' = quota s - 1 \<and>
    dom (cells s') = insert (fresh s) (dom (cells s)) \<and> fresh s \<notin> dom (cells s) \<and> (\<forall>a. a \<noteq> fresh s \<longrightarrow> cells s' a = cells s a)"
  using assms store_ok_fresh[OF assms(1)]
  by (auto simp: malloc_node_def headed_def store_ok_def less_Suc_eq)

lemma link_after_frame:
  "link_after s p tmp = Inr s' \<Longrightarrow> a \<noteq> p \<Longrightarrow> a \<noteq> tmp \<Longrightarrow> cells s' a = cells s a"
  by (auto simp: link_after_def set_next_def)

lemma push_headed:
  assumes "headed s h y L" and "0 < quota s"
  shows "\<exists>s1 s'. malloc_node s (Some x) = Some (fresh s, s1) \<and> link_after s1 h (fresh s) = Inr s' \<and>
    headed s' h y ((fresh s, x) # L) \<and> quota s' = quota s - 1 \<and> dom (cells s') = insert (fresh s) (dom (cells s)) \<and>
    fresh s \<notin> dom (cells s) \<and> (\<forall>a. a \<noteq> h \<longrightarrow> a \<noteq> fresh s \<longrightarrow> cells s' a = cells s a)"
proof -
  obtain s1 s' where s: "malloc_node s (Some x) = Some (fresh s, s1)" "link_after s1 h (fresh s) = Inr s'"
    "headed s' h y ((fresh s, x) # L)" "quota s' = quota s - 1" "dom (cells s') = insert (fresh s) (dom (cells s))"
    using link_after_headed[of s h y "[]" L x] assms by auto
  have "\<forall>a. a \<noteq> h \<longrightarrow> a \<noteq> fresh s \<longrightarrow> cells s' a = cells s a"
    using s(1) link_after_frame[OF s(2)] by (auto simp: malloc_node_def split: if_splits)
  moreover have "fresh s \<notin> dom (cells s)" using assms(1) by (simp add: headed_def domIff store_ok_fresh)
  ultimately show ?thesis using s by blast
qed

text \<open>\<open>for (tmp = list; tmp != NULL; tmp = list) { list = list->next; free(tmp); }\<close>\<close>

partial_function (option) release_list :: "'a store \<Rightarrow> addr \<Rightarrow> 'a store result option" where
  "release_list s p =
     (if p = NULL then Some (Inr s)
      else obind (Some (get_next s p)) (\<lambda>n. obind (Some (free_node s p)) (\<lambda>s. release_list s n)))"

lemma release_seg:
  "store_ok s \<Longrightarrow> seg s p L NULL \<Longrightarrow> distinct (map fst L) \<Longrightarrow>
   \<exists>s'. release_list s p = Some (Inr s') \<and> cells s' = cells s |` (- set (map fst L)) \<and> store_ok s'"
proof (induction L arbitrary: s p)
  case (Cons ax L)
  obtain a x where ax: "ax = (a, x)" by fastforce
  then obtain n where n: "p = a" "cells s a = Some (Node x n)" "seg s n L NULL" using Cons.prems(2) by auto
  let ?s = "s\<lparr>cells := (cells s)(a := None)\<rparr>"
  have ld: "load s a = Inr (Node x n)" by (rule load_ok[OF Cons.prems(1) n(2)])
  then have a: "a \<noteq> NULL" by (cases "a = NULL") (auto simp: load_def)
  have "release_list s p = release_list ?s n"
    using ld a n(1) by (subst release_list.simps) (simp add: get_next_def free_node_def)
  moreover have "store_ok ?s" using Cons.prems(1) by (auto simp: store_ok_def)
  moreover have "seg ?s n L NULL" using n(3) Cons.prems(3) ax by (subst seg_frame[of L ?s s]) auto
  moreover have "distinct (map fst L)" using Cons.prems(3) by simp
  ultimately obtain s' where s': "release_list s p = Some (Inr s')" "cells s' = cells ?s |` (- set (map fst L))" "store_ok s'"
    using Cons.IH[of ?s n] by metis
  have "cells s' = cells s |` (- set (map fst (ax # L)))"
    unfolding s'(2) ax by (rule ext) (simp add: restrict_map_def)
  then show ?case using s' by blast
qed (subst release_list.simps, simp add: restrict_map_def)

lemma release_headed:
  assumes "headed s h y L"
  shows "\<exists>s'. release_list s h = Some (Inr s') \<and> cells s' = cells s |` (- set (h # map fst L)) \<and> store_ok s'"
proof -
  have "map fst ((h, y) # map (apsnd Some) L) = h # map fst L" by (auto simp: comp_def)
  then show ?thesis using release_seg[of s h "(h, y) # map (apsnd Some) L"] assms
    by (simp add: headed_def del: seg.simps list.map)
qed

section \<open>Keyed tables\<close>

text \<open>The interface under which the programs use such a list: a table of entries with a key, to which
  entries are added in front and from which the first entry with a key is removed.\<close>

fun remove_first :: "('a \<Rightarrow> 'k) \<Rightarrow> 'k \<Rightarrow> 'a list \<Rightarrow> 'a list" where
  "remove_first key k [] = []"
| "remove_first key k (x # xs) = (if key x = k then xs else x # remove_first key k xs)"

datatype ('a, 'k) table_event = Add 'a | Del 'k

fun table_spec :: "('a \<Rightarrow> 'k) \<Rightarrow> 'a list \<Rightarrow> ('a, 'k) table_event list \<Rightarrow> 'a list" where
  "table_spec key xs [] = xs"
| "table_spec key xs (Add x # evs) = table_spec key (x # xs) evs"
| "table_spec key xs (Del k # evs) = table_spec key (remove_first key k xs) evs"

fun run_table ::
    "('s \<Rightarrow> 'a \<Rightarrow> 's result) \<Rightarrow> ('s \<Rightarrow> 'k \<Rightarrow> 's result option) \<Rightarrow> 's \<Rightarrow> ('a, 'k) table_event list
     \<Rightarrow> 's result option" where
  "run_table add del s [] = Some (Inr s)"
| "run_table add del s (Add x # evs) =
     (case add s x of Inl e \<Rightarrow> Some (Inl e) | Inr s' \<Rightarrow> run_table add del s' evs)"
| "run_table add del s (Del k # evs) =
     (case del s k of None \<Rightarrow> None | Some (Inl e) \<Rightarrow> Some (Inl e)
      | Some (Inr s') \<Rightarrow> run_table add del s' evs)"

fun count_adds :: "('a, 'k) table_event list \<Rightarrow> nat" where
  "count_adds [] = 0"
| "count_adds (Add x # evs) = Suc (count_adds evs)"
| "count_adds (Del k # evs) = count_adds evs"

lemma remove_first_notin: "k \<notin> key ` set xs \<Longrightarrow> remove_first key k xs = xs"
  by (induction xs) auto

lemma remove_first_split:
  "remove_first key k (L @ M) =
     (if k \<in> key ` set L then remove_first key k L @ M else L @ remove_first key k M)"
  by (induction L) auto

lemma remove_first_distinct:
  "distinct (map key xs) \<Longrightarrow> remove_first key k xs = filter (\<lambda>x. key x \<noteq> k) xs"
  by (induction xs) (auto simp: remove_first_notin image_iff intro!: filter_True [symmetric])

locale headed_table =
  fixes key :: "'a \<Rightarrow> 'k"
    and add :: "'s \<Rightarrow> 'a \<Rightarrow> 's result"
    and del :: "'s \<Rightarrow> 'k \<Rightarrow> 's result option"
    and room :: "'s \<Rightarrow> nat"
    and holds :: "'s \<Rightarrow> 'a list \<Rightarrow> bool"
  assumes add_law: "holds s xs \<Longrightarrow> 0 < room s \<Longrightarrow>
      \<exists>s'. add s x = Inr s' \<and> holds s' (x # xs) \<and> room s' = room s - 1"
    and del_law: "holds s xs \<Longrightarrow>
      \<exists>s'. del s k = Some (Inr s') \<and> holds s' (remove_first key k xs) \<and> room s' = room s"
begin

text \<open>Any sequence of operations runs to its end, with no undefined access, and leaves the list of
  the specification.\<close>

lemma run_table_spec:
  "holds s xs \<Longrightarrow> count_adds evs \<le> room s \<Longrightarrow>
   \<exists>s'. run_table add del s evs = Some (Inr s') \<and> holds s' (table_spec key xs evs) \<and>
     room s' = room s - count_adds evs"
proof (induction evs arbitrary: s xs)
  case (Cons e evs)
  show ?case
  proof (cases e)
    case (Add x)
    with Cons.prems add_law[of s xs x] obtain s' where
      "add s x = Inr s'" "holds s' (x # xs)" "room s' = room s - 1" by auto
    then show ?thesis using Cons.IH[of s' "x # xs"] Cons.prems Add by auto
  next
    case (Del k)
    with Cons.prems del_law[of s xs k] obtain s' where
      "del s k = Some (Inr s')" "holds s' (remove_first key k xs)" "room s' = room s" by auto
    then show ?thesis using Cons.IH[of s' "remove_first key k xs"] Cons.prems Del by auto
  qed
qed auto

text \<open>An entry that was added and removed again leaves the table as it was.\<close>

lemma add_del:
  assumes "holds s xs" and "0 < room s"
  shows "\<exists>s'. run_table add del s [Add x, Del (key x)] = Some (Inr s') \<and> holds s' xs"
  using run_table_spec[OF assms(1), of "[Add x, Del (key x)]"] assms(2) by auto

end

end
