(* ===== verification/Talk_Server.thy ===== *)
theory Talk_Server
  imports Linked_Heap Error_Functions "HOL-Library.Multiset" "HOL-Library.Sublist"
begin

text \<open>
  \<open>46-6-talk_server.c\<close>: clients log in with the identifier of their message queue, log out, and
  send lines that the server passes on to every logged-in client.  The clients are a headed list
  in the heap.  The kernel's message queues are arguments: \<open>sendq\<close> is the outcome of a \<open>msgsnd\<close> and
  \<open>rmid\<close> that of \<open>msgctl(\<dots>, IPC_RMID, \<dots>)\<close> over a type \<open>'w\<close> of system states; every call is
  also recorded in the log of the server's state.
\<close>

section \<open>Messages and state\<close>

type_synonym c_int = "32 word"   \<comment> \<open>an \<open>int\<close> or \<open>pid_t\<close>\<close>

record clientMsg =
  mtype :: int
  msg_pid :: c_int
  mtext :: "8 word list"

record client =
  cpid :: c_int
  msgid :: c_int

definition LOGIN_MSG :: int where "LOGIN_MSG = 1"
definition LOGOUT_MSG :: int where "LOGOUT_MSG = 2"
definition TEXT_MSG :: int where "TEXT_MSG = 3"
definition MAX_TEXT_LEN :: nat where "MAX_TEXT_LEN = 512"
definition CLI_LEN :: nat where "CLI_LEN = 4 + MAX_TEXT_LEN"

datatype send_outcome = Sent | Interrupted | Failed

datatype server_event =
    Alarm nat
  | Msgsnd c_int nat          \<comment> \<open>queue and message length\<close>
  | Rmid c_int
  | Warn_close c_int          \<comment> \<open>the warning on standard error, with the client's process id\<close>

record 'w server =
  clients :: "client store"
  header :: addr
  world :: 'w
  log :: "server_event list"

type_synonym 'w sender = "'w \<Rightarrow> c_int \<Rightarrow> clientMsg \<Rightarrow> nat \<Rightarrow> 'w \<times> send_outcome"
type_synonym 'w remover = "'w \<Rightarrow> c_int \<Rightarrow> 'w \<times> bool"

definition emit :: "server_event list \<Rightarrow> 'w server \<Rightarrow> 'w server" where
  "emit evs sv = sv\<lparr>log := log sv @ evs\<rparr>"

text \<open>\<open>*(int * )msg.mtext\<close>.\<close>

definition text_int :: "8 word list \<Rightarrow> c_int" where
  "text_int bs = of_le_bytes (take 4 bs)"

section \<open>The three requests\<close>

text \<open>A log-in that is too short for the number of a queue leaves the bytes that are read for it as they were.\<close>

definition login :: "clientMsg \<Rightarrow> 'w server \<Rightarrow> 'w server result" where
  "login msg sv =
     (case malloc_node (clients sv) (Some \<lparr>cpid = msg_pid msg, msgid = text_int (mtext msg)\<rparr>) of
        None \<Rightarrow> Inl (stop_with ''malloc'')
      | Some (tmp, s1) \<Rightarrow> if length (mtext msg) < 4 then Inl (Undefined Uninitialised)
          else rbind (link_after s1 (header sv) tmp) (\<lambda>s2. Inr (sv\<lparr>clients := s2\<rparr>)))"

partial_function (option) logout_loop :: "c_int \<Rightarrow> client store \<Rightarrow> addr \<Rightarrow> client store result option"
where
  "logout_loop pid s p =
     (case get_next s p of Inl e \<Rightarrow> Some (Inl e)
      | Inr n \<Rightarrow>
          if n = NULL then Some (Inr s)
          else case get_payload s n of Inl e \<Rightarrow> Some (Inl e)
          | Inr c \<Rightarrow> if cpid c = pid then Some (unlink_after s p) else logout_loop pid s n)"

definition logout :: "c_int \<Rightarrow> 'w server \<Rightarrow> 'w server result option" where
  "logout pid sv = map_option (\<lambda>r. rbind r (\<lambda>s. Inr (sv\<lparr>clients := s\<rparr>)))
     (logout_loop pid (clients sv) (header sv))"

text \<open>One pass over the clients.  An interrupted \<open>msgsnd\<close> (the two-second alarm went off) removes the
  client and its queue and leaves \<open>p\<close> where it is; any other failure ends the server.\<close>

partial_function (option) broadcast ::
    "'w sender \<Rightarrow> 'w remover \<Rightarrow> clientMsg \<Rightarrow> nat \<Rightarrow> 'w server \<Rightarrow> addr \<Rightarrow> 'w server result option"
where
  "broadcast sendq rmid msg len sv p =
     (case get_next (clients sv) p of Inl e \<Rightarrow> Some (Inl e)
      | Inr n \<Rightarrow>
          if n = NULL then Some (Inr sv)
          else case get_payload (clients sv) n of Inl e \<Rightarrow> Some (Inl e)
          | Inr c \<Rightarrow>
             (case sendq (world sv) (msgid c) msg len of
                (w, Failed) \<Rightarrow> Some (Inl (stop_with ''msgsnd''))
              | (w, Interrupted) \<Rightarrow>
                  (case unlink_after (clients sv) p of Inl e \<Rightarrow> Some (Inl e)
                   | Inr s \<Rightarrow>
                       (case rmid w (msgid c) of (w', removed) \<Rightarrow>
                          broadcast sendq rmid msg len
                            (emit ([Alarm 2, Msgsnd (msgid c) len, Rmid (msgid c)]
                                   @ (if removed then [] else [Warn_close (cpid c)]))
                              (sv\<lparr>clients := s, world := w'\<rparr>)) p))
              | (w, Sent) \<Rightarrow>
                  broadcast sendq rmid msg len
                    (emit [Alarm 2, Msgsnd (msgid c) len, Alarm 0] (sv\<lparr>world := w\<rparr>)) n))"

datatype received = Receive_error bool    \<comment> \<open>whether \<open>errno\<close> is \<open>EINTR\<close>\<close>
  | Received clientMsg nat

text \<open>One iteration of the server's loop, from the outcome of \<open>msgrcv\<close>.\<close>

definition server_step ::
    "'w sender \<Rightarrow> 'w remover \<Rightarrow> received \<Rightarrow> 'w server \<Rightarrow> 'w server result option" where
  "server_step sendq rmid rcv sv = (case rcv of
     Receive_error intr \<Rightarrow> Some (if intr then Inr sv else Inl (stop_with ''msgrcv''))
   | Received msg len \<Rightarrow>
       if mtype msg = LOGIN_MSG then Some (login msg sv)
       else if mtype msg = LOGOUT_MSG then logout (msg_pid msg) sv
       else if mtype msg = TEXT_MSG then broadcast sendq rmid msg len sv (header sv)
       else Some (Inr sv))"

section \<open>The list of clients\<close>

definition server_holds :: "'w server \<Rightarrow> client list \<Rightarrow> bool" where
  "server_holds sv xs \<longleftrightarrow> (\<exists>y L. headed (clients sv) (header sv) y L \<and> map prod.snd L = xs)"

text \<open>The state in which the loop of \<open>main\<close> starts: a header that was allocated but for its link not
  initialised, and memory for \<open>q\<close> more nodes.\<close>

definition server_init :: "'w \<Rightarrow> nat \<Rightarrow> 'w server" where
  "server_init w q = \<lparr>clients = \<lparr>cells = [1 \<mapsto> Node None NULL], fresh = 2, quota = q\<rparr>, header = 1,
     world = w, log = []\<rparr>"

lemma server_init_holds: "server_holds (server_init w q) []"
  by (simp add: server_holds_def server_init_def headed_def store_ok_def)

lemma logout_loop_correct:
  assumes "headed s h y (L @ M)"
  shows "\<exists>s' M'. logout_loop pid s (before h L) = Some (Inr s') \<and> headed s' h y (L @ M') \<and>
    map prod.snd M' = remove_first cpid pid (map prod.snd M) \<and> quota s' = quota s"
  using assms
proof (induction M arbitrary: L)
  case Nil
  then show ?case using headed_next_last[of s h y L]
    by (subst logout_loop.simps) auto
next
  case (Cons e M)
  obtain a x where e: "e = (a, x)" by fastforce
  note nx = headed_next[OF Cons.prems[unfolded e]]
  show ?case
  proof (cases "cpid x = pid")
    case True
    obtain s' where "unlink_after s (before h L) = Inr s'" "headed s' h y (L @ M)" "quota s' = quota s"
      using unlink_after_headed[OF Cons.prems[unfolded e]] by blast
    then show ?thesis using nx True e by (subst logout_loop.simps) auto
  next
    case False
    have "logout_loop pid s (before h L) = logout_loop pid s a"
      using nx False by (subst logout_loop.simps) simp
    moreover obtain s' M' where "logout_loop pid s a = Some (Inr s')"
      "headed s' h y ((L @ [e]) @ M')" "quota s' = quota s"
      "map prod.snd M' = remove_first cpid pid (map prod.snd M)"
      using Cons.IH[of "L @ [e]"] Cons.prems e by auto
    ultimately show ?thesis using False e by (intro exI[of _ s'] exI[of _ "e # M'"]) auto
  qed
qed

lemma logout_holds:
  assumes "server_holds sv xs"
  shows "\<exists>sv'. logout pid sv = Some (Inr sv') \<and> server_holds sv' (remove_first cpid pid xs) \<and>
    quota (clients sv') = quota (clients sv) \<and> world sv' = world sv \<and> log sv' = log sv"
proof -
  obtain y L where L: "headed (clients sv) (header sv) y ([] @ L)" "map prod.snd L = xs"
    using assms by (auto simp: server_holds_def)
  from logout_loop_correct[OF L(1), of pid] obtain s' M' where
    "logout_loop pid (clients sv) (header sv) = Some (Inr s')" "headed s' (header sv) y M'"
    "map prod.snd M' = remove_first cpid pid xs" "quota s' = quota (clients sv)"
    using L(2) by auto
  then show ?thesis by (auto simp: logout_def server_holds_def)
qed

text \<open>The login request that the client program builds.\<close>

definition login_request :: "client \<Rightarrow> clientMsg" where
  "login_request c = \<lparr>mtype = LOGIN_MSG, msg_pid = cpid c, mtext = le_bytes (msgid c)\<rparr>"

lemma length_login_request [simp]: "length (mtext (login_request c)) = 4"
  by (simp add: login_request_def)

lemma login_holds:
  assumes "server_holds sv xs" and "0 < quota (clients sv)" and "4 \<le> length (mtext msg)"
  shows "\<exists>sv'. login msg sv = Inr sv' \<and>
    server_holds sv' (\<lparr>cpid = msg_pid msg, msgid = text_int (mtext msg)\<rparr> # xs) \<and>
    quota (clients sv') = quota (clients sv) - 1 \<and> world sv' = world sv \<and> log sv' = log sv"
proof -
  obtain y L where L: "headed (clients sv) (header sv) y ([] @ L)" "map prod.snd L = xs"
    using assms by (auto simp: server_holds_def)
  let ?c = "\<lparr>cpid = msg_pid msg, msgid = text_int (mtext msg)\<rparr>"
  obtain s1 s' where s: "malloc_node (clients sv) (Some ?c) = Some (fresh (clients sv), s1)"
    "link_after s1 (header sv) (fresh (clients sv)) = Inr s'" "quota s' = quota (clients sv) - 1"
    "headed s' (header sv) y ((fresh (clients sv), ?c) # L)"
    using link_after_headed[OF L(1) assms(2), of ?c] by auto
  then have "login msg sv = Inr (sv\<lparr>clients := s'\<rparr>)" using assms(3) by (simp add: login_def)
  moreover have "server_holds (sv\<lparr>clients := s'\<rparr>) (?c # xs)"
    using s(4) L(2) unfolding server_holds_def
    by (intro exI[of _ y] exI[of _ "(fresh (clients sv), ?c) # L"]) simp
  ultimately show ?thesis using s(3) by simp
qed

interpretation talk: headed_table cpid "\<lambda>sv c. login (login_request c) sv" "\<lambda>sv k. logout k sv"
  "\<lambda>sv. quota (clients sv)" server_holds
proof
  fix sv :: "'w server" and xs c
  assume "server_holds sv xs" "0 < quota (clients sv)"
  from login_holds[OF this, of "login_request c"]
  moreover have "\<lparr>cpid = msg_pid (login_request c), msgid = text_int (mtext (login_request c))\<rparr> = c"
    by (simp add: login_request_def text_int_def)
  ultimately show "\<exists>s'. login (login_request c) sv = Inr s' \<and> server_holds s' (c # xs) \<and>
      quota (clients s') = quota (clients sv) - 1"
    by auto
next
  fix sv :: "'w server" and xs k
  assume "server_holds sv xs"
  from logout_holds[OF this, of k]
  show "\<exists>s'. logout k sv = Some (Inr s') \<and> server_holds s' (remove_first cpid k xs) \<and>
      quota (clients s') = quota (clients sv)"
    by auto
qed



section \<open>Passing on a line\<close>

text \<open>What \<open>broadcast\<close> does, on the list of clients: the system state after it, the clients that stay,
  and the calls made; \<open>None\<close> where a \<open>msgsnd\<close> fails for another reason than the alarm.\<close>

fun bcast_spec :: "'w sender \<Rightarrow> 'w remover \<Rightarrow> clientMsg \<Rightarrow> nat \<Rightarrow> 'w \<Rightarrow> client list
    \<Rightarrow> ('w \<times> client list \<times> server_event list) option" where
  "bcast_spec sendq rmid msg len w [] = Some (w, [], [])"
| "bcast_spec sendq rmid msg len w (c # cs) =
     (case sendq w (msgid c) msg len of
        (w1, Failed) \<Rightarrow> None
      | (w1, Interrupted) \<Rightarrow>
          (case rmid w1 (msgid c) of (w2, removed) \<Rightarrow>
             map_option (\<lambda>(w3, kept, evs). (w3, kept,
                 [Alarm 2, Msgsnd (msgid c) len, Rmid (msgid c)]
                 @ (if removed then [] else [Warn_close (cpid c)]) @ evs))
               (bcast_spec sendq rmid msg len w2 cs))
      | (w1, Sent) \<Rightarrow>
          map_option (\<lambda>(w3, kept, evs). (w3, c # kept,
              [Alarm 2, Msgsnd (msgid c) len, Alarm 0] @ evs))
            (bcast_spec sendq rmid msg len w1 cs))"

lemma broadcast_refines:
  assumes "headed (clients sv) (header sv) y (L @ M)"
  shows "case bcast_spec sendq rmid msg len (world sv) (map prod.snd M) of
      None \<Rightarrow> broadcast sendq rmid msg len sv (before (header sv) L) = Some (Inl (stop_with ''msgsnd''))
    | Some (w, kept, evs) \<Rightarrow> \<exists>sv' M'.
        broadcast sendq rmid msg len sv (before (header sv) L) = Some (Inr sv') \<and>
        headed (clients sv') (header sv) y (L @ M') \<and> map prod.snd M' = kept \<and>
        header sv' = header sv \<and> world sv' = w \<and> log sv' = log sv @ evs"
  using assms
proof (induction M arbitrary: L sv)
  case Nil
  then show ?case using headed_next_last[of "clients sv" "header sv" y L]
    by (subst broadcast.simps) (auto intro: exI[of _ "[]"])
next
  case (Cons e M)
  obtain a x where e: "e = (a, x)" by fastforce
  note nx = headed_next[OF Cons.prems[unfolded e]]
  let ?b = "broadcast sendq rmid msg len sv (before (header sv) L)"
  obtain w1 out where out: "sendq (world sv) (msgid x) msg len = (w1, out)" by fastforce
  show ?case
  proof (cases out)
    case Failed
    then show ?thesis using nx out e by (subst broadcast.simps) simp
  next
    case Sent
    let ?sv = "emit [Alarm 2, Msgsnd (msgid x) len, Alarm 0] (sv\<lparr>world := w1\<rparr>)"
    have "?b = broadcast sendq rmid msg len ?sv (before (header ?sv) (L @ [e]))"
      using nx out Sent e by (subst broadcast.simps) (simp add: emit_def)
    moreover have "headed (clients ?sv) (header ?sv) y ((L @ [e]) @ M)"
      using Cons.prems by (simp add: emit_def)
    from Cons.IH[OF this] have "case bcast_spec sendq rmid msg len w1 (map prod.snd M) of
        None \<Rightarrow> broadcast sendq rmid msg len ?sv (before (header ?sv) (L @ [e]))
          = Some (Inl (stop_with ''msgsnd''))
      | Some (w, kept, evs) \<Rightarrow> \<exists>sv' M'.
          broadcast sendq rmid msg len ?sv (before (header ?sv) (L @ [e])) = Some (Inr sv') \<and>
          headed (clients sv') (header ?sv) y ((L @ [e]) @ M') \<and> map prod.snd M' = kept \<and>
          header sv' = header ?sv \<and> world sv' = w \<and> log sv' = log ?sv @ evs"
      by (simp add: emit_def)
    ultimately show ?thesis using out Sent e
      by (auto simp: emit_def split: option.splits prod.splits) (metis (no_types) list.simps(9) snd_conv)
  next
    case Interrupted
    obtain w2 removed where rm: "rmid w1 (msgid x) = (w2, removed)" by fastforce
    obtain s where s: "unlink_after (clients sv) (before (header sv) L) = Inr s"
      "headed s (header sv) y (L @ M)"
      using unlink_after_headed[OF Cons.prems[unfolded e]] by blast
    let ?evs = "[Alarm 2, Msgsnd (msgid x) len, Rmid (msgid x)]
      @ (if removed then [] else [Warn_close (cpid x)])"
    let ?sv = "emit ?evs (sv\<lparr>clients := s, world := w2\<rparr>)"
    have "?b = broadcast sendq rmid msg len ?sv (before (header ?sv) L)"
      using nx out Interrupted rm s(1) e by (subst broadcast.simps) (simp add: emit_def)
    moreover have "headed (clients ?sv) (header ?sv) y (L @ M)"
      using s(2) by (simp add: emit_def)
    note Cons.IH[OF this]
    ultimately show ?thesis using out Interrupted rm e
      by (auto simp: emit_def split: option.splits prod.splits)
  qed
qed

lemma text_refines_step:
  assumes "server_holds sv xs" and "mtype msg = TEXT_MSG"
  shows "case bcast_spec sendq rmid msg len (world sv) xs of
      None \<Rightarrow> server_step sendq rmid (Received msg len) sv = Some (Inl (stop_with ''msgsnd''))
    | Some (w, kept, evs) \<Rightarrow> \<exists>sv'.
        server_step sendq rmid (Received msg len) sv = Some (Inr sv') \<and> server_holds sv' kept \<and>
        world sv' = w \<and> log sv' = log sv @ evs"
proof -
  obtain y L where L: "headed (clients sv) (header sv) y ([] @ L)" "map prod.snd L = xs"
    using assms by (auto simp: server_holds_def)
  have "server_step sendq rmid (Received msg len) sv = broadcast sendq rmid msg len sv (header sv)"
    using assms(2) by (simp add: server_step_def LOGIN_MSG_def LOGOUT_MSG_def TEXT_MSG_def)
  then show ?thesis
    using broadcast_refines[OF L(1), of sendq rmid msg len] L(2)
    by (fastforce simp: server_holds_def split: option.splits)
qed

text \<open>C3: a text message makes the server do to its heap and to the queues exactly what \<open>bcast_spec\<close>
  does to the list of clients: the pass ends, touches no freed node although it unlinks clients
  while it walks, and stops the server only where a \<open>msgsnd\<close> fails for another reason than the
  alarm.\<close>

theorem text_refines:
  assumes "server_holds sv xs" and "mtype msg = TEXT_MSG"
  shows "case bcast_spec sendq rmid msg len (world sv) xs of
      None \<Rightarrow> server_step sendq rmid (Received msg len) sv = Some (Inl (stop_with ''msgsnd''))
    | Some (w, kept, evs) \<Rightarrow> \<exists>sv'.
        server_step sendq rmid (Received msg len) sv = Some (Inr sv') \<and> server_holds sv' kept \<and>
        world sv' = w \<and> log sv' = log sv @ evs"
  using assms by (rule text_refines_step)

fun sends_of :: "server_event list \<Rightarrow> c_int list" where
  "sends_of [] = []"
| "sends_of (Msgsnd q n # evs) = q # sends_of evs"
| "sends_of (e # evs) = sends_of evs"

fun removals_of :: "server_event list \<Rightarrow> c_int list" where
  "removals_of [] = []"
| "removals_of (Rmid q # evs) = q # removals_of evs"
| "removals_of (e # evs) = removals_of evs"

lemma bcast_spec_once:
  "bcast_spec sendq rmid msg len w xs = Some (w', kept, evs) \<Longrightarrow>
   sends_of evs = map msgid xs \<and> subseq kept xs \<and>
   mset (removals_of evs) + mset (map msgid kept) = mset (map msgid xs)"
proof (induction xs arbitrary: w w' kept evs)
  case (Cons c cs)
  obtain w1 out where out: "sendq w (msgid c) msg len = (w1, out)" by fastforce
  show ?case
  proof (cases out)
    case Failed
    then show ?thesis using Cons.prems out by simp
  next
    case Sent
    then show ?thesis using Cons.prems out Cons.IH[of w1] by fastforce
  next
    case Interrupted
    obtain w2 removed where "rmid w1 (msgid c) = (w2, removed)" by fastforce
    then show ?thesis using Cons.prems out Interrupted Cons.IH[of w2] by fastforce
  qed
qed simp

text \<open>C4: in a pass that ends, the line is sent exactly once to the queue of every client that was
  logged in when it started, in the order of the list and whatever clients are removed on the way;
  the clients that stay are among them in the same order, and exactly the queues of the others are
  removed.\<close>

theorem text_delivered_once:
  assumes "server_holds sv xs" and "mtype msg = TEXT_MSG"
    and "server_step sendq rmid (Received msg len) sv = Some (Inr sv')"
  shows "\<exists>kept evs. server_holds sv' kept \<and> log sv' = log sv @ evs \<and> sends_of evs = map msgid xs \<and>
    subseq kept xs \<and> mset (removals_of evs) + mset (map msgid kept) = mset (map msgid xs)"
proof -
  obtain w kept evs where spec: "bcast_spec sendq rmid msg len (world sv) xs = Some (w, kept, evs)"
    and "server_holds sv' kept" "log sv' = log sv @ evs"
    using text_refines_step[OF assms(1,2), of sendq rmid len] assms(3)
    by (auto split: option.splits)
  then show ?thesis using bcast_spec_once[OF spec] by blast
qed

text \<open>A server with two clients whose first queue is full, for the witnesses.\<close>

definition two_clients :: "client list" where
  "two_clients = [\<lparr>cpid = 7, msgid = 100\<rparr>, \<lparr>cpid = 8, msgid = 200\<rparr>]"

definition demo_server :: "unit server" where
  "demo_server = \<lparr>clients = \<lparr>cells = [1 \<mapsto> Node None 2, 2 \<mapsto> Node (Some \<lparr>cpid = 7, msgid = 100\<rparr>) 3,
       3 \<mapsto> Node (Some \<lparr>cpid = 8, msgid = 200\<rparr>) NULL], fresh = 4, quota = 0\<rparr>, header = 1,
     world = (), log = []\<rparr>"

definition demo_send :: "unit sender" where
  "demo_send w q msg len = (w, if q = 100 then Interrupted else Sent)"

lemma demo_server_holds: "server_holds demo_server two_clients"
  unfolding server_holds_def demo_server_def two_clients_def
  by (intro exI[of _ None] exI[of _ "[(2, \<lparr>cpid = 7, msgid = 100\<rparr>), (3, \<lparr>cpid = 8, msgid = 200\<rparr>)]"])
     (auto simp: headed_def store_ok_def)

theorem text_refines_witness:
  "\<exists>sv'. server_step demo_send (\<lambda>w q. (w, True))
       (Received \<lparr>mtype = TEXT_MSG, msg_pid = 8, mtext = []\<rparr> 516) demo_server = Some (Inr sv') \<and>
     server_holds sv' [\<lparr>cpid = 8, msgid = 200\<rparr>] \<and>
     log sv' = [Alarm 2, Msgsnd 100 516, Rmid 100, Alarm 2, Msgsnd 200 516, Alarm 0]"
  using text_refines[OF demo_server_holds, of "\<lparr>mtype = TEXT_MSG, msg_pid = 8, mtext = []\<rparr>"
      demo_send "\<lambda>w q. (w, True)" 516]
  by (simp add: two_clients_def demo_send_def demo_server_def)

theorem text_delivered_once_witness:
  "\<exists>(sv' :: unit server) kept evs. server_holds sv' kept \<and> log sv' = log demo_server @ evs \<and>
     sends_of evs = map msgid two_clients \<and> subseq kept two_clients \<and>
     mset (removals_of evs) + mset (map msgid kept) = mset (map msgid two_clients)"
proof -
  let ?m = "\<lparr>mtype = TEXT_MSG, msg_pid = 8, mtext = []\<rparr>"
  obtain sv' where "server_step demo_send (\<lambda>w q. (w, True)) (Received ?m 516) demo_server
      = Some (Inr sv')"
    using text_refines_step[OF demo_server_holds, of ?m demo_send "\<lambda>w q. (w, True)" 516]
    by (auto simp: two_clients_def demo_send_def demo_server_def)
  note r = text_delivered_once[OF demo_server_holds _ this]
  show ?thesis by (rule exI[of _ sv'], rule r) simp
qed

section \<open>Starting and stopping\<close>

text \<open>The calls of \<open>main\<close> before its loop, in their order.  What is left behind when one of them fails
  depends on which exit handlers were registered by then.\<close>

datatype startup_call = Open_excl | Atexit_file | Msgget | Atexit_msq | Write_id | Close_fd
  | Sigaction_term | Sigaction_int | Sigaction_alrm | Malloc_header

record startup =
  file_exists :: bool
  queue_exists :: bool
  at_file :: bool      \<comment> \<open>\<open>clear_file\<close> is registered\<close>
  at_msq :: bool       \<comment> \<open>\<open>clear_msq\<close> is registered\<close>

definition startup_calls :: "startup_call list" where
  "startup_calls = [Open_excl, Atexit_file, Msgget, Atexit_msq, Write_id, Close_fd,
     Sigaction_term, Sigaction_int, Sigaction_alrm, Malloc_header]"

fun startup_text :: "startup_call \<Rightarrow> string" where
  "startup_text Open_excl = ''open''"
| "startup_text Atexit_file = ''atexit - file''"
| "startup_text Msgget = ''msgget''"
| "startup_text Atexit_msq = ''atexit - msq''"
| "startup_text Write_id = ''write''"
| "startup_text Close_fd = ''close''"
| "startup_text Sigaction_term = ''sigaction - SIGTERM''"
| "startup_text Sigaction_int = ''sigaction - SIGINT''"
| "startup_text Sigaction_alrm = ''sigaction - SIGALRM''"
| "startup_text Malloc_header = ''malloc''"

fun startup_effect :: "startup_call \<Rightarrow> startup \<Rightarrow> startup" where
  "startup_effect Open_excl st = st\<lparr>file_exists := True\<rparr>"
| "startup_effect Atexit_file st = st\<lparr>at_file := True\<rparr>"
| "startup_effect Msgget st = st\<lparr>queue_exists := True\<rparr>"
| "startup_effect Atexit_msq st = st\<lparr>at_msq := True\<rparr>"
| "startup_effect c st = st"

definition clear_file :: "startup \<Rightarrow> startup" where
  "clear_file st = st\<lparr>file_exists := False\<rparr>"

definition clear_msq :: "startup \<Rightarrow> startup" where
  "clear_msq st = st\<lparr>queue_exists := False\<rparr>"

text \<open>\<open>exit\<close> runs the registered handlers, the last one first.\<close>

definition run_exit_handlers :: "startup \<Rightarrow> startup" where
  "run_exit_handlers st = (let st = (if at_msq st then clear_msq st else st)
     in if at_file st then clear_file st else st)"

fun startup_run :: "(startup_call \<Rightarrow> bool) \<Rightarrow> startup_call list \<Rightarrow> startup \<Rightarrow> (stop \<times> startup) + startup"
where
  "startup_run ok [] st = Inr st"
| "startup_run ok (c # cs) st =
     (if ok c then startup_run ok cs (startup_effect c st)
      else Inl (stop_with (startup_text c), run_exit_handlers st))"

text \<open>Whichever call of the start-up fails, the server leaves neither the well-known file nor its
  message queue behind, except where the failing call is the registration of the handler for it.\<close>

lemma startup_leaves_nothing:
  "case startup_run ok startup_calls \<lparr>file_exists = False, queue_exists = False, at_file = False,
       at_msq = False\<rparr> of
     Inl (e, st) \<Rightarrow> (file_exists st \<longrightarrow> e = stop_with ''atexit - file'') \<and>
       (queue_exists st \<longrightarrow> e = stop_with ''atexit - msq'')
   | Inr st \<Rightarrow> file_exists st \<and> queue_exists st \<and> at_file st \<and> at_msq st"
  by (simp add: startup_calls_def run_exit_handlers_def clear_file_def clear_msq_def stop_with_def)

text \<open>The signal handler: for every signal but \<open>SIGALRM\<close> it removes the queue and the file, restores
  the default action, and then raises the signal again.\<close>

datatype handler_call = H_rmid | H_unlink | H_default int | H_raise int | H_unblock int

definition SIGALRM :: int where "SIGALRM = 14"

definition server_handler :: "int \<Rightarrow> handler_call list" where
  "server_handler sig = (if sig = SIGALRM then []
     else [H_rmid, H_unlink, H_default sig, H_raise sig, H_unblock sig])"

end
