(* ===== verification/Popen.thy ===== *)
theory Popen
  imports Linked_Heap
begin

text \<open>
  \<open>44-2-my_popen_pclose.c\<close>: a \<open>popen\<close> and \<open>pclose\<close> that remember the running children in a headed
  list of nodes.  The header is allocated by the first call.  The outcomes of \<open>pipe\<close>, \<open>fork\<close>,
  \<open>fdopen\<close> and \<open>waitpid\<close> are arguments; the calls made are recorded in the state's trace.
\<close>

section \<open>State\<close>

record p_node =
  pfile :: nat     \<comment> \<open>a \<open>FILE *\<close>; 0 is the null pointer\<close>
  ppid :: int

datatype popen_event =
    Fclose nat | Close int | Dup2 int int | System string | Fdopen int string | Waitpid int

record popen_state =
  nodes :: "p_node store"
  p_header :: addr
  trace :: "popen_event list"

definition traced :: "popen_event list \<Rightarrow> popen_state \<Rightarrow> popen_state" where
  "traced evs st = st\<lparr>trace := trace st @ evs\<rparr>"

definition calloced :: p_node where "calloced = \<lparr>pfile = 0, ppid = 0\<rparr>"

section \<open>The two functions\<close>

text \<open>The child closes the streams of the other children and frees their nodes.\<close>

partial_function (option) close_all :: "addr \<Rightarrow> popen_state \<Rightarrow> popen_state result option" where
  "close_all p st =
     (if p = NULL then Some (Inr st)
      else case get_payload (nodes st) p of Inl e \<Rightarrow> Some (Inl e)
      | Inr c \<Rightarrow>
        if pfile c = 0 then Some (Inl (Undefined NullDeref))
        else case get_next (nodes st) p of Inl e \<Rightarrow> Some (Inl e)
        | Inr n \<Rightarrow>
          (case free_node (nodes st) p of Inl e \<Rightarrow> Some (Inl e)
           | Inr s \<Rightarrow> close_all n (traced [Fclose (pfile c)] (st\<lparr>nodes := s\<rparr>))))"

text \<open>The branch \<open>default\<close> of the switch.\<close>

definition popen_default ::
    "int \<times> int \<Rightarrow> int \<Rightarrow> nat \<Rightarrow> bool \<Rightarrow> popen_state \<Rightarrow> (nat \<times> popen_state) result" where
  "popen_default pfd child fp isRead st =
     (case malloc_node (nodes st) (Some \<lparr>pfile = fp, ppid = child\<rparr>) of
        None \<Rightarrow> Inl (Undefined NullDeref)
      | Some (tmp, s1) \<Rightarrow>
          rbind (link_after s1 (p_header st) tmp) (\<lambda>s2.
            Inr (fp, traced (if isRead then [Close (prod.snd pfd), Fdopen (fst pfd) ''r'']
                             else [Close (fst pfd), Fdopen (prod.snd pfd) ''w''])
                      (st\<lparr>nodes := s2\<rparr>))))"

definition redirect :: "int \<times> int \<Rightarrow> bool \<Rightarrow> popen_event list" where
  "redirect pfd isRead =
     (if isRead then [Close (fst pfd), Dup2 (prod.snd pfd) 1, Close (prod.snd pfd)]
      else [Close (prod.snd pfd), Dup2 (fst pfd) 0, Close (fst pfd)])"

definition ensure_header :: "popen_state \<Rightarrow> popen_state" where
  "ensure_header st = (if p_header st = NULL
     then case malloc_node (nodes st) (Some calloced) of None \<Rightarrow> st
          | Some (h, s) \<Rightarrow> st\<lparr>nodes := s, p_header := h\<rparr>
     else st)"

text \<open>The branch of the child has no \<open>break\<close> and no \<open>_exit\<close>: after \<open>system\<close> it goes on with \<open>default\<close>.\<close>

definition popen ::
    "(int \<times> int) option \<Rightarrow> int \<Rightarrow> nat \<Rightarrow> string \<Rightarrow> string \<Rightarrow> popen_state
     \<Rightarrow> (nat \<times> popen_state) result option" where
  "popen piped forked fp command ptype st0 =
     (let st = ensure_header st0 in
      if ptype \<noteq> ''r'' \<and> ptype \<noteq> ''w'' then Some (Inr (0, st))
      else let isRead = (ptype = ''r'') in
      case piped of None \<Rightarrow> Some (Inr (0, st))
      | Some pfd \<Rightarrow>
        if forked = -1 then Some (Inr (0, st))
        else if forked = 0 then
          (case get_next (nodes st) (p_header st) of Inl e \<Rightarrow> Some (Inl e)
           | Inr p \<Rightarrow>
             (case close_all p st of None \<Rightarrow> None
              | Some (Inl e) \<Rightarrow> Some (Inl e)
              | Some (Inr st1) \<Rightarrow>
                  Some (popen_default pfd forked fp isRead
                    (traced (redirect pfd isRead @ [System command]) st1))))
        else Some (popen_default pfd forked fp isRead st))"

partial_function (option) find_stream :: "p_node store \<Rightarrow> nat \<Rightarrow> addr \<Rightarrow> addr result option" where
  "find_stream s stream p =
     (case get_next s p of Inl e \<Rightarrow> Some (Inl e)
      | Inr n \<Rightarrow>
          if n = NULL then Some (Inr p)
          else case get_payload s n of Inl e \<Rightarrow> Some (Inl e)
          | Inr c \<Rightarrow> if pfile c = stream then Some (Inr p) else find_stream s stream n)"

definition pclose :: "(int \<Rightarrow> int option) \<Rightarrow> nat \<Rightarrow> popen_state \<Rightarrow> (int \<times> popen_state) result option" where
  "pclose waitpid stream st = map_option (\<lambda>found.
     rbind found (\<lambda>p. rbind (get_next (nodes st) p) (\<lambda>n.
       if n = NULL then Inr (-1, st)
       else if stream = 0 then Inl (Undefined NullDeref)
       else rbind (get_payload (nodes st) p) (\<lambda>c. rbind (unlink_after (nodes st) p) (\<lambda>s.
         Inr (case waitpid (ppid c) of None \<Rightarrow> -1 | Some status \<Rightarrow> status,
              traced [Fclose stream, Waitpid (ppid c)] (st\<lparr>nodes := s\<rparr>)))))))
     (find_stream (nodes st) stream (p_header st))"

section \<open>The table of children\<close>

definition open_children :: "popen_state \<Rightarrow> p_node list \<Rightarrow> bool" where
  "open_children st xs \<longleftrightarrow> (\<exists>L. headed (nodes st) (p_header st) (Some calloced) L \<and>
     map prod.snd L = xs)"

lemma find_stream_at:
  assumes "headed s h y (L @ M)"
  shows "\<exists>L' M'. find_stream s stream (before h L) = Some (Inr (before h (L @ L'))) \<and> M = L' @ M' \<and>
    (\<forall>e\<in>set L'. pfile (prod.snd e) \<noteq> stream) \<and> (M' = [] \<or> pfile (prod.snd (hd M')) = stream)"
  using assms
proof (induction M arbitrary: L)
  case Nil
  then show ?case using headed_next_last[of s h y L]
    by (subst find_stream.simps) auto
next
  case (Cons e M)
  obtain a x where e: "e = (a, x)" by fastforce
  note nx = headed_next[OF Cons.prems[unfolded e]]
  show ?case
  proof (cases "pfile x = stream")
    case True
    then show ?thesis using nx e
      by (intro exI[of _ "[]"] exI[of _ "e # M"], subst find_stream.simps) simp
  next
    case False
    have step: "find_stream s stream (before h L) = find_stream s stream a"
      using nx False by (subst find_stream.simps) simp
    obtain L' M' where "find_stream s stream a = Some (Inr (before h ((L @ [e]) @ L')))" "M = L' @ M'"
      "\<forall>e\<in>set L'. pfile (prod.snd e) \<noteq> stream" "M' = [] \<or> pfile (prod.snd (hd M')) = stream"
      using Cons.IH[of "L @ [e]"] Cons.prems e by auto
    then show ?thesis using step False e by (intro exI[of _ "e # L'"] exI[of _ M']) auto
  qed
qed

lemma headed_payload_before:
  assumes "headed s h y (L @ M)" and "y = Some c"
  shows "get_payload s (before h L) = Inr (last (c # map prod.snd L))"
proof -
  obtain z q where cell: "cells s (before h L) = Some (Node z q)"
    and K: "(h, y) # map (apsnd Some) L = butlast ((h, y) # map (apsnd Some) L) @ [(before h L, z)]"
    using headed_before[OF assms(1)] by metis
  have ok: "store_ok s" using assms(1) by (simp add: headed_def)
  have "z = prod.snd (last ((h, y) # map (apsnd Some) L))" using K by (metis last_snoc prod.sel(2))
  also have "\<dots> = Some (last (c # map prod.snd L))"
    using assms(2) by (auto simp: last_map)
  finally show ?thesis using load_ok[OF ok cell] by (simp add: get_payload_def)
qed

text \<open>What \<open>pclose\<close> does for a stream of the table: the process it waits for is the one of the node
  \<^emph>\<open>before\<close> the stream's node, which for the first node is the header's zero.\<close>

lemma pclose_found:
  assumes "open_children st (xs @ c # ys)" and "stream \<notin> pfile ` set xs" and "pfile c = stream"
    and "stream \<noteq> 0"
  shows "\<exists>st'. pclose waitpid stream st =
      Some (Inr (case waitpid (ppid (last (calloced # xs))) of None \<Rightarrow> -1 | Some w \<Rightarrow> w, st')) \<and>
    open_children st' (xs @ ys) \<and> p_header st' = p_header st \<and> quota (nodes st') = quota (nodes st) \<and>
    trace st' = trace st @ [Fclose stream, Waitpid (ppid (last (calloced # xs)))]"
proof -
  obtain L where L: "headed (nodes st) (p_header st) (Some calloced) L" "map prod.snd L = xs @ c # ys"
    using assms(1) by (auto simp: open_children_def)
  obtain L1 a L2 where split: "L = L1 @ (a, c) # L2" "map prod.snd L1 = xs" "map prod.snd L2 = ys"
    using L(2) by (auto simp: map_eq_append_conv map_eq_Cons_conv)
  obtain L' M' where f: "find_stream (nodes st) stream (p_header st) = Some (Inr (before (p_header st) L'))"
    "L = L' @ M'" "\<forall>e\<in>set L'. pfile (prod.snd e) \<noteq> stream" "M' = [] \<or> pfile (prod.snd (hd M')) = stream"
    using find_stream_at[of "nodes st" "p_header st" "Some calloced" "[]" L stream] L(1) by auto
  have n1: "\<forall>e\<in>set L1. pfile (prod.snd e) \<noteq> stream" using assms(2) split(2) by (force simp: image_iff)
  have "L' = L1"
  proof -
    have "takeWhile (\<lambda>e. pfile (prod.snd e) \<noteq> stream) L = L'"
      unfolding f(2) using takeWhile_dropWhile_append[of L' "\<lambda>e. pfile (prod.snd e) \<noteq> stream" M'] f(3,4)
      by (auto simp: image_iff)
    moreover have "takeWhile (\<lambda>e. pfile (prod.snd e) \<noteq> stream) L = L1"
      unfolding split(1) using takeWhile_dropWhile_append[of L1 "\<lambda>e. pfile (prod.snd e) \<noteq> stream" "(a, c) # L2"]
        n1 assms(3) by (auto simp: image_iff)
    ultimately show ?thesis by simp
  qed
  note hd = L(1)[unfolded split(1)]
  note nx = headed_next[OF hd]
  have pay: "get_payload (nodes st) (before (p_header st) L1) = Inr (last (calloced # xs))"
    using headed_payload_before[OF hd refl] split(2) by simp
  obtain s' where s': "unlink_after (nodes st) (before (p_header st) L1) = Inr s'"
    "headed s' (p_header st) (Some calloced) (L1 @ L2)" "quota s' = quota (nodes st)"
    using unlink_after_headed[OF hd] by blast
  show ?thesis
    using f(1) \<open>L' = L1\<close> nx pay s' assms(4) split(2,3)
    by (auto simp: pclose_def open_children_def traced_def split: option.splits)
qed

lemma pclose_not_found:
  assumes "open_children st xs" and "stream \<notin> pfile ` set xs"
  shows "pclose waitpid stream st = Some (Inr (-1, st))"
proof -
  obtain L where L: "headed (nodes st) (p_header st) (Some calloced) L" "map prod.snd L = xs"
    using assms(1) by (auto simp: open_children_def)
  obtain L' M' where f: "find_stream (nodes st) stream (p_header st) = Some (Inr (before (p_header st) L'))"
    "L = L' @ M'" "M' = [] \<or> pfile (prod.snd (hd M')) = stream"
    using find_stream_at[of "nodes st" "p_header st" "Some calloced" "[]" L stream] L(1) by auto
  have "\<forall>e\<in>set L. pfile (prod.snd e) \<noteq> stream" using assms(2) L(2) by (force simp: image_iff)
  then have "M' = []" using f(2,3) by (cases M') auto
  then show ?thesis using f headed_next_last[OF L(1)] by (simp add: pclose_def)
qed

lemma ensure_header_id: "p_header st \<noteq> NULL \<Longrightarrow> ensure_header st = st"
  by (simp add: ensure_header_def)

lemma open_children_header: "open_children st xs \<Longrightarrow> p_header st \<noteq> NULL"
  by (auto simp: open_children_def headed_def store_ok_def)

lemma popen_default_adds:
  assumes "open_children st xs" and "0 < quota (nodes st)"
  shows "\<exists>st'. popen_default pfd child fp isRead st = Inr (fp, st') \<and>
    open_children st' (\<lparr>pfile = fp, ppid = child\<rparr> # xs) \<and> p_header st' = p_header st \<and>
    quota (nodes st') = quota (nodes st) - 1 \<and>
    trace st' = trace st @ (if isRead then [Close (prod.snd pfd), Fdopen (fst pfd) ''r'']
                            else [Close (fst pfd), Fdopen (prod.snd pfd) ''w''])"
proof -
  let ?c = "\<lparr>pfile = fp, ppid = child\<rparr>"
  obtain L where L: "headed (nodes st) (p_header st) (Some calloced) ([] @ L)" "map prod.snd L = xs"
    using assms(1) by (auto simp: open_children_def)
  obtain s1 s' where s: "malloc_node (nodes st) (Some ?c) = Some (fresh (nodes st), s1)"
    "link_after s1 (p_header st) (fresh (nodes st)) = Inr s'" "quota s' = quota (nodes st) - 1"
    "headed s' (p_header st) (Some calloced) ((fresh (nodes st), ?c) # L)"
    using link_after_headed[OF L(1) assms(2), of ?c] by auto
  then show ?thesis using L(2)
    by (auto simp: popen_default_def open_children_def traced_def
        intro!: exI[of _ "(fresh (nodes st), ?c) # L"])
qed

section \<open>Parent: popen and pclose keep a table of children\<close>

text \<open>A call of \<open>popen\<close> in the parent that gets its pipe, child and stream; the two numbers make a
  non-null stream and a positive process id.\<close>

record request =
  rq_pipe :: "int \<times> int"
  rq_read :: bool
  rq_command :: string
  rq_file :: nat
  rq_pid :: nat

definition child_of :: "request \<Rightarrow> p_node" where
  "child_of r = \<lparr>pfile = Suc (rq_file r), ppid = int (rq_pid r) + 1\<rparr>"

definition popen_request :: "popen_state \<Rightarrow> request \<Rightarrow> popen_state result" where
  "popen_request st r = rbind
     (the (popen (Some (rq_pipe r)) (ppid (child_of r)) (pfile (child_of r)) (rq_command r)
        (if rq_read r then ''r'' else ''w'') st)) (\<lambda>(_, st'). Inr st')"

definition pclose_request :: "(int \<Rightarrow> int option) \<Rightarrow> popen_state \<Rightarrow> nat \<Rightarrow> popen_state result option" where
  "pclose_request waitpid st stream =
     map_option (\<lambda>r. rbind r (\<lambda>(_, st'). Inr st')) (pclose waitpid stream st)"

definition popen_init :: "nat \<Rightarrow> popen_state" where
  "popen_init q = \<lparr>nodes = \<lparr>cells = Map.empty, fresh = 1, quota = q\<rparr>, p_header = NULL, trace = []\<rparr>"

lemma popen_request_adds:
  assumes "open_children (ensure_header st) xs" and "0 < quota (nodes (ensure_header st))"
  shows "\<exists>st'. popen_request st r = Inr st' \<and> open_children st' (child_of r # xs) \<and>
    quota (nodes st') = quota (nodes (ensure_header st)) - 1"
proof -
  obtain st' where "popen_default (rq_pipe r) (ppid (child_of r)) (pfile (child_of r)) (rq_read r)
      (ensure_header st) = Inr (pfile (child_of r), st')"
    "open_children st' (\<lparr>pfile = pfile (child_of r), ppid = ppid (child_of r)\<rparr> # xs)"
    "quota (nodes st') = quota (nodes (ensure_header st)) - 1"
    using popen_default_adds[OF assms, of "rq_pipe r" "ppid (child_of r)" "pfile (child_of r)" "rq_read r"]
    by blast
  then show ?thesis
    by (auto simp: popen_request_def popen_def Let_def child_of_def)
qed

lemma pclose_request_removes:
  assumes "open_children st (map child_of xs)"
  shows "\<exists>st'. pclose_request waitpid st k = Some (Inr st') \<and>
    open_children st' (map child_of (remove_first (pfile \<circ> child_of) k xs)) \<and>
    quota (nodes st') = quota (nodes st)"
proof (cases "k \<in> (pfile \<circ> child_of) ` set xs")
  case True
  then obtain us c vs where xs: "xs = us @ c # vs" "(pfile \<circ> child_of) c = k"
    "k \<notin> (pfile \<circ> child_of) ` set us"
    using split_list_first_prop[of xs "\<lambda>c. (pfile \<circ> child_of) c = k"] by (auto simp: image_iff) metis
  have "remove_first (pfile \<circ> child_of) k xs = us @ vs"
    unfolding xs(1) using xs(2,3) by (subst remove_first_split) simp
  moreover obtain st' n where "pclose waitpid k st = Some (Inr (n, st'))"
    "open_children st' (map child_of us @ map child_of vs)" "quota (nodes st') = quota (nodes st)"
    using pclose_found[of st "map child_of us" "child_of c" "map child_of vs" k waitpid] assms xs
    by (auto simp: child_of_def image_iff)
  ultimately show ?thesis by (auto simp: pclose_request_def)
next
  case False
  then have "k \<notin> pfile ` set (map child_of xs)" by (force simp: image_iff)
  with pclose_not_found[OF assms this, of waitpid] show ?thesis
    using False assms by (simp add: pclose_request_def remove_first_notin)
qed

interpretation children: headed_table "pfile \<circ> child_of" popen_request "pclose_request waitpid"
  "\<lambda>st. quota (nodes st)" "\<lambda>st xs. open_children st (map child_of xs)"
proof
  fix st xs r
  assume a: "open_children st (map child_of xs)" "0 < quota (nodes st)"
  then have "ensure_header st = st" using ensure_header_id open_children_header by blast
  then show "\<exists>st'. popen_request st r = Inr st' \<and> open_children st' (map child_of (r # xs)) \<and>
      quota (nodes st') = quota (nodes st) - 1"
    using popen_request_adds[of st "map child_of xs" r] a by simp
next
  fix st xs k
  assume "open_children st (map child_of xs)"
  from pclose_request_removes[OF this, of waitpid k]
  show "\<exists>st'. pclose_request waitpid st k = Some (Inr st') \<and>
      open_children st' (map child_of (remove_first (pfile \<circ> child_of) k xs)) \<and>
      quota (nodes st') = quota (nodes st)" .
qed

lemma popen_init_header:
  "open_children (ensure_header (popen_init (Suc q))) []"
  "quota (nodes (ensure_header (popen_init (Suc q)))) = q"
  by (simp_all add: ensure_header_def popen_init_def malloc_node_def open_children_def headed_def
      store_ok_def calloced_def)

text \<open>C19: from a program's first \<open>popen\<close> on, whatever calls of \<open>popen\<close> that succeed and of \<open>pclose\<close> follow
  in the parent, the list in the heap holds exactly the children opened and not yet closed, newest
  first, with no access outside it; the first call makes the header.\<close>

theorem popen_pclose_table:
  assumes "count_adds evs < q"
  shows "\<exists>st. run_table popen_request (pclose_request waitpid) (popen_init (Suc q)) (Add r # evs)
      = Some (Inr st) \<and>
    open_children st (map child_of (table_spec (pfile \<circ> child_of) [] (Add r # evs)))"
proof -
  obtain st where st: "popen_request (popen_init (Suc q)) r = Inr st"
    "open_children st (map child_of [r])" "quota (nodes st) = q - 1"
    using popen_request_adds[OF popen_init_header(1), of q r] popen_init_header(2)[of q] assms by auto
  have "count_adds evs \<le> quota (nodes st)" using st(3) assms by simp
  from children.run_table_spec[OF st(2) this, of waitpid] show ?thesis using st(1) by auto
qed

definition demo_request :: "nat \<Rightarrow> request" where
  "demo_request n = \<lparr>rq_pipe = (3, 4), rq_read = True, rq_command = ''ls'', rq_file = n, rq_pid = 10 + n\<rparr>"

theorem popen_pclose_table_witness:
  "\<exists>st. run_table popen_request (pclose_request (\<lambda>_. None)) (popen_init (Suc 5))
      [Add (demo_request 1), Add (demo_request 2), Del 2] = Some (Inr st) \<and>
    open_children st [child_of (demo_request 2)]"
  using popen_pclose_table[of "[Add (demo_request 2), Del 2]" 5 "\<lambda>_. None" "demo_request 1"]
  by (simp add: child_of_def demo_request_def)

text \<open>\<open>pclose\<close> waits for the wrong process.  For a stream of the table it closes the stream and then
  calls \<open>waitpid\<close> for the process of the node in front of it, the child opened next after it that is still
  open; for the newest child that is the header's process id 0, which means any child of the process
  group.  The status it returns is that process's.\<close>

lemma pclose_waits_predecessor:
  assumes "open_children st (xs @ c # ys)" and "stream \<notin> pfile ` set xs" and "pfile c = stream"
    and "stream \<noteq> 0"
  shows "\<exists>st'. pclose waitpid stream st =
      Some (Inr (case waitpid (if xs = [] then 0 else ppid (last xs)) of None \<Rightarrow> -1 | Some w \<Rightarrow> w, st')) \<and>
    open_children st' (xs @ ys) \<and>
    trace st' = trace st @ [Fclose stream, Waitpid (if xs = [] then 0 else ppid (last xs))]"
  using pclose_found[OF assms, of waitpid] by (auto simp: calloced_def split: if_splits)

definition demo_nodes :: popen_state where
  "demo_nodes = \<lparr>nodes = \<lparr>cells = [1 \<mapsto> Node (Some calloced) 3, 3 \<mapsto> Node (Some \<lparr>pfile = 8, ppid = 52\<rparr>) 2,
     2 \<mapsto> Node (Some \<lparr>pfile = 7, ppid = 51\<rparr>) 0], fresh = 4, quota = 9\<rparr>, p_header = 1, trace = []\<rparr>"

lemma demo_nodes_open: "open_children demo_nodes [\<lparr>pfile = 8, ppid = 52\<rparr>, \<lparr>pfile = 7, ppid = 51\<rparr>]"
  unfolding open_children_def demo_nodes_def
  by (rule exI[of _ "[(3, \<lparr>pfile = 8, ppid = 52\<rparr>), (2, \<lparr>pfile = 7, ppid = 51\<rparr>)]"])
    (auto simp: headed_def store_ok_def)

section \<open>Child: the command has run, and popen returns\<close>

lemma close_all_frees:
  assumes "seg (nodes st) p (map (apsnd Some) L) NULL" and "store_ok (nodes st)"
    and "distinct (map fst L)" and "\<forall>c\<in>set (map prod.snd L). pfile c \<noteq> 0"
  shows "\<exists>s'. close_all p st = Some (Inr (traced (map (Fclose \<circ> pfile \<circ> prod.snd) L) (st\<lparr>nodes := s'\<rparr>))) \<and>
    cells s' = cells (nodes st) |` (- set (map fst L)) \<and> fresh s' = fresh (nodes st) \<and>
    quota s' = quota (nodes st)"
  using assms
proof (induction L arbitrary: p st)
  case Nil
  then show ?case by (subst close_all.simps) (simp add: traced_def restrict_map_def, rule exI[of _ "nodes st"], simp)
next
  case (Cons e L)
  obtain a x where e: "e = (a, x)" by fastforce
  obtain n where a: "p = a" "cells (nodes st) a = Some (Node (Some x) n)"
    "seg (nodes st) n (map (apsnd Some) L) NULL" using Cons.prems(1) e by auto
  let ?s = "(nodes st)\<lparr>cells := (cells (nodes st))(a := None)\<rparr>"
  let ?st = "traced [Fclose (pfile x)] (st\<lparr>nodes := ?s\<rparr>)"
  have pos: "a \<noteq> 0" using store_ok_addr[OF Cons.prems(2) a(2)] by simp
  have step: "close_all p st = close_all n ?st"
    using a pos Cons.prems(4) e
    by (subst close_all.simps) (simp add: get_payload_def get_next_def free_node_def load_def)
  have "a \<notin> set (map fst L)" using Cons.prems(3) e by simp
  then have "\<forall>c\<in>set (map fst L). cells ?s c = cells (nodes st) c" by auto
  then have sg: "seg (nodes ?st) n (map (apsnd Some) L) NULL"
    using a(3) seg_frame_nodes[of L ?s "nodes st"] by (simp add: traced_def)
  have ok: "store_ok (nodes ?st)" using Cons.prems(2) by (auto simp: store_ok_def traced_def)
  have d: "distinct (map fst L)" and f: "\<forall>c\<in>set (map prod.snd L). pfile c \<noteq> 0"
    using Cons.prems(3,4) by auto
  have nst: "nodes ?st = ?s" by (simp add: traced_def)
  obtain s' where s': "close_all n ?st =
      Some (Inr (traced (map (Fclose \<circ> pfile \<circ> prod.snd) L) (?st\<lparr>nodes := s'\<rparr>)))"
    "cells s' = cells ?s |` (- set (map fst L))" "fresh s' = fresh ?s" "quota s' = quota ?s"
    using Cons.IH[OF sg ok d f] unfolding nst by blast
  have "cells s' = cells (nodes st) |` (- set (map fst (e # L)))"
    using s'(2) e by (auto simp: restrict_map_def fun_eq_iff)
  then show ?case using step s' e by (intro exI[of _ s']) (auto simp: traced_def)
qed

text \<open>After the child's pass over the list the header still points to the first freed node.\<close>

lemma popen_child_state:
  assumes "open_children st xs" and "\<forall>c\<in>set xs. pfile c \<noteq> 0" and "0 < quota (nodes st)"
    and "ptype = ''r'' \<or> ptype = ''w''"
  shows "\<exists>st' n. popen (Some pfd) 0 fp command ptype st = Some (Inr (fp, st')) \<and>
    trace st' = trace st @ map (Fclose \<circ> pfile) xs @ redirect pfd (ptype = ''r'') @ [System command] @
      (if ptype = ''r'' then [Close (prod.snd pfd), Fdopen (fst pfd) ''r'']
       else [Close (fst pfd), Fdopen (prod.snd pfd) ''w'']) \<and>
    get_next (nodes st') (p_header st') = Inr (fresh (nodes st)) \<and> fresh (nodes st) \<noteq> NULL \<and>
    get_payload (nodes st') (fresh (nodes st)) = Inr \<lparr>pfile = fp, ppid = 0\<rparr> \<and>
    get_next (nodes st') (fresh (nodes st)) = Inr n \<and>
    (xs \<noteq> [] \<longrightarrow> n \<noteq> NULL \<and> get_payload (nodes st') n = Inl (Undefined UseAfterFree))"
proof -
  let ?h = "p_header st" and ?a = "fresh (nodes st)"
  obtain L where L: "headed (nodes st) ?h (Some calloced) L" "map prod.snd L = xs"
    using assms(1) by (auto simp: open_children_def)
  then obtain p where p: "cells (nodes st) ?h = Some (Node (Some calloced) p)"
    "seg (nodes st) p (map (apsnd Some) L) NULL" and ok: "store_ok (nodes st)"
    and d: "distinct (?h # map fst L)"
    by (auto simp: headed_def)
  obtain s' where s': "close_all p st = Some (Inr (traced (map (Fclose \<circ> pfile \<circ> prod.snd) L) (st\<lparr>nodes := s'\<rparr>)))"
    "cells s' = cells (nodes st) |` (- set (map fst L))" "fresh s' = ?a" "quota s' = quota (nodes st)"
    using close_all_frees[OF p(2) ok] d assms(2) L(2) by auto
  have h: "?h \<noteq> 0" "?h \<noteq> ?a" using store_ok_addr[OF ok p(1)] by auto
  have a0: "?a \<noteq> 0" using ok by (simp add: store_ok_def)
  have ch: "cells s' ?h = Some (Node (Some calloced) p)" using s'(2) p(1) d by (simp add: restrict_map_def)
  let ?c = "\<lparr>pfile = fp, ppid = 0 :: int\<rparr>"
  let ?f = "s'\<lparr>cells := (cells s')(?a \<mapsto> Node (Some ?c) p, ?h \<mapsto> Node (Some calloced) ?a), fresh := Suc ?a,
    quota := quota s' - 1\<rparr>"
  have gn: "get_next (nodes st) ?h = Inr p" using load_ok[OF ok p(1)] by (simp add: get_next_def)
  have tr: "map (Fclose \<circ> pfile \<circ> prod.snd) L = map (Fclose \<circ> pfile) xs" using L(2) by auto
  have hid: "ensure_header st = st" using h by (simp add: ensure_header_def)
  have pt: "\<not> (ptype \<noteq> ''r'' \<and> ptype \<noteq> ''w'')" using assms(4) by blast
  have run: "popen (Some pfd) 0 fp command ptype st = Some (popen_default pfd 0 fp (ptype = ''r'')
      (traced (redirect pfd (ptype = ''r'') @ [System command]) (traced (map (Fclose \<circ> pfile) xs) (st\<lparr>nodes := s'\<rparr>))))"
    unfolding popen_def Let_def hid if_not_P[OF pt] using gn s'(1) tr by simp
  have def: "popen_default pfd 0 fp isRead (traced evs (traced evs' (st\<lparr>nodes := s'\<rparr>))) =
      Inr (fp, traced (if isRead then [Close (prod.snd pfd), Fdopen (fst pfd) ''r'']
                       else [Close (fst pfd), Fdopen (prod.snd pfd) ''w''])
        (traced evs (traced evs' (st\<lparr>nodes := s'\<rparr>)))\<lparr>nodes := ?f\<rparr>)" for isRead evs evs'
    using h a0 ch s'(3,4) assms(3)
    by (simp add: popen_default_def malloc_node_def link_after_def get_next_def set_next_def load_def
        traced_def fun_upd_twist)
  have nx: "get_next ?f ?h = Inr ?a" "get_payload ?f ?a = Inr ?c" "get_next ?f ?a = Inr p"
    using h a0 by (simp_all add: get_next_def get_payload_def load_def)
  have "p \<noteq> NULL \<and> get_payload ?f p = Inl (Undefined UseAfterFree)" if ne: "xs \<noteq> []"
  proof -
    obtain x M where e: "L = (p, x) # M" and cp: "cells (nodes st) p = Some (Node (Some x) (link (the (cells (nodes st) p))))"
      using p(2) ne L(2) by (cases L) auto
    have "p \<noteq> 0 \<and> p \<noteq> ?a" using store_ok_addr[OF ok cp] by simp
    moreover have "p \<noteq> ?h" using d e by auto
    moreover have "cells s' p = None" using s'(2) e by (simp add: restrict_map_def)
    ultimately show ?thesis by (simp add: get_payload_def load_def)
  qed
  moreover define E where "E = (if ptype = ''r'' then [Close (prod.snd pfd), Fdopen (fst pfd) ''r'']
       else [Close (fst pfd), Fdopen (prod.snd pfd) ''w''])"
  moreover define st' where "st' = (traced E (traced (redirect pfd (ptype = ''r'') @ [System command])
      (traced (map (Fclose \<circ> pfile) xs) (st\<lparr>nodes := s'\<rparr>))))\<lparr>nodes := ?f\<rparr>"
  moreover have "nodes st' = ?f" "p_header st' = ?h" by (simp_all add: st'_def traced_def)
  moreover have "trace st' = trace st @ map (Fclose \<circ> pfile) xs @ redirect pfd (ptype = ''r'') @ [System command] @ E"
    by (simp add: st'_def traced_def)
  moreover have "popen (Some pfd) 0 fp command ptype st = Some (Inr (fp, st'))"
    unfolding run def st'_def E_def ..
  ultimately show ?thesis using nx a0
    by (intro exI[of _ st'] exI[of _ p]) simp
qed

text \<open>In the child, \<open>popen\<close> does not end with the command.  It closes the other streams, redirects
  its standard stream, runs the command through \<open>system\<close>, and then falls into the parent's branch and
  returns a stream to the caller, so that caller's code goes on in two processes.  If other children
  were open, the next \<open>pclose\<close> of any other stream in that process reads freed memory.\<close>

lemma popen_child_returns:
  assumes "open_children st xs" and "\<forall>c\<in>set xs. pfile c \<noteq> 0" and "0 < quota (nodes st)"
    and "ptype = ''r'' \<or> ptype = ''w''"
  shows "\<exists>st'. popen (Some pfd) 0 fp command ptype st = Some (Inr (fp, st')) \<and>
    trace st' = trace st @ map (Fclose \<circ> pfile) xs @ redirect pfd (ptype = ''r'') @ [System command] @
      (if ptype = ''r'' then [Close (prod.snd pfd), Fdopen (fst pfd) ''r'']
       else [Close (fst pfd), Fdopen (prod.snd pfd) ''w'']) \<and>
    (xs \<noteq> [] \<longrightarrow> (\<forall>stream. stream \<noteq> fp \<longrightarrow>
       pclose waitpid stream st' = Some (Inl (Undefined UseAfterFree))))"
proof -
  obtain st' n where st': "popen (Some pfd) 0 fp command ptype st = Some (Inr (fp, st'))"
    "trace st' = trace st @ map (Fclose \<circ> pfile) xs @ redirect pfd (ptype = ''r'') @ [System command] @
      (if ptype = ''r'' then [Close (prod.snd pfd), Fdopen (fst pfd) ''r'']
       else [Close (fst pfd), Fdopen (prod.snd pfd) ''w''])"
    "get_next (nodes st') (p_header st') = Inr (fresh (nodes st))" "fresh (nodes st) \<noteq> NULL"
    "get_payload (nodes st') (fresh (nodes st)) = Inr \<lparr>pfile = fp, ppid = 0\<rparr>"
    "get_next (nodes st') (fresh (nodes st)) = Inr n"
    "xs \<noteq> [] \<longrightarrow> n \<noteq> NULL \<and> get_payload (nodes st') n = Inl (Undefined UseAfterFree)"
    using popen_child_state[OF assms, of pfd fp command] by metis
  have "pclose waitpid stream st' = Some (Inl (Undefined UseAfterFree))"
    if "xs \<noteq> []" "stream \<noteq> fp" for stream
  proof -
    have "find_stream (nodes st') stream (fresh (nodes st)) = Some (Inl (Undefined UseAfterFree))"
      using st'(6,7) that(1) by (subst find_stream.simps) simp
    then have "find_stream (nodes st') stream (p_header st') = Some (Inl (Undefined UseAfterFree))"
      using st'(3-5) that(2) by (subst find_stream.simps) simp
    then show ?thesis by (simp add: pclose_def)
  qed
  then show ?thesis using st'(1,2) by blast
qed

end
