(* ===== verification/File_Create.thy ===== *)
theory File_Create
  imports Linked_Heap Error_Functions "HOL-Library.Multiset"
begin

text \<open>
  \<open>14-1-file_create_test.c\<close>: create \<open>NF\<close> files with random names, remember the names in a sorted
  list in the heap, and remove the files in the order of the list.  The file system and the random
  numbers are arguments.
\<close>

section \<open>The sorted list\<close>

text \<open>A node owns its file name; \<open>None\<close> is the null pointer of the header.\<close>

type_synonym names = "string option store"

definition init :: "names \<Rightarrow> (addr \<times> names) result" where
  "init s = (case malloc_node s (Some None) of None \<Rightarrow> Inl (Undefined NullDeref) | Some r \<Rightarrow> Inr r)"

text \<open>The second \<open>malloc\<close> of a node, for its eight bytes of name, and the \<open>strcpy\<close> into them.\<close>

definition malloc_name :: "string \<Rightarrow> names \<Rightarrow> names result" where
  "malloc_name filename s =
     (if quota s = 0 then Inl (Undefined NullDeref)
      else if 8 \<le> length filename then Inl (Undefined OutOfBounds)
      else Inr (s\<lparr>quota := quota s - 1\<rparr>))"

partial_function (option) insert_loop ::
    "string \<Rightarrow> names \<Rightarrow> addr \<Rightarrow> addr \<Rightarrow> names result option" where
  "insert_loop filename s pre p =
     obind (if p = NULL then Some (Inr True)
            else Some (rbind (get_payload s p) (\<lambda>f. case f of None \<Rightarrow> Inl (Undefined NullDeref)
                   | Some name \<Rightarrow> Inr (strcmp filename name < 0))))
       (\<lambda>here. if here
          then (case malloc_node s (Some (Some filename)) of None \<Rightarrow> Some (Inl (Undefined NullDeref))
                | Some (tmp, s1) \<Rightarrow> Some (rbind (malloc_name filename s1) (\<lambda>s2.
                    rbind (set_next s2 tmp p) (\<lambda>s3. set_next s3 pre tmp))))
          else obind (Some (get_next s p)) (\<lambda>p'. obind (Some (get_next s pre)) (\<lambda>pre'.
                 insert_loop filename s pre' p')))"

definition insert_name :: "string \<Rightarrow> addr \<Rightarrow> names \<Rightarrow> names result option" where
  "insert_name filename arr s = obind (Some (get_next s arr)) (\<lambda>p. insert_loop filename s arr p)"

section \<open>The program\<close>

text \<open>\<open>snprintf(filename, 8, "x%06d", code)\<close>.\<close>

definition pad6 :: "string \<Rightarrow> string" where
  "pad6 s = replicate (6 - length s) CHR ''0'' @ s"

definition file_name :: "nat \<Rightarrow> string" where
  "file_name r = snprintf 8 (CHR ''x'' # pad6 (dec_nat (r mod 1000000)))"

datatype open_outcome = Opened | Exists | Open_error

partial_function (option) create_loop ::
    "(nat \<Rightarrow> nat) \<Rightarrow> ('w \<Rightarrow> string \<Rightarrow> 'w \<times> open_outcome) \<Rightarrow> ('w \<Rightarrow> string \<Rightarrow> 'w option) \<Rightarrow> addr \<Rightarrow> nat \<Rightarrow> nat
     \<Rightarrow> 'w \<Rightarrow> names \<Rightarrow> ('w \<times> names) result option" where
  "create_loop rnd openx write1 arr k todo w s =
     (if todo = 0 then Some (Inr (w, s))
      else case openx w (file_name (rnd k)) of
        (w1, Exists) \<Rightarrow> create_loop rnd openx write1 arr (Suc k) todo w1 s
      | (w1, Open_error) \<Rightarrow> Some (Inl (stop_with ''open''))
      | (w1, Opened) \<Rightarrow>
          (case write1 w1 (file_name (rnd k)) of None \<Rightarrow> Some (Inl (stop_with ''write''))
           | Some w2 \<Rightarrow> obind (insert_name (file_name (rnd k)) arr s)
               (\<lambda>s'. create_loop rnd openx write1 arr (Suc k) (todo - 1) w2 s')))"

text \<open>The two passes over the list; \<open>acc\<close> keeps the names passed to \<open>unlink\<close>, in order.\<close>

partial_function (option) unlink_loop ::
    "('w \<Rightarrow> string \<Rightarrow> 'w option) \<Rightarrow> names \<Rightarrow> addr \<Rightarrow> string list \<Rightarrow> 'w \<Rightarrow> ('w \<times> string list) result option"
where
  "unlink_loop unlinkx s p acc w =
     (if p = NULL then Some (Inr (w, acc))
      else obind (Some (get_payload s p)) (\<lambda>f.
        case f of None \<Rightarrow> Some (Inl (Undefined NullDeref))
        | Some name \<Rightarrow>
            (case unlinkx w name of None \<Rightarrow> Some (Inl (stop_with ''unlink''))
             | Some w' \<Rightarrow> obind (Some (get_next s p)) (\<lambda>n.
                 unlink_loop unlinkx s n (acc @ [name]) w'))))"

partial_function (option) free_loop_names :: "addr \<Rightarrow> names \<Rightarrow> names result option" where
  "free_loop_names p s = obind (Some (get_next s p)) (\<lambda>n.
     if n = NULL then Some (free_node s p)
     else obind (Some (rbind (get_next s n) (\<lambda>tmp. rbind (free_node s n) (\<lambda>s1. set_next s1 p tmp))))
       (\<lambda>s'. free_loop_names p s'))"

definition elapsed :: "int \<times> int \<Rightarrow> int \<times> int \<Rightarrow> int" where
  "elapsed t0 t1 = (fst t1 - fst t0) * 1000000 + (snd t1 - snd t0)"

record ('w) file_create_env =
  rnd :: "int \<Rightarrow> nat \<Rightarrow> nat"            \<comment> \<open>the numbers after \<open>srand\<close>\<close>
  openx :: "'w \<Rightarrow> string \<Rightarrow> 'w \<times> open_outcome"
  write1 :: "'w \<Rightarrow> string \<Rightarrow> 'w option"
  unlinkx :: "'w \<Rightarrow> string \<Rightarrow> 'w option"
  time0 :: "(int \<times> int) option"
  time1 :: "(int \<times> int) option"

text \<open>The result is the file system, the heap, the names in the order of their removal and the text.\<close>

definition file_create_main ::
    "'w file_create_env \<Rightarrow> string list \<Rightarrow> 'w \<Rightarrow> names \<Rightarrow> ('w \<times> names \<times> string list \<times> string) result option"
where
  "file_create_main env argv w s =
     (let usage = Inl (stop_with (argv ! 0 @ '' NF (1000 <= NF <= 20000)'' @ [newline])) in
      if length argv \<noteq> 2 \<or> strcmp (argv ! 1) ''--help'' = 0 then Some usage
      else let nf = atoi (argv ! 1) in
      if nf < 1000 \<or> 20000 < nf then Some usage
      else obind (Some (init s)) (\<lambda>(arr, s1).
        case time0 env of None \<Rightarrow> Some (Inl (stop_with ''gettimeofday''))
        | Some t0 \<Rightarrow>
          obind (create_loop (rnd env nf) (openx env) (write1 env) arr 0 (nat nf) w s1) (\<lambda>(w2, s2).
          obind (Some (get_next s2 arr)) (\<lambda>p.
          obind (unlink_loop (unlinkx env) s2 p [] w2) (\<lambda>(w3, removed).
          case time1 env of None \<Rightarrow> Some (Inl (stop_with ''gettimeofday''))
          | Some t1 \<Rightarrow>
            obind (free_loop_names arr s2) (\<lambda>s3.
              Some (Inr (w3, s3, removed, ''time: '' @ dec_int (elapsed t0 t1)))))))))"

section \<open>Insertion\<close>

definition ins :: "string \<Rightarrow> string list \<Rightarrow> string list" where
  "ins x ns = takeWhile (\<lambda>f. \<not> strcmp x f < 0) ns @ x # dropWhile (\<lambda>f. \<not> strcmp x f < 0) ns"

lemma ins_simps [simp]:
  "ins x [] = [x]"
  "ins x (n # ns) = (if strcmp x n < 0 then x # n # ns else n # ins x ns)"
  by (auto simp: ins_def)

lemma mset_ins: "mset (ins x ns) = add_mset x (mset ns)"
  by (induction ns) auto

lemma set_ins: "set (ins x ns) = insert x (set ns)"
  by (induction ns) auto

lemma sorted_ins: "sorted ns \<Longrightarrow> cstring x \<Longrightarrow> \<forall>n\<in>set ns. cstring n \<Longrightarrow> sorted (ins x ns)"
proof (induction ns)
  case (Cons n ns)
  then show ?case by (auto simp: strcmp_less_iff set_ins)
qed simp

lemma seg_quota [simp]: "seg (s\<lparr>quota := q\<rparr>) p L r = seg s p L r"
  by (rule seg_frame) simp

lemma headed_quota [simp]: "headed (s\<lparr>quota := q\<rparr>) h y L = headed s h y L"
  by (simp add: headed_def store_ok_def)

lemma set_next_quota: "set_next (s\<lparr>quota := q\<rparr>) a b = rbind (set_next s a b) (\<lambda>s'. Inr (s'\<lparr>quota := q\<rparr>))"
  by (simp add: set_next_def load_def split: option.splits)

lemma headed_dom: "headed s h y L \<Longrightarrow> insert h (set (map fst L)) \<subseteq> dom (cells s)"
  using seg_in_dom[of s h "(h, y) # map (apsnd Some) L" NULL] by (force simp: headed_def)

lemma insert_here:
  assumes "headed s arr y (L @ M)" and "get_next s (before arr L) = Inr p" and "2 \<le> quota s"
    and "length filename < 8"
  shows "\<exists>s1 s2 s'. malloc_node s (Some (Some filename)) = Some (fresh s, s1) \<and>
    malloc_name filename s1 = Inr s2 \<and>
    rbind (set_next s2 (fresh s) p) (\<lambda>s3. set_next s3 (before arr L) (fresh s)) = Inr s' \<and>
    headed s' arr y (L @ (fresh s, Some filename) # M) \<and> quota s' = quota s - 2 \<and>
    dom (cells s') = insert (fresh s) (dom (cells s))"
proof -
  obtain s1 s' where s1: "malloc_node s (Some (Some filename)) = Some (fresh s, s1)"
    "link_after s1 (before arr L) (fresh s) = Inr s'" "headed s' arr y (L @ (fresh s, Some filename) # M)"
    "quota s' = quota s - 1" "dom (cells s') = insert (fresh s) (dom (cells s))"
    using link_after_headed[OF assms(1), of "Some filename"] assms(3) by auto
  obtain nd where nd: "cells s (before arr L) = Some nd" "link nd = p"
    using assms(2) by (auto simp: get_next_def load_def split: option.splits if_splits)
  moreover have ok: "store_ok s" using assms(1) by (simp add: headed_def)
  ultimately have "get_next s1 (before arr L) = Inr p"
    using s1(1) store_ok_addr[OF ok nd(1)] assms(3)
    by (auto simp: malloc_node_def get_next_def load_def split: if_splits)
  then have "rbind (set_next s1 (fresh s) p) (\<lambda>s3. set_next s3 (before arr L) (fresh s)) = Inr s'"
    using s1(2) by (simp add: link_after_def)
  then have "rbind (set_next (s1\<lparr>quota := quota s - 2\<rparr>) (fresh s) p) (\<lambda>s3. set_next s3 (before arr L) (fresh s)) =
      Inr (s'\<lparr>quota := quota s - 2\<rparr>)"
    by (auto simp: set_next_quota)
  moreover have "malloc_name filename s1 = Inr (s1\<lparr>quota := quota s - 2\<rparr>)"
    using s1(1) assms(3,4) by (auto simp: malloc_name_def malloc_node_def)
  ultimately show ?thesis using s1
    by (intro exI[of _ s1] exI[of _ "s1\<lparr>quota := quota s - 2\<rparr>"] exI[of _ "s'\<lparr>quota := quota s - 2\<rparr>"])
      simp
qed

lemma insert_loop_correct:
  assumes "headed s arr y (L @ M)" and "map prod.snd M = map Some ns"
    and "get_next s (before arr L) = Inr p" and "2 \<le> quota s" and "length filename < 8"
  shows "\<exists>s' M'. insert_loop filename s (before arr L) p = Some (Inr s') \<and> headed s' arr y (L @ M') \<and>
    map prod.snd M' = map Some (ins filename ns) \<and> quota s' = quota s - 2 \<and>
    dom (cells s') = dom (cells s) \<union> set (map fst (L @ M')) \<and> set M \<subseteq> set M'"
  using assms
proof (induction M arbitrary: L ns p)
  case Nil
  then have "p = NULL" using headed_next_last[of s arr y L] by simp
  moreover obtain s1 s2 s' where "malloc_node s (Some (Some filename)) = Some (fresh s, s1)"
      "malloc_name filename s1 = Inr s2"
      "rbind (set_next s2 (fresh s) p) (\<lambda>s3. set_next s3 (before arr L) (fresh s)) = Inr s'"
      "headed s' arr y (L @ [(fresh s, Some filename)])" "quota s' = quota s - 2"
      "dom (cells s') = insert (fresh s) (dom (cells s))"
    using insert_here[OF Nil.prems(1,3-5)] by blast
  moreover note headed_dom[OF Nil.prems(1)]
  ultimately show ?case using Nil.prems(2)
    by (intro exI[of _ s'] exI[of _ "[(fresh s, Some filename)]"], subst insert_loop.simps) auto
next
  case (Cons e M)
  obtain a x where e: "e = (a, x)" by fastforce
  obtain n ms where ns: "ns = n # ms" "x = Some n" "map prod.snd M = map Some ms"
    using Cons.prems(2) e by (cases ns) auto
  note nx = headed_next[OF Cons.prems(1)[unfolded e]]
  have p: "p = a" using nx(1) Cons.prems(3) by simp
  have r: "(if p = NULL then Some (Inr True)
       else Some (rbind (get_payload s p) (\<lambda>f. case f of None \<Rightarrow> Inl (Undefined NullDeref)
          | Some name \<Rightarrow> Inr (strcmp filename name < 0)))) = Some (Inr (strcmp filename n < 0))"
    using nx p ns by simp
  show ?case
  proof (cases "strcmp filename n < 0")
    case True
    obtain s1 s2 s' where h: "malloc_node s (Some (Some filename)) = Some (fresh s, s1)"
      "malloc_name filename s1 = Inr s2"
      "rbind (set_next s2 (fresh s) p) (\<lambda>s3. set_next s3 (before arr L) (fresh s)) = Inr s'"
      "headed s' arr y (L @ (fresh s, Some filename) # e # M)" "quota s' = quota s - 2"
      "dom (cells s') = insert (fresh s) (dom (cells s))"
      using insert_here[OF Cons.prems(1,3-5)] by blast
    moreover note headed_dom[OF Cons.prems(1)]
    ultimately show ?thesis using True e ns
      by (intro exI[of _ s'] exI[of _ "(fresh s, Some filename) # e # M"], subst insert_loop.simps)
        (auto simp: r)
  next
    case False
    obtain q where q: "get_next s a = Inr q"
      using Cons.prems(1) e load_ok[of s a]
      by (fastforce simp: headed_def seg_append get_next_def)
    have step: "insert_loop filename s (before arr L) p = insert_loop filename s a q"
      using False nx(1) q[folded p] by (subst insert_loop.simps) (simp add: r)
    obtain s' M' where "insert_loop filename s a q = Some (Inr s')"
      "headed s' arr y ((L @ [e]) @ M')" "map prod.snd M' = map Some (ins filename ms)"
      "quota s' = quota s - 2" "dom (cells s') = dom (cells s) \<union> set (map fst ((L @ [e]) @ M'))"
      "set M \<subseteq> set M'"
      using Cons.IH[of "L @ [e]" ms q] Cons.prems e ns(3) q by auto
    then show ?thesis using step False e ns by (intro exI[of _ s'] exI[of _ "e # M'"]) auto
  qed
qed

text \<open>The heap is exactly the list of these names.\<close>

definition holds_names :: "names \<Rightarrow> addr \<Rightarrow> string list \<Rightarrow> bool" where
  "holds_names s arr ns \<longleftrightarrow> (\<exists>L. headed s arr (Some None) L \<and> map prod.snd L = map Some ns \<and>
     dom (cells s) = insert arr (set (map fst L)))"

lemma headed_get_next: "headed s h y L \<Longrightarrow> \<exists>p. get_next s h = Inr p"
  using load_ok by (fastforce simp: headed_def get_next_def)

lemma insert_name_correct:
  assumes "holds_names s arr ns" and "2 \<le> quota s" and "length filename < 8"
  shows "\<exists>s'. insert_name filename arr s = Some (Inr s') \<and> holds_names s' arr (ins filename ns) \<and>
    quota s' = quota s - 2"
proof -
  obtain L where L: "headed s arr (Some None) ([] @ L)" "map prod.snd L = map Some ns"
    "dom (cells s) = insert arr (set (map fst L))"
    using assms(1) by (auto simp: holds_names_def)
  obtain p where "get_next s arr = Inr p" using headed_get_next L(1) by fastforce
  then obtain s' M' where s': "insert_loop filename s arr p = Some (Inr s')"
    "get_next s arr = Inr p" "headed s' arr (Some None) M'"
    "map prod.snd M' = map Some (ins filename ns)" "quota s' = quota s - 2"
    "dom (cells s') = dom (cells s) \<union> set (map fst M')" "set L \<subseteq> set M'"
    using insert_loop_correct[OF L(1,2), of p filename] assms(2,3) by auto
  have "set (map fst L) \<subseteq> set (map fst M')" using s'(7) by auto
  then have "dom (cells s') = insert arr (set (map fst M'))" using s'(6) L(3) by auto
  then show ?thesis using s' by (auto simp: insert_name_def holds_names_def)
qed

text \<open>Without memory for a node and its name the insertion writes through a null pointer, wherever the name belongs.\<close>

lemma insert_loop_short:
  assumes "headed s arr y (L @ M)" and "map prod.snd M = map Some ns" and "get_next s (before arr L) = Inr p" and "quota s < 2"
  shows "insert_loop filename s (before arr L) p = Some (Inl (Undefined NullDeref))"
proof -
  have here: "(case malloc_node s (Some (Some filename)) of None \<Rightarrow> Some (Inl (Undefined NullDeref))
      | Some (tmp, s1) \<Rightarrow> Some (rbind (malloc_name filename s1) (\<lambda>s2. rbind (set_next s2 tmp p) (\<lambda>s3. set_next s3 pre tmp)))) =
    Some (Inl (Undefined NullDeref))" for p pre
    using assms(4) by (auto simp: malloc_node_def malloc_name_def)
  show ?thesis using assms(1-3)
  proof (induction M arbitrary: L ns p)
    case Nil
    then have "p = NULL" using headed_next_last[of s arr y L] by simp
    then show ?case using here by (subst insert_loop.simps) simp
  next
    case (Cons e M)
    obtain a x where e: "e = (a, x)" by fastforce
    obtain n ms where ns: "x = Some n" "map prod.snd M = map Some ms" using Cons.prems(2) e by (cases ns) auto
    note nx = headed_next[OF Cons.prems(1)[unfolded e]]
    have p: "p = a" using nx(1) Cons.prems(3) by simp
    obtain q where q: "get_next s a = Inr q"
      using Cons.prems(1) e load_ok[of s a] by (fastforce simp: headed_def seg_append get_next_def)
    have "insert_loop filename s (before arr (L @ [e])) q = Some (Inl (Undefined NullDeref))"
      using Cons.IH[of "L @ [e]" ms q] Cons.prems(1) ns(2) q e by simp
    then show ?case using nx p ns(1) q e here by (subst insert_loop.simps) simp
  qed
qed

lemma insert_name_short:
  assumes "holds_names s arr ns" and "quota s < 2"
  shows "insert_name filename arr s = Some (Inl (Undefined NullDeref))"
proof -
  obtain L where L: "headed s arr (Some None) ([] @ L)" "map prod.snd L = map Some ns" using assms(1) by (auto simp: holds_names_def)
  obtain p where p: "get_next s arr = Inr p" using headed_get_next L(1) by fastforce
  then show ?thesis using insert_loop_short[OF L(1,2) _ assms(2), of p] by (simp add: insert_name_def)
qed

section \<open>The passes over the list\<close>

fun unlink_all :: "('w \<Rightarrow> string \<Rightarrow> 'w option) \<Rightarrow> 'w \<Rightarrow> string list \<Rightarrow> 'w option" where
  "unlink_all u w [] = Some w"
| "unlink_all u w (n # ns) = (case u w n of None \<Rightarrow> None | Some w' \<Rightarrow> unlink_all u w' ns)"

lemma unlink_loop_correct:
  assumes "seg s p (map (apsnd Some) L) NULL" and "store_ok s" and "map prod.snd L = map Some ns"
  shows "unlink_loop u s p acc w = Some (case unlink_all u w ns of None \<Rightarrow> Inl (stop_with ''unlink'')
     | Some w' \<Rightarrow> Inr (w', acc @ ns))"
  using assms
proof (induction L arbitrary: p acc w ns)
  case Nil
  then show ?case by (subst unlink_loop.simps) simp
next
  case (Cons e L)
  obtain a n ms where e: "e = (a, Some n)" "ns = n # ms" "map prod.snd L = map Some ms"
    using Cons.prems(3) by (cases e; cases ns) auto
  obtain q where q: "p = a" "cells s a = Some (Node (Some (Some n)) q)"
    "seg s q (map (apsnd Some) L) NULL" using Cons.prems(1) e by auto
  have "get_payload s p = Inr (Some n)" "get_next s p = Inr q" "p \<noteq> NULL"
    using q load_ok[OF assms(2) q(2)] store_ok_addr[OF assms(2) q(2)]
    by (simp_all add: get_payload_def get_next_def)
  then show ?case using Cons.IH[OF q(3) assms(2) e(3)] e(2)
    by (subst unlink_loop.simps) (simp split: option.splits)
qed

lemma free_then_link:
  assumes "get_next s p = Inr n" and "n \<noteq> p"
  shows "rbind (get_next s n) (\<lambda>tmp. rbind (free_node s n) (\<lambda>s1. set_next s1 p tmp)) = unlink_after s p"
  using assms
  by (auto simp: unlink_after_def get_next_def free_node_def set_next_def load_def fun_upd_twist
      split: option.splits if_splits)

lemma free_loop_correct:
  assumes "headed s h y L" and "dom (cells s) = insert h (set (map fst L))"
  shows "\<exists>s'. free_loop_names h s = Some (Inr s') \<and> cells s' = Map.empty"
  using assms
proof (induction L arbitrary: s)
  case Nil
  have n: "get_next s h = Inr NULL" using headed_next_last[OF Nil.prems(1)] by simp
  obtain nd where "cells s h = Some nd" "h \<noteq> NULL"
    using n by (auto simp: get_next_def load_def split: if_splits option.splits)
  moreover have "(cells s)(h := None) = Map.empty"
    using Nil.prems(2) by (auto simp: fun_eq_iff domIff)
  ultimately show ?case using n
    by (subst free_loop_names.simps) (simp add: free_node_def load_def)
next
  case (Cons e L)
  obtain a x where e: "e = (a, x)" by fastforce
  have hd: "headed s h y ([] @ (a, x) # L)" using Cons.prems(1) e by simp
  note nx = headed_next[OF hd]
  have ah: "a \<noteq> h" and al: "a \<notin> set (map fst L)" using hd by (auto simp: headed_def)
  obtain s1 where s1: "unlink_after s h = Inr s1" "headed s1 h y L" "dom (cells s1) = dom (cells s) - {a}"
    using unlink_after_headed[OF hd] by auto
  then have "dom (cells s1) = insert h (set (map fst L))" using Cons.prems(2) e ah al by auto
  note IH = Cons.IH[OF s1(2) this]
  have "rbind (get_next s a) (\<lambda>tmp. rbind (free_node s a) (\<lambda>s1. set_next s1 h tmp)) = Inr s1"
    using free_then_link[of s h a] nx(1) ah s1(1) by simp
  then have "free_loop_names h s = free_loop_names h s1"
    using nx(1,3) by (subst free_loop_names.simps) (simp del: rbind_eq_Inr)
  then show ?case using IH by simp
qed

section \<open>File names\<close>

lemma length_dec_nat: "n < 10 ^ Suc k \<Longrightarrow> length (dec_nat n) \<le> Suc k"
proof (induction k arbitrary: n)
  case 0
  then show ?case by (subst dec_nat.simps) simp
next
  case (Suc k)
  have "length (dec_nat (n div 10)) \<le> Suc k" using Suc.prems by (intro Suc.IH) simp
  then show ?case by (subst dec_nat.simps) simp
qed

lemma file_name_eq: "file_name r = CHR ''x'' # pad6 (dec_nat (r mod 1000000))"
  and length_file_name [simp]: "length (file_name r) = 7"
proof -
  have "length (dec_nat (r mod 1000000)) \<le> 6" using length_dec_nat[of "r mod 1000000" 5] by simp
  then have "length (pad6 (dec_nat (r mod 1000000))) = 6" by (simp add: pad6_def)
  then show "file_name r = CHR ''x'' # pad6 (dec_nat (r mod 1000000))" "length (file_name r) = 7"
    by (simp_all add: file_name_def snprintf_def)
qed

lemma cstring_file_name [simp]: "cstring (file_name r)"
  using dec_nat_digits[of "r mod 1000000"]
  by (auto simp: file_name_eq pad6_def cstring_def isdigit_def)

lemma file_name_inj: "file_name a = file_name b \<longleftrightarrow> a mod 1000000 = b mod 1000000"
proof
  have zeros: "digits_val 10 (replicate k CHR ''0'' @ s) = digits_val 10 s" for k s
    by (induction k) (simp_all add: digits_val_def digit_val_def)
  assume "file_name a = file_name b"
  then have "digits_val 10 (pad6 (dec_nat (a mod 1000000))) = digits_val 10 (pad6 (dec_nat (b mod 1000000)))"
    by (simp add: file_name_eq)
  then show "a mod 1000000 = b mod 1000000" by (simp add: pad6_def zeros digits_val_dec_nat)
qed (simp add: file_name_def)

section \<open>The creating loop\<close>

text \<open>What the documentation of the calls says about the names in the directory.\<close>

definition directory_calls :: "('w \<Rightarrow> string set) \<Rightarrow> 'w file_create_env \<Rightarrow> bool" where
  "directory_calls dir env \<longleftrightarrow>
     (\<forall>w n w'. openx env w n = (w', Opened) \<longrightarrow> n \<notin> dir w \<and> dir w' = insert n (dir w)) \<and>
     (\<forall>w n w'. openx env w n = (w', Exists) \<longrightarrow> n \<in> dir w \<and> dir w' = dir w) \<and>
     (\<forall>w n w'. write1 env w n = Some w' \<longrightarrow> dir w' = dir w) \<and>
     (\<forall>w n w'. unlinkx env w n = Some w' \<longrightarrow> dir w' = dir w - {n})"

lemma unlink_all_dir:
  "directory_calls dir env \<Longrightarrow> unlink_all (unlinkx env) w ns = Some w' \<Longrightarrow> dir w' = dir w - set ns"
  by (induction ns arbitrary: w) (auto simp: directory_calls_def split: option.splits)

text \<open>What the loop has created, started with the list \<open>ns\<close>, memory for \<open>m\<close> more blocks and \<open>todo\<close> files to make.\<close>

definition created ::
    "('w \<Rightarrow> string set) \<Rightarrow> addr \<Rightarrow> string list \<Rightarrow> nat \<Rightarrow> nat \<Rightarrow> 'w \<Rightarrow> ('w \<times> names) result \<Rightarrow> bool" where
  "created dir arr ns m todo w r \<longleftrightarrow> (case r of
     Inl e \<Rightarrow> e \<in> {stop_with ''open'', stop_with ''write''} \<or> e = Undefined NullDeref \<and> m < 2 * todo
   | Inr (w', s') \<Rightarrow> 2 * todo \<le> m \<and> (\<exists>ns'. holds_names s' arr ns' \<and> sorted ns' \<and> distinct ns' \<and>
       length ns' = length ns + todo \<and> set ns \<subseteq> set ns' \<and> (set ns' - set ns) \<inter> dir w = {} \<and>
       dir w' = dir w \<union> set ns'))"

definition loop_ready :: "('w \<Rightarrow> string set) \<Rightarrow> addr \<Rightarrow> 'w \<Rightarrow> names \<Rightarrow> string list \<Rightarrow> bool" where
  "loop_ready dir arr w s ns \<longleftrightarrow> holds_names s arr ns \<and> sorted ns \<and> distinct ns \<and> (\<forall>n\<in>set ns. cstring n) \<and> set ns \<subseteq> dir w"

text \<open>One file more: the list after the insertion is ready for the rest of the loop.\<close>

lemma opened_new:
  assumes "directory_calls dir env" and "openx env w f = (w1, Opened)" and "write1 env w1 f = Some w2"
  shows "f \<notin> dir w" and "dir w2 = insert f (dir w)"
  using assms unfolding directory_calls_def by metis+

lemma insert_ready:
  assumes "directory_calls dir env" and "loop_ready dir arr w s ns" and "2 \<le> quota s"
    and "openx env w (file_name c) = (w1, Opened)" and "write1 env w1 (file_name c) = Some w2"
  shows "\<exists>s'. insert_name (file_name c) arr s = Some (Inr s') \<and> quota s' = quota s - 2 \<and>
    loop_ready dir arr w2 s' (ins (file_name c) ns)"
proof -
  note new = opened_new[OF assms(1,4,5)]
  have r: "holds_names s arr ns" "length (file_name c) < 8"
    using assms(2) by (simp_all add: loop_ready_def)
  obtain s' where s': "insert_name (file_name c) arr s = Some (Inr s')"
    "holds_names s' arr (ins (file_name c) ns)" "quota s' = quota s - 2"
    using insert_name_correct[OF r(1) assms(3) r(2)] by blast
  have "distinct (ins (file_name c) ns)"
  proof -
    have "distinct (file_name c # ns)" using assms(2) new(1) by (auto simp: loop_ready_def)
    then show ?thesis by (metis mset_ins mset.simps(2) mset_eq_imp_distinct_iff)
  qed
  then have "loop_ready dir arr w2 s' (ins (file_name c) ns)"
    using s'(2) assms(2) new(2) sorted_ins by (auto simp: loop_ready_def set_ins)
  then show ?thesis using s'(1,3) by blast
qed

lemma created_cong: "dir w1 = dir w \<Longrightarrow> created dir arr ns m todo w1 r = created dir arr ns m todo w r"
  by (cases r) (auto simp: created_def)

lemma created_step:
  assumes "created dir arr (ins f ns) (m - 2) todo w2 r" and "dir w2 = insert f (dir w)" and "f \<notin> dir w" and "2 \<le> m"
  shows "created dir arr ns m (Suc todo) w r"
proof -
  have l: "length (ins f ns) = Suc (length ns)" by (metis mset_ins size_add_mset size_mset)
  show ?thesis
  proof (cases r)
    case (Inr x)
    then obtain w' s' where x: "r = Inr (w', s')" by (cases x) auto
    then obtain ns' where ns': "holds_names s' arr ns'" "sorted ns'" "distinct ns'"
      "length ns' = length (ins f ns) + todo" "set (ins f ns) \<subseteq> set ns'"
      "(set ns' - set (ins f ns)) \<inter> dir w2 = {}" "dir w' = dir w2 \<union> set ns'" and m: "2 * todo \<le> m - 2"
      using assms(1) by (auto simp: created_def)
    have "set ns \<subseteq> set ns'" "(set ns' - set ns) \<inter> dir w = {}" "dir w' = dir w \<union> set ns'"
      using ns'(5-7) assms(2,3) by (auto simp: set_ins)
    moreover have "2 * Suc todo \<le> m" using m assms(4) by simp
    ultimately show ?thesis using x ns'(1-4) l by (auto simp: created_def)
  qed (use assms(1,4) in \<open>auto simp: created_def\<close>)
qed

lemma create_loop_correct:
  assumes "create_loop rd op wr a k todo w s = Some r"
  shows "\<forall>ns. op = openx env \<longrightarrow> wr = write1 env \<longrightarrow> a = arr \<longrightarrow> directory_calls dir env \<longrightarrow>
    loop_ready dir arr w s ns \<longrightarrow> created dir arr ns (quota s) todo w r"
proof (rule create_loop.raw_induct [where P="\<lambda>rd op wr a k todo w s r. \<forall>ns. op = openx env \<longrightarrow>
    wr = write1 env \<longrightarrow> a = arr \<longrightarrow> directory_calls dir env \<longrightarrow> loop_ready dir arr w s ns \<longrightarrow>
    created dir arr ns (quota s) todo w r", OF _ assms], intro allI impI, goal_cases)
  case (1 cl rd op wr a k todo w s r ns)
  note IH = 1(1)[rule_format, OF _ 1(3,4,5,6)]
  show ?case
  proof (cases todo)
    case 0
    then show ?thesis using 1(2,7) by (auto simp: created_def loop_ready_def intro!: exI[of _ ns])
  next
    case (Suc t)
    obtain w1 out where o: "openx env w (file_name (rd k)) = (w1, out)" by fastforce
    show ?thesis
    proof (cases out)
      case Exists
      have e: "dir w1 = dir w" using o Exists 1(6) unfolding directory_calls_def by metis
      have "cl rd op wr a (Suc k) todo w1 s = Some r"
        using 1(2,3) o Exists Suc by simp
      from IH[OF this, of ns] have "created dir arr ns (quota s) todo w1 r"
        using 1(7) e by (simp add: loop_ready_def)
      then show ?thesis using created_cong[of dir w1 w, OF e] by simp
    next
      case Open_error
      then show ?thesis using 1(2,3) o Suc by (auto simp: created_def)
    next
      case Opened
      show ?thesis
      proof (cases "write1 env w1 (file_name (rd k))")
        case None
        then show ?thesis using 1(2-4) o Suc Opened by (auto simp: created_def)
      next
        case (Some w2)
        note new = opened_new[OF 1(6) o[unfolded Opened] Some]
        show ?thesis
        proof (cases "2 \<le> quota s")
          case True
          obtain s' where s': "insert_name (file_name (rd k)) arr s = Some (Inr s')" "quota s' = quota s - 2"
            "loop_ready dir arr w2 s' (ins (file_name (rd k)) ns)"
            using insert_ready[OF 1(6,7) True o[unfolded Opened] Some] by blast
          have "cl rd op wr a (Suc k) t w2 s' = Some r"
            using 1(2-5) o Suc Opened Some s'(1) by simp
          from IH[OF this s'(3)] have "created dir arr (ins (file_name (rd k)) ns) (quota s - 2) t w2 r" unfolding s'(2) .
          from created_step[OF this new(2,1) True] show ?thesis using Suc by simp
        next
          case False
          then have "insert_name (file_name (rd k)) arr s = Some (Inl (Undefined NullDeref))"
            using insert_name_short[of s arr ns] 1(7) by (simp add: loop_ready_def)
          then have "r = Inl (Undefined NullDeref)" using 1(2-5) o Suc Opened Some by simp
          then show ?thesis using False Suc by (simp add: created_def)
        qed
      qed
    qed
  qed
qed

section \<open>The whole program\<close>

definition names_init :: "nat \<Rightarrow> names" where
  "names_init q = \<lparr>cells = Map.empty, fresh = 1, quota = q\<rparr>"

lemma init_ready:
  assumes "0 < q"
  shows "\<exists>s1. init (names_init q) = Inr (1, s1) \<and> quota s1 = q - 1 \<and> loop_ready dir 1 w s1 []"
  using assms
  by (auto simp: init_def names_init_def malloc_node_def loop_ready_def holds_names_def headed_def
      store_ok_def)

lemma init_short: "init (names_init 0) = Inl (Undefined NullDeref)"
  by (simp add: init_def names_init_def malloc_node_def)

text \<open>After a successful creating loop the rest of \<open>main\<close> removes what was created.\<close>

lemma clean_up:
  assumes "holds_names s 1 ns"
  shows "\<exists>p s'. get_next s 1 = Inr p \<and> free_loop_names 1 s = Some (Inr s') \<and> cells s' = Map.empty \<and>
    unlink_loop u s p [] w = Some (case unlink_all u w ns of None \<Rightarrow> Inl (stop_with ''unlink'')
     | Some w' \<Rightarrow> Inr (w', ns))"
proof -
  obtain L where L: "headed s 1 (Some None) L" "map prod.snd L = map Some ns"
    "dom (cells s) = insert 1 (set (map fst L))"
    using assms by (auto simp: holds_names_def)
  then obtain p where p: "cells s 1 = Some (Node (Some None) p)" "seg s p (map (apsnd Some) L) NULL"
    and ok: "store_ok s"
    by (auto simp: headed_def)
  have "get_next s 1 = Inr p" using load_ok[OF ok p(1)] by (simp add: get_next_def)
  then show ?thesis
    using free_loop_correct[OF L(1,3)] unlink_loop_correct[OF p(2) ok L(2), of u "[]" w, unfolded append_Nil] by auto
qed

text \<open>How the run ends when the calls on the directory behave as documented and there is memory for \<open>q\<close> blocks: it takes one for
  the header and two for each name.\<close>

definition clean_end ::
    "('w \<Rightarrow> string set) \<Rightarrow> 'w \<Rightarrow> int \<Rightarrow> nat \<Rightarrow> ('w \<times> names \<times> string list \<times> string) result \<Rightarrow> bool" where
  "clean_end dir w nf q r \<longleftrightarrow> (case r of
     Inl (Undefined u) \<Rightarrow> u = NullDeref \<and> q \<le> 2 * nat nf
   | Inl (Exit status tx) \<Rightarrow> status = EXIT_FAILURE
   | Inr (w', s', removed, tx) \<Rightarrow> 2 * nat nf < q \<and> dir w' = dir w \<and> cells s' = Map.empty \<and>
       int (length removed) = nf \<and> sorted removed \<and> distinct removed \<and> set removed \<inter> dir w = {})"

lemma obind_cases: "obind m f = Some r \<longleftrightarrow>
    (\<exists>e. m = Some (Inl e) \<and> r = Inl e) \<or> (\<exists>x. m = Some (Inr x) \<and> f x = Some r)"
proof (cases m)
  case (Some q)
  then show ?thesis by (cases q) auto
qed simp

lemma main_clean:
  assumes "file_create_main env argv w (names_init q) = Some r"
    and "directory_calls dir env"
  shows "clean_end dir w (atoi (argv ! 1)) q r"
proof -
  let ?nf = "atoi (argv ! 1)"
  show ?thesis
  proof (cases "length argv \<noteq> 2 \<or> strcmp (argv ! 1) ''--help'' = 0 \<or> ?nf < 1000 \<or> 20000 < ?nf \<or> q = 0 \<or> time0 env = None")
    case True
    show ?thesis
    proof (cases "q = 0")
      case q: True
      have "(\<exists>t. r = Inl (Exit EXIT_FAILURE t)) \<or> r = Inl (Undefined NullDeref)"
        using assms(1) unfolding q file_create_main_def Let_def init_short obind_simps stop_with_def by (auto split: if_splits)
      then show ?thesis using q by (auto simp: clean_end_def)
    next
      case q: False
      then have "0 < q" by simp
      from init_ready[OF this, of dir w] obtain s1 where s: "init (names_init q) = Inr (1, s1)" by blast
      have "\<exists>t. r = Inl (Exit EXIT_FAILURE t)"
        using assms(1) True q unfolding file_create_main_def Let_def s obind_simps prod.case stop_with_def by (auto split: if_splits)
      then show ?thesis by (auto simp: clean_end_def)
    qed
  next
    case False
    then obtain t0 where t0: "time0 env = Some t0" by auto
    have q: "0 < q" using False by simp
    obtain s1 where s1: "init (names_init q) = Inr (1, s1)" "quota s1 = q - 1" "loop_ready dir 1 w s1 []"
      using init_ready[OF q, of dir w] by blast
    have args: "length argv = 2" "strcmp (argv ! 1) ''--help'' \<noteq> 0" "1000 \<le> ?nf" "?nf \<le> 20000"
      using False by auto
    have c1: "\<not> (length argv \<noteq> 2 \<or> strcmp (argv ! 1) ''--help'' = 0)"
      and c2: "\<not> (?nf < 1000 \<or> 20000 < ?nf)" using args by auto
    let ?loop = "create_loop (rnd env ?nf) (openx env) (write1 env) 1 0 (nat ?nf) w s1"
    have r: "obind ?loop (\<lambda>(w2, s2). obind (Some (get_next s2 1)) (\<lambda>p.
          obind (unlink_loop (unlinkx env) s2 p [] w2) (\<lambda>(w3, removed).
          case time1 env of None \<Rightarrow> Some (Inl (stop_with ''gettimeofday''))
          | Some t1 \<Rightarrow> obind (free_loop_names 1 s2) (\<lambda>s3.
              Some (Inr (w3, s3, removed, ''time: '' @ dec_int (elapsed t0 t1))))))) = Some r"
      using assms(1) unfolding file_create_main_def Let_def if_not_P[OF c1] if_not_P[OF c2] s1(1) t0
      by (simp only: obind_simps prod.case option.case)
    then obtain lr where lr: "?loop = Some lr" by (cases ?loop) auto
    have cr: "created dir 1 [] (q - 1) (nat ?nf) w lr"
      using create_loop_correct[OF lr, of env 1 dir] assms(2) s1(2,3) by auto
    show ?thesis
    proof (cases lr)
      case (Inl e)
      then have "r = Inl e" using r lr by simp
      then show ?thesis using cr Inl q by (auto simp: created_def clean_end_def stop_with_def)
    next
      case (Inr x)
      obtain w2 s2 where x: "x = (w2, s2)" by fastforce
      obtain ns where ns: "holds_names s2 1 ns" "sorted ns" "distinct ns" "length ns = nat ?nf"
        "set ns \<inter> dir w = {}" "dir w2 = dir w \<union> set ns" and room: "2 * nat ?nf < q"
        using cr Inr x q by (auto simp: created_def)
      obtain p s3 where c: "get_next s2 1 = Inr p" "free_loop_names 1 s2 = Some (Inr s3)"
        "cells s3 = Map.empty" "unlink_loop (unlinkx env) s2 p [] w2 =
           Some (case unlink_all (unlinkx env) w2 ns of None \<Rightarrow> Inl (stop_with ''unlink'')
             | Some w' \<Rightarrow> Inr (w', ns))"
        using clean_up[OF ns(1), of "unlinkx env" w2] by blast
      show ?thesis
      proof (cases "unlink_all (unlinkx env) w2 ns")
        case None
        then show ?thesis using r lr Inr x c by (auto simp: clean_end_def stop_with_def)
      next
        case (Some w3)
        have "dir w3 = dir w" using unlink_all_dir[OF assms(2) Some] ns(5,6) by auto
        then show ?thesis using r lr Inr x c Some ns args(3) room
          by (auto simp: clean_end_def stop_with_def split: option.splits)
      qed
    qed
  qed
qed

text \<open>C7: whatever the arguments, the random numbers, the memory and the failures of the calls, a run that ends has
  created \<open>NF\<close> new files, removed exactly those in strictly increasing order of their names, left the directory as it was and
  freed the list; or it has exited with a failure status; or, as no \<open>malloc\<close> is checked, it has written through a null
  pointer, which happens only if there is no memory for the header and a node and a name for each file, and then it cannot end well.\<close>

theorem file_create_restores:
  assumes "directory_calls dir env"
  shows "case file_create_main env argv w (names_init q) of None \<Rightarrow> True
     | Some r \<Rightarrow> clean_end dir w (atoi (argv ! 1)) q r"
  using main_clean[of env argv w q _ dir] assms by (auto split: option.splits)

definition demo_env :: "string set file_create_env" where
  "demo_env = \<lparr>rnd = (\<lambda>_ k. k), openx = (\<lambda>d n. if n \<in> d then (d, Exists) else (insert n d, Opened)),
     write1 = (\<lambda>d n. Some d), unlinkx = (\<lambda>d n. Some (d - {n})), time0 = Some (5, 0), time1 = Some (6, 10)\<rparr>"

lemma demo_env_calls: "directory_calls id demo_env"
  by (simp add: directory_calls_def demo_env_def)

theorem file_create_restores_witness:
  "case file_create_main demo_env [''prog'', ''1000''] {''x000002''} (names_init 3000) of None \<Rightarrow> True
     | Some r \<Rightarrow> clean_end id {''x000002''} 1000 3000 r"
proof -
  have n: "atoi ([''prog'', ''1000''] ! 1) = 1000" by (simp add: atoi_def strtol_eval)
  from file_create_restores[OF demo_env_calls, of "{''x000002''}" "[''prog'', ''1000'']" 3000]
  show ?thesis unfolding n .
qed

section \<open>The program ends\<close>

text \<open>The names that the first \<open>K\<close> random numbers give.\<close>

definition drawn :: "(nat \<Rightarrow> nat) \<Rightarrow> nat \<Rightarrow> string set" where
  "drawn rd K = (\<lambda>k. file_name (rd k)) ` {..<K}"

definition drawn_from :: "(nat \<Rightarrow> nat) \<Rightarrow> nat \<Rightarrow> nat \<Rightarrow> string set" where
  "drawn_from rd k d = (\<lambda>i. file_name (rd i)) ` {k..<k + d}"

lemma drawn_from_simps [simp]:
  "drawn_from rd k 0 = {}" "drawn_from rd k (Suc d) = insert (file_name (rd k)) (drawn_from rd (Suc k) d)" "finite (drawn_from rd k d)"
proof -
  have "{k..<k + Suc d} = insert k {Suc k..<Suc k + d}" by auto
  then show "drawn_from rd k (Suc d) = insert (file_name (rd k)) (drawn_from rd (Suc k) d)"
    unfolding drawn_from_def by (simp only: image_insert)
qed (simp_all add: drawn_from_def)

lemma drawn_from_0: "drawn_from rd 0 K = drawn rd K"
  by (simp add: drawn_from_def drawn_def atLeast0LessThan)

definition no_failures :: "('w \<Rightarrow> string set) \<Rightarrow> 'w file_create_env \<Rightarrow> bool" where
  "no_failures dir env \<longleftrightarrow> (\<forall>w n w'. openx env w n \<noteq> (w', Open_error)) \<and> (\<forall>w n. write1 env w n \<noteq> None) \<and>
     (\<forall>w n. n \<in> dir w \<longrightarrow> unlinkx env w n \<noteq> None) \<and> time0 env \<noteq> None \<and> time1 env \<noteq> None"

text \<open>A draw opens a new file, which is then written, or finds the name taken.\<close>

lemma draw_cases:
  assumes "directory_calls dir env" and "no_failures dir env"
  obtains (new) w1 w2 where "openx env w f = (w1, Opened)" "write1 env w1 f = Some w2" "f \<notin> dir w" "dir w2 = insert f (dir w)"
    | (taken) w1 where "openx env w f = (w1, Exists)" "f \<in> dir w" "dir w1 = dir w"
proof (cases "openx env w f")
  case (Pair w1 out)
  show thesis
  proof (cases out)
    case Opened
    obtain w2 where "write1 env w1 f = Some w2" using assms(2) unfolding no_failures_def by blast
    then show thesis using new opened_new[OF assms(1)] Pair Opened by blast
  next
    case Exists
    then have "f \<in> dir w \<and> dir w1 = dir w" using assms(1) Pair unfolding directory_calls_def by metis
    then show thesis using taken Pair Exists by blast
  next
    case Open_error
    then show thesis using assms(2) Pair unfolding no_failures_def by blast
  qed
qed

lemma create_loop_ends:
  assumes calls: "directory_calls dir env" "no_failures dir env"
  shows "loop_ready dir arr w s ns \<Longrightarrow> 2 * todo \<le> quota s \<Longrightarrow> todo \<le> card (drawn_from rd k d - dir w) \<Longrightarrow>
    \<exists>x. create_loop rd (openx env) (write1 env) arr k todo w s = Some (Inr x)"
proof (induction d arbitrary: k todo w s ns)
  case 0
  then show ?case by (subst create_loop.simps) simp
next
  case (Suc d)
  let ?f = "file_name (rd k)"
  show ?case
  proof (cases todo)
    case 0
    then show ?thesis by (subst create_loop.simps) simp
  next
    case t: (Suc t)
    show ?thesis
      using calls
    proof (cases rule: draw_cases[of dir env w ?f])
      case (new w1 w2)
      have q: "2 \<le> quota s" using Suc.prems(2) t by simp
      obtain s' where s': "insert_name ?f arr s = Some (Inr s')" "quota s' = quota s - 2" "loop_ready dir arr w2 s' (ins ?f ns)"
        using insert_ready[OF calls(1) Suc.prems(1) q new(1,2)] by blast
      have "drawn_from rd k (Suc d) - dir w = insert ?f (drawn_from rd (Suc k) d - dir w2)" using new(3,4) by auto
      then have "t \<le> card (drawn_from rd (Suc k) d - dir w2)" using Suc.prems(3) t new(4) by simp
      from Suc.IH[OF s'(3) _ this] s'(2) Suc.prems(2) t
      show ?thesis using new(1,2) s'(1) by (subst create_loop.simps) auto
    next
      case (taken w1)
      have "drawn_from rd k (Suc d) - dir w = drawn_from rd (Suc k) d - dir w1" using taken(2,3) by auto
      then have "\<exists>x. create_loop rd (openx env) (write1 env) arr (Suc k) todo w1 s = Some (Inr x)"
        using Suc.IH[of w1 s ns todo "Suc k"] Suc.prems taken(3) by (simp add: loop_ready_def)
      then show ?thesis using taken(1) t by (subst create_loop.simps) simp
    qed
  qed
qed

lemma create_loop_needs:
  assumes "create_loop rd op wr a k todo w s = Some r"
  shows "\<forall>ns. op = openx env \<longrightarrow> wr = write1 env \<longrightarrow> a = arr \<longrightarrow> directory_calls dir env \<longrightarrow> no_failures dir env \<longrightarrow>
    loop_ready dir arr w s ns \<longrightarrow> 2 * todo \<le> quota s \<longrightarrow> (\<exists>x d. r = Inr x \<and> todo \<le> card (drawn_from rd k d - dir w))"
proof (rule create_loop.raw_induct [where P="\<lambda>rd op wr a k todo w s r. \<forall>ns. op = openx env \<longrightarrow> wr = write1 env \<longrightarrow> a = arr \<longrightarrow>
    directory_calls dir env \<longrightarrow> no_failures dir env \<longrightarrow> loop_ready dir arr w s ns \<longrightarrow> 2 * todo \<le> quota s \<longrightarrow>
    (\<exists>x d. r = Inr x \<and> todo \<le> card (drawn_from rd k d - dir w))", OF _ assms], intro allI impI, goal_cases)
  case (1 cl rd op wr a k todo w s r ns)
  note IH = 1(1)[rule_format, OF _ 1(3-7)]
  let ?f = "file_name (rd k)"
  show ?case
  proof (cases todo)
    case 0
    then show ?thesis using 1(2) by auto
  next
    case (Suc t)
    show ?thesis
      using 1(6,7)
    proof (cases rule: draw_cases[of dir env w ?f])
      case (new w1 w2)
      have q: "2 \<le> quota s" using 1(9) Suc by simp
      obtain s' where s': "insert_name ?f arr s = Some (Inr s')" "quota s' = quota s - 2" "loop_ready dir arr w2 s' (ins ?f ns)"
        using insert_ready[OF 1(6,8) q new(1,2)] by blast
      have "cl rd op wr a (Suc k) t w2 s' = Some r" using 1(2-5) Suc new(1,2) s'(1) by simp
      moreover have "2 * t \<le> quota s'" using 1(9) Suc s'(2) by simp
      ultimately obtain x d where x: "r = Inr x" "t \<le> card (drawn_from rd (Suc k) d - dir w2)" using IH s'(3) by blast
      have "drawn_from rd k (Suc d) - dir w = insert ?f (drawn_from rd (Suc k) d - dir w2)" using new(3,4) by auto
      then have "todo \<le> card (drawn_from rd k (Suc d) - dir w)" using x(2) Suc new(4) by simp
      then show ?thesis using x(1) by blast
    next
      case (taken w1)
      have "cl rd op wr a (Suc k) todo w1 s = Some r" using 1(2,3) Suc taken(1) by simp
      moreover have "loop_ready dir arr w1 s ns" using 1(8) taken(3) by (simp add: loop_ready_def)
      ultimately obtain x d where x: "r = Inr x" "todo \<le> card (drawn_from rd (Suc k) d - dir w1)" using IH 1(9) by blast
      have "drawn_from rd k (Suc d) - dir w = drawn_from rd (Suc k) d - dir w1" using taken(2,3) by auto
      then have "todo \<le> card (drawn_from rd k (Suc d) - dir w)" using x(2) by simp
      then show ?thesis using x(1) by blast
    qed
  qed
qed

lemma unlink_all_succeeds:
  assumes "directory_calls dir env" and "\<And>w n. n \<in> dir w \<Longrightarrow> unlinkx env w n \<noteq> None"
    and "distinct ns" and "set ns \<subseteq> dir w"
  shows "\<exists>w'. unlink_all (unlinkx env) w ns = Some w'"
  using assms(3,4)
proof (induction ns arbitrary: w)
  case (Cons n ns)
  then obtain w1 where w1: "unlinkx env w n = Some w1" using assms(2)[of n w] by auto
  then have "dir w1 = dir w - {n}" using assms(1) unfolding directory_calls_def by metis
  then have "set ns \<subseteq> dir w1" using Cons.prems by auto
  then show ?case using Cons w1 by auto
qed simp

text \<open>C34: when the program ends.  With a valid number of files \<open>NF\<close>, memory for the list and no call that fails other than \<open>open\<close> on a name
  that is taken, it ends, and then well, exactly if finitely many of the random numbers give \<open>NF\<close> different names that the directory
  does not have; otherwise, because the names are too few or the generator leaves them out, it tries names for ever.\<close>

theorem file_create_ends:
  assumes "directory_calls dir env" and "no_failures dir env"
    and "length argv = 2" and "strcmp (argv ! 1) ''--help'' \<noteq> 0" and "nf = atoi (argv ! 1)"
    and "1000 \<le> nf" and "nf \<le> 20000" and "2 * nat nf < q"
  shows "if \<exists>K. nat nf \<le> card (drawn (rnd env nf) K - dir w) then \<exists>x. file_create_main env argv w (names_init q) = Some (Inr x)
    else file_create_main env argv w (names_init q) = None"
proof -
  obtain s1 where s1: "init (names_init q) = Inr (1, s1)" "quota s1 = q - 1" "loop_ready dir 1 w s1 []"
    using init_ready[of q dir w] assms(8) by auto
  have room: "2 * nat nf \<le> quota s1" using s1(2) assms(8) by simp
  obtain t0 t1 where t: "time0 env = Some t0" "time1 env = Some t1" using assms(2) unfolding no_failures_def by blast
  have c1: "\<not> (length argv \<noteq> 2 \<or> strcmp (argv ! 1) ''--help'' = 0)"
    and c2: "\<not> (nf < 1000 \<or> 20000 < nf)" using assms(3,4,6,7) by auto
  let ?loop = "create_loop (rnd env nf) (openx env) (write1 env) 1 0 (nat nf) w s1"
  note main = file_create_main_def Let_def if_not_P[OF c1] assms(5)[symmetric] if_not_P[OF c2] s1(1) t obind_simps prod.case option.case
  show ?thesis
  proof (cases "\<exists>K. nat nf \<le> card (drawn (rnd env nf) K - dir w)")
    case True
    then obtain w2 s2 where l: "?loop = Some (Inr (w2, s2))"
      using create_loop_ends[OF assms(1,2) s1(3) room, of "rnd env nf" 0] by (fastforce simp: drawn_from_0)
    then have "created dir 1 [] (quota s1) (nat nf) w (Inr (w2, s2))"
      using create_loop_correct[OF l, of env 1 dir] assms(1) s1(3) by blast
    then obtain ns where ns: "holds_names s2 1 ns" "distinct ns" "dir w2 = dir w \<union> set ns"
      by (auto simp: created_def)
    have "n \<in> dir w \<Longrightarrow> unlinkx env w n \<noteq> None" for w n using assms(2) unfolding no_failures_def by blast
    then obtain w3 where w3: "unlink_all (unlinkx env) w2 ns = Some w3"
      using unlink_all_succeeds[OF assms(1) _ ns(2), of w2] ns(3) by auto
    obtain p s3 where c: "get_next s2 1 = Inr p" "free_loop_names 1 s2 = Some (Inr s3)"
      "unlink_loop (unlinkx env) s2 p [] w2 = Some (Inr (w3, ns))"
      using clean_up[OF ns(1), of "unlinkx env" w2] unfolding w3 option.case by blast
    have "\<exists>x. file_create_main env argv w (names_init q) = Some (Inr x)" unfolding main l c by blast
    then show ?thesis using True by simp
  next
    case False
    have "?loop = None"
    proof (rule ccontr)
      assume "?loop \<noteq> None"
      then obtain r where "?loop = Some r" by blast
      from create_loop_needs[OF this, of env 1 dir] show False using assms(1,2) s1(3) room False by (auto simp: drawn_from_0)
    qed
    then have "file_create_main env argv w (names_init q) = None" unfolding main by simp
    then show ?thesis using False by simp
  qed
qed

lemma demo_no_failures: "no_failures id (demo_env\<lparr>rnd := r\<rparr>)" "directory_calls id (demo_env\<lparr>rnd := r\<rparr>)"
  by (auto simp: no_failures_def directory_calls_def demo_env_def split: if_splits)

theorem file_create_ends_witness:
  "(\<exists>x. file_create_main (demo_env\<lparr>rnd := \<lambda>_ k. k\<rparr>) [''prog'', ''1000''] {} (names_init 3000) = Some (Inr x)) \<and>
   file_create_main (demo_env\<lparr>rnd := \<lambda>_ k. 5\<rparr>) [''prog'', ''1000''] {} (names_init 3000) = None"
proof -
  have n: "1000 = atoi ([''prog'', ''1000''] ! 1)" by (simp add: atoi_def strtol_eval)
  have h: "strcmp ([''prog'', ''1000''] ! 1) ''--help'' \<noteq> 0" by simp
  have ends: "if \<exists>K. nat 1000 \<le> card (drawn f K - {})
      then \<exists>x. file_create_main (demo_env\<lparr>rnd := \<lambda>_. f\<rparr>) [''prog'', ''1000''] {} (names_init 3000) = Some (Inr x)
      else file_create_main (demo_env\<lparr>rnd := \<lambda>_. f\<rparr>) [''prog'', ''1000''] {} (names_init 3000) = None" for f
    using file_create_ends[OF demo_no_failures(2,1)[of "\<lambda>_. f"] _ h n, of 3000 "{}"] by simp
  have "inj_on (\<lambda>k. file_name k) {..<1000}" by (rule inj_onI) (simp add: file_name_inj)
  then have "nat 1000 \<le> card (drawn (\<lambda>k. k) 1000 - {})" by (simp add: drawn_def card_image)
  then have k: "\<exists>K. nat 1000 \<le> card (drawn (\<lambda>k. k) K - {})" by blast
  have "card (drawn (\<lambda>k. 5) K - {}) \<le> 1" for K
  proof -
    have "drawn (\<lambda>k. 5) K \<subseteq> {file_name 5}" by (auto simp: drawn_def)
    then show ?thesis using card_mono[of "{file_name 5}"] by simp
  qed
  then have "card (drawn (\<lambda>k. 5) K - {}) < nat 1000" for K by (rule le_less_trans) simp
  then have nk: "\<not> (\<exists>K. nat 1000 \<le> card (drawn (\<lambda>k. 5) K - {}))" by (simp add: not_le)
  show ?thesis using ends[of "\<lambda>k. k", unfolded if_P[OF k]] ends[of "\<lambda>k. 5", unfolded if_not_P[OF nk]] by (rule conjI)
qed

end
