(* ===== verification/Tail.thy ===== *)
theory Tail
  imports Error_Functions
begin

text \<open>
  \<open>13-5-my_tail.c\<close>: the last lines of a file, kept in a ring of \<open>line_num\<close> growing buffers.  The
  results of \<open>getopt\<close>, \<open>malloc\<close>, \<open>realloc\<close>, \<open>open\<close> and \<open>read\<close> are arguments; every store into a buffer
  is checked against the memory that was allocated for it.
\<close>

section \<open>The ring of lines\<close>

record line =
  lbuf :: "char option list"    \<comment> \<open>the allocated bytes; \<open>None\<close> is not yet written; \<open>[]\<close> the null pointer\<close>
  lsize :: int

definition put :: "nat \<Rightarrow> char \<Rightarrow> line \<Rightarrow> line result" where
  "put j c l = (if lbuf l = [] then Inl (Undefined NullDeref)
     else if length (lbuf l) \<le> j then Inl (Undefined OutOfBounds)
     else Inr (l\<lparr>lbuf := (lbuf l)[j := Some c]\<rparr>))"

text \<open>\<open>lines[i]\<close>, where the array may be the null pointer.\<close>

definition line_at :: "line list option \<Rightarrow> nat \<Rightarrow> line result" where
  "line_at ls i = (case ls of None \<Rightarrow> Inl (Undefined NullDeref)
     | Some xs \<Rightarrow> if i < length xs then Inr (xs ! i) else Inl (Undefined OutOfBounds))"

definition put_at :: "line list option \<Rightarrow> nat \<Rightarrow> nat \<Rightarrow> char \<Rightarrow> line list option result" where
  "put_at ls i j c = rbind (line_at ls i) (\<lambda>l. rbind (put j c l) (\<lambda>l'.
     Inr (map_option (\<lambda>xs. xs[i := l']) ls)))"

text \<open>\<open>line_count % line_num\<close> for a non-negative dividend.\<close>

definition ring_index :: "int \<Rightarrow> int \<Rightarrow> nat result" where
  "ring_index count num = (if num = 0 then Inl (Undefined DivByZero) else Inr (nat (count mod \<bar>num\<bar>)))"

definition grow :: "(int \<Rightarrow> bool) \<Rightarrow> line list option \<Rightarrow> nat \<Rightarrow> nat \<Rightarrow> line list option result" where
  "grow realloc_ok ls i j = rbind (line_at ls i) (\<lambda>l.
     if int j \<noteq> lsize l then Inr ls
     else if INT_MAX < lsize l * 2 then Inl (Undefined SignedOverflow)
     else if \<not> realloc_ok (lsize l * 2) then Inl (stop_with ''realloc'')
     else Inr (map_option (\<lambda>xs. xs[i := \<lparr>lbuf = lbuf l @ replicate (nat (lsize l * 2) - length (lbuf l)) None,
                                         lsize = lsize l * 2\<rparr>]) ls))"

record ring =
  lines :: "line list option"
  line_count :: int
  jpos :: nat

text \<open>One byte of the buffer.\<close>

definition tail_byte :: "(int \<Rightarrow> bool) \<Rightarrow> int \<Rightarrow> char \<Rightarrow> ring \<Rightarrow> ring result" where
  "tail_byte realloc_ok num c st = rbind (ring_index (line_count st) num) (\<lambda>ind.
     rbind (if c = newline
        then rbind (put_at (lines st) ind (jpos st) nul) (\<lambda>ls.
          if line_count st = INT_MAX then Inl (Undefined SignedOverflow)
          else Inr (st\<lparr>lines := ls, line_count := line_count st + 1, jpos := 0\<rparr>))
        else rbind (put_at (lines st) ind (jpos st) c) (\<lambda>ls.
          Inr (st\<lparr>lines := ls, jpos := jpos st + 1\<rparr>)))
     (\<lambda>st'. rbind (grow realloc_ok (lines st') ind (jpos st')) (\<lambda>ls. Inr (st'\<lparr>lines := ls\<rparr>))))"

fun tail_bytes :: "(int \<Rightarrow> bool) \<Rightarrow> int \<Rightarrow> string \<Rightarrow> ring \<Rightarrow> ring result" where
  "tail_bytes realloc_ok num [] st = Inr st"
| "tail_bytes realloc_ok num (c # cs) st = rbind (tail_byte realloc_ok num c st) (tail_bytes realloc_ok num cs)"

text \<open>The reads: \<open>None\<close> is -1, and after the last element \<open>read\<close> returns 0.\<close>

fun tail_reads :: "(int \<Rightarrow> bool) \<Rightarrow> int \<Rightarrow> string option list \<Rightarrow> ring \<Rightarrow> ring result" where
  "tail_reads realloc_ok num [] st = Inr st"
| "tail_reads realloc_ok num (None # rs) st = Inl (stop_with ''read'')"
| "tail_reads realloc_ok num (Some buffer # rs) st =
     (if buffer = [] then Inr st
      else rbind (tail_bytes realloc_ok num buffer st) (tail_reads realloc_ok num rs))"

section \<open>Start, output and the program\<close>

datatype tail_option = Opt_n string | Opt_other

fun tail_options :: "string \<Rightarrow> int \<Rightarrow> tail_option list \<Rightarrow> int result" where
  "tail_options prog num [] = Inr num"
| "tail_options prog num (Opt_n optarg # opts) = tail_options prog (atoi optarg) opts"
| "tail_options prog num (Opt_other # opts) = Inl (stop_with (prog @ '' [-n num] file'' @ [newline]))"

definition new_line :: "bool \<Rightarrow> line" where
  "new_line ok = \<lparr>lbuf = (if ok then replicate 512 None else []), lsize = 512\<rparr>"

definition alloc_lines :: "bool \<Rightarrow> (nat \<Rightarrow> bool) \<Rightarrow> int \<Rightarrow> line list option result" where
  "alloc_lines array_ok buf_ok num =
     (if num < 0 then Inr None
      else if \<not> array_ok then (if num = 0 then Inr None else Inl (Undefined NullDeref))
      else Inr (Some (map (\<lambda>i. new_line (buf_ok i)) [0..<nat num])))"

text \<open>\<open>printf("%s", \<dots>)\<close> reads the buffer up to the first zero byte.\<close>

fun read_str :: "char option list \<Rightarrow> string result" where
  "read_str [] = Inl (Undefined OutOfBounds)"
| "read_str (None # xs) = Inl (Undefined Uninitialised)"
| "read_str (Some c # xs) = (if c = nul then Inr [] else rbind (read_str xs) (\<lambda>s. Inr (c # s)))"

fun print_lines :: "line list option \<Rightarrow> int \<Rightarrow> nat \<Rightarrow> nat \<Rightarrow> string result" where
  "print_lines ls num i 0 = Inr []"
| "print_lines ls num i (Suc k) = rbind (ring_index (int i) num) (\<lambda>ind. rbind (line_at ls ind) (\<lambda>l.
     rbind (read_str (lbuf l)) (\<lambda>s. rbind (print_lines ls num (Suc i) k) (\<lambda>r.
       Inr (s @ newline # r)))))"

definition finish_last :: "int \<Rightarrow> ring \<Rightarrow> ring result" where
  "finish_last num st = (if jpos st = 0 then Inr st
     else rbind (ring_index (line_count st) num) (\<lambda>ind. rbind (put_at (lines st) ind (jpos st) nul) (\<lambda>ls.
       if line_count st = INT_MAX then Inl (Undefined SignedOverflow)
       else Inr (st\<lparr>lines := ls, line_count := line_count st + 1\<rparr>))))"

definition tail_output :: "int \<Rightarrow> ring \<Rightarrow> string result" where
  "tail_output num st =
     (let count = line_count st; first = max 0 (count - num + 1) in
      rbind (print_lines (lines st) num (nat first) (nat (count - first))) (\<lambda>out.
        Inr ((if count < num then ''Only '' @ dec_int count @ '' lines'' @ [newline] else []) @ out)))"

definition tail_main ::
    "bool \<Rightarrow> (nat \<Rightarrow> bool) \<Rightarrow> (int \<Rightarrow> bool) \<Rightarrow> bool \<Rightarrow> tail_option list \<Rightarrow> nat \<Rightarrow> string list
     \<Rightarrow> string option list \<Rightarrow> string result" where
  "tail_main array_ok buf_ok realloc_ok open_ok opts optind argv reads =
     rbind (tail_options (argv ! 0) 10 opts) (\<lambda>num.
       if optind \<noteq> length argv - 1 then Inl (stop_with (argv ! 0 @ '' [-n num] file'' @ [newline]))
       else rbind (alloc_lines array_ok buf_ok num) (\<lambda>ls.
         if \<not> open_ok then Inl (stop_with ''open'')
         else rbind (tail_reads realloc_ok num reads \<lparr>lines = ls, line_count = 0, jpos = 0\<rparr>) (\<lambda>st.
           rbind (finish_last num st) (tail_output num))))"

section \<open>What the lines of a file are\<close>

definition line_state :: "string \<Rightarrow> string list \<times> string" where
  "line_state bs = foldl (\<lambda>(ls, p) c. if c = newline then (ls @ [p], []) else (ls, p @ [c])) ([], []) bs"

definition text_lines :: "string \<Rightarrow> string list" where
  "text_lines bs = (let (ls, p) = line_state bs in if p = [] then ls else ls @ [p])"

lemma line_state_simps:
  "line_state [] = ([], [])"
  "line_state (bs @ [c]) = (let (ls, p) = line_state bs in
     if c = newline then (ls @ [p], []) else (ls, p @ [c]))"
  by (simp_all add: line_state_def split: prod.split)

lemma line_state_length:
  "line_state bs = (ls, p) \<Longrightarrow> length ls + length p \<le> length bs"
proof (induction bs arbitrary: ls p rule: rev_induct)
  case (snoc c bs)
  then show ?case by (force simp: line_state_simps split: prod.splits if_splits)
qed (simp add: line_state_simps)

section \<open>The invariant of the ring\<close>

definition sized :: "nat \<Rightarrow> line \<Rightarrow> bool" where
  "sized m l \<longleftrightarrow> lsize l = int (length (lbuf l)) \<and> 0 < length (lbuf l) \<and> length (lbuf l) \<le> max 512 (2 * m)"

text \<open>A buffer that holds a terminated line.\<close>

definition holds_line :: "line \<Rightarrow> string \<Rightarrow> bool" where
  "holds_line l s \<longleftrightarrow> take (Suc (length s)) (lbuf l) = map Some (s @ [nul])"

definition slots :: "nat \<Rightarrow> nat \<Rightarrow> line list \<Rightarrow> string list \<Rightarrow> bool" where
  "slots n k xs ls \<longleftrightarrow> (\<forall>i<length ls. k < i + n \<longrightarrow> holds_line (xs ! (i mod n)) (ls ! i))"

definition ring_inv :: "nat \<Rightarrow> string \<Rightarrow> ring \<Rightarrow> bool" where
  "ring_inv n bs st \<longleftrightarrow> (\<exists>ls p xs. line_state bs = (ls, p) \<and> lines st = Some xs \<and> length xs = n \<and>
     line_count st = int (length ls) \<and> jpos st = length p \<and> (\<forall>l\<in>set xs. sized (length bs) l) \<and>
     length p < length (lbuf (xs ! (length ls mod n))) \<and>
     take (length p) (lbuf (xs ! (length ls mod n))) = map Some p \<and> slots n (length ls) xs ls)"

lemma sized_mono: "sized m l \<Longrightarrow> m \<le> m' \<Longrightarrow> sized m' l"
  by (auto simp: sized_def)

lemma other_slot:
  assumes "i < k" and "k < i + n"
  shows "i mod n \<noteq> k mod (n::nat)"
proof
  assume "i mod n = k mod n"
  then have "n dvd k - i" by (metis mod_eq_dvd_iff_nat assms(1) less_imp_le)
  then have "n \<le> k - i" using assms(1) by (intro dvd_imp_le) auto
  then show False using assms by simp
qed

lemma slots_update:
  assumes "slots n (length ls) xs ls" and "length xs = n" "0 < n"
  shows "slots n (length ls) (xs[length ls mod n := l]) ls"
  unfolding slots_def
proof (intro allI impI)
  fix i assume i: "i < length ls" "length ls < i + n"
  then have "xs[length ls mod n := l] ! (i mod n) = xs ! (i mod n)"
    using other_slot[OF i] by simp
  then show "holds_line (xs[length ls mod n := l] ! (i mod n)) (ls ! i)"
    using assms(1) i by (simp add: slots_def)
qed

lemma slots_snoc:
  assumes "slots n (length ls) xs ls" and "holds_line (xs ! (length ls mod n)) p"
  shows "slots n (Suc (length ls)) xs (ls @ [p])"
  using assms by (auto simp: slots_def nth_append less_Suc_eq)

lemma put_next:
  assumes "take j b = map Some p" and "j = length p" and "j < length b"
  shows "take (Suc j) (b[j := Some c]) = map Some (p @ [c])"
  using assms by (simp add: take_Suc_conv_app_nth)

lemma tail_byte_inv:
  assumes inv: "ring_inv n bs st" and n: "0 < n" and small: "length bs < 1073741823"
    and ok: "\<And>sz. realloc_ok sz"
  shows "\<exists>st'. tail_byte realloc_ok (int n) c st = Inr st' \<and> ring_inv n (bs @ [c]) st'"
proof -
  obtain ls p xs where st: "line_state bs = (ls, p)" "lines st = Some xs" "length xs = n"
    "line_count st = int (length ls)" "jpos st = length p" "\<forall>l\<in>set xs. sized (length bs) l"
    "length p < length (lbuf (xs ! (length ls mod n)))"
    "take (length p) (lbuf (xs ! (length ls mod n))) = map Some p" "slots n (length ls) xs ls"
    using inv by (auto simp: ring_inv_def)
  let ?i = "length ls mod n" and ?j = "length p"
  let ?l = "xs ! ?i"
  have i: "?i < length xs" using n st(3) by simp
  have ring: "ring_index (line_count st) (int n) = Inr ?i"
    using n st(4) by (simp add: ring_index_def zmod_int [symmetric])
  have len: "length ls + ?j \<le> length bs" using line_state_length[OF st(1)] .
  have lsz: "sized (length bs) ?l" using st(6) i by simp
  have put: "put_at (lines st) ?i ?j d = Inr (Some (xs[?i := ?l\<lparr>lbuf := (lbuf ?l)[?j := Some d]\<rparr>]))" for d
    using i st(2,7) lsz by (auto simp: put_at_def line_at_def put_def sized_def)
  show ?thesis
  proof (cases "c = newline")
    case True
    let ?l' = "?l\<lparr>lbuf := (lbuf ?l)[?j := Some nul]\<rparr>"
    let ?xs = "xs[?i := ?l']"
    have sz: "\<forall>l\<in>set ?xs. sized (length bs) l"
      using st(6) lsz set_update_subset_insert[of xs ?i ?l'] by (fastforce simp: sized_def)
    have "line_count st < INT_MAX" using st(4) len small by simp
    moreover have "grow realloc_ok (Some ?xs) ?i 0 = Inr (Some ?xs)"
      using i lsz by (auto simp: grow_def line_at_def sized_def)
    ultimately have run: "tail_byte realloc_ok (int n) c st =
        Inr \<lparr>lines = Some ?xs, line_count = int (length (ls @ [p])), jpos = 0\<rparr>"
      using True ring put st(4,5) by (simp add: tail_byte_def)
    have "holds_line ?l' p"
      using put_next[OF st(8) refl st(7), of nul] by (simp add: holds_line_def)
    then have "slots n (length (ls @ [p])) ?xs (ls @ [p])"
      using slots_snoc[OF slots_update[OF st(9,3) n, of ?l'], of p] i by simp
    moreover have "0 < length (lbuf (?xs ! (length (ls @ [p]) mod n)))"
    proof -
      have "?xs ! (length (ls @ [p]) mod n) \<in> set ?xs" using n st(3) by (intro nth_mem) simp
      then show ?thesis using sz by (auto simp: sized_def)
    qed
    moreover have "\<forall>l\<in>set ?xs. sized (length (bs @ [c])) l" using sz sized_mono by fastforce
    moreover have "line_state (bs @ [c]) = (ls @ [p], [])" using True st(1) by (simp add: line_state_simps)
    ultimately have "ring_inv n (bs @ [c]) \<lparr>lines = Some ?xs, line_count = int (length (ls @ [p])), jpos = 0\<rparr>"
      unfolding ring_inv_def using st(3)
      by (intro exI[of _ "ls @ [p]"] exI[of _ "[]"] exI[of _ ?xs]) simp
    then show ?thesis using run by blast
  next
    case False
    let ?l' = "?l\<lparr>lbuf := (lbuf ?l)[?j := Some c]\<rparr>"
    let ?g = "\<lparr>lbuf = lbuf ?l' @ replicate (nat (lsize ?l' * 2) - length (lbuf ?l')) None, lsize = lsize ?l' * 2\<rparr>"
    define l2 where "l2 = (if int (Suc ?j) = lsize ?l' then ?g else ?l')"
    let ?ys = "xs[?i := l2]"
    have bound: "lsize ?l' * 2 \<le> INT_MAX" if "int (Suc ?j) = lsize ?l'"
      using that len small by simp
    have "grow realloc_ok (Some (xs[?i := ?l'])) ?i (Suc ?j) = Inr (Some ?ys)"
      using i bound ok by (auto simp: grow_def line_at_def l2_def)
    then have run: "tail_byte realloc_ok (int n) c st =
        Inr \<lparr>lines = Some ?ys, line_count = int (length ls), jpos = Suc ?j\<rparr>"
      using False ring put st(4,5) by (simp add: tail_byte_def)
    have l2: "sized (Suc (length bs)) l2" "Suc ?j < length (lbuf l2)"
      "take (Suc ?j) (lbuf l2) = map Some (p @ [c])"
      using lsz len st(7) put_next[OF st(8) refl st(7), of c] by (auto simp: l2_def sized_def)
    have "\<forall>l\<in>set ?ys. sized (length (bs @ [c])) l"
      using st(6) sized_mono l2(1) set_update_subset_insert[of xs ?i l2] by fastforce
    moreover have "slots n (length ls) ?ys ls" by (rule slots_update[OF st(9,3) n])
    moreover have "line_state (bs @ [c]) = (ls, p @ [c])" using False st(1) by (simp add: line_state_simps)
    ultimately have "ring_inv n (bs @ [c]) \<lparr>lines = Some ?ys, line_count = int (length ls), jpos = Suc ?j\<rparr>"
      unfolding ring_inv_def using st(3) i l2(2,3)
      by (intro exI[of _ ls] exI[of _ "p @ [c]"] exI[of _ ?ys]) simp
    then show ?thesis using run by blast
  qed
qed

section \<open>The run\<close>

lemma tail_bytes_inv:
  assumes "ring_inv n bs st" and "0 < n" and "length bs + length cs < 1073741824"
  shows "\<exists>st'. tail_bytes (\<lambda>_. True) (int n) cs st = Inr st' \<and> ring_inv n (bs @ cs) st'"
  using assms
proof (induction cs arbitrary: bs st)
  case (Cons c cs)
  obtain st1 where "tail_byte (\<lambda>_. True) (int n) c st = Inr st1" "ring_inv n (bs @ [c]) st1"
    using tail_byte_inv[OF Cons.prems(1,2), of "\<lambda>_. True" c] Cons.prems(3) by auto
  then show ?case using Cons.IH[of "bs @ [c]" st1] Cons.prems by simp
qed simp

lemma tail_reads_inv:
  assumes "ring_inv n bs st" and "0 < n" and "length bs + length (concat chunks) < 1073741824"
    and "[] \<notin> set chunks"
  shows "\<exists>st'. tail_reads (\<lambda>_. True) (int n) (map Some chunks) st = Inr st' \<and>
    ring_inv n (bs @ concat chunks) st'"
  using assms
proof (induction chunks arbitrary: bs st)
  case (Cons b chunks)
  obtain st1 where "tail_bytes (\<lambda>_. True) (int n) b st = Inr st1" "ring_inv n (bs @ b) st1"
    using tail_bytes_inv[OF Cons.prems(1,2), of b] Cons.prems(3) by auto
  then show ?case using Cons.IH[of "bs @ b" st1] Cons.prems by auto
qed simp

lemma ring_start:
  assumes "0 < n"
  shows "ring_inv n [] \<lparr>lines = Some (map (\<lambda>i. new_line True) [0..<n]), line_count = 0, jpos = 0\<rparr>"
  using assms by (simp add: ring_inv_def line_state_simps new_line_def sized_def slots_def)

lemma finish_last_inv:
  assumes "ring_inv n bs st" and "0 < n" and "length bs < 1073741824"
  shows "\<exists>st' xs. finish_last (int n) st = Inr st' \<and> lines st' = Some xs \<and> length xs = n \<and>
    line_count st' = int (length (text_lines bs)) \<and> slots n (length (text_lines bs)) xs (text_lines bs)"
proof -
  obtain ls p xs where st: "line_state bs = (ls, p)" "lines st = Some xs" "length xs = n"
    "line_count st = int (length ls)" "jpos st = length p" "\<forall>l\<in>set xs. sized (length bs) l"
    "length p < length (lbuf (xs ! (length ls mod n)))"
    "take (length p) (lbuf (xs ! (length ls mod n))) = map Some p" "slots n (length ls) xs ls"
    using assms(1) by (auto simp: ring_inv_def)
  show ?thesis
  proof (cases "p = []")
    case True
    then show ?thesis using st by (simp add: finish_last_def text_lines_def)
  next
    case False
    let ?i = "length ls mod n"
    let ?l = "(xs ! ?i)\<lparr>lbuf := (lbuf (xs ! ?i))[length p := Some nul]\<rparr>"
    have i: "?i < length xs" using assms(2) st(3) by simp
    have "ring_index (line_count st) (int n) = Inr ?i"
      using assms(2) st(4) by (simp add: ring_index_def zmod_int [symmetric])
    moreover have "put_at (lines st) ?i (length p) nul = Inr (Some (xs[?i := ?l]))"
      using i st(2,7) by (auto simp: put_at_def line_at_def put_def)
    moreover have "line_count st < INT_MAX" using line_state_length[OF st(1)] st(4) assms(3) by simp
    moreover have "slots n (length (ls @ [p])) (xs[?i := ?l]) (ls @ [p])"
    proof -
      have "holds_line ?l p" using put_next[OF st(8) refl st(7), of nul] by (simp add: holds_line_def)
      then show ?thesis using slots_snoc[OF slots_update[OF st(9,3) assms(2), of ?l], of p] i by simp
    qed
    ultimately show ?thesis
      using st(1,3-5) False by (simp add: finish_last_def text_lines_def)
  qed
qed

lemma read_str_line: "holds_line l s \<Longrightarrow> read_str (lbuf l) = Inr (c_str s)"
proof -
  assume "holds_line l s"
  then have b: "lbuf l = map Some s @ Some nul # drop (Suc (length s)) (lbuf l)"
    by (metis append_Cons append_Nil append_assoc append_take_drop_id holds_line_def list.simps(8,9) map_append)
  have "read_str (map Some s @ Some nul # r) = Inr (c_str s)" for r
    by (induction s) (auto simp: c_str_def)
  then show ?thesis using b by metis
qed

lemma print_lines_spec:
  assumes "slots n (length ls) xs ls" and "length xs = n" and "0 < n" and "length ls < i + n"
    and "i + k \<le> length ls"
  shows "print_lines (Some xs) (int n) i k = Inr (concat (map (\<lambda>l. c_str l @ [newline]) (take k (drop i ls))))"
  using assms(4,5)
proof (induction k arbitrary: i)
  case (Suc k)
  have "i mod n < length xs" "ring_index (int i) (int n) = Inr (i mod n)"
    using assms(2,3) by (simp_all add: ring_index_def zmod_int [symmetric])
  moreover have "read_str (lbuf (xs ! (i mod n))) = Inr (c_str (ls ! i))"
    using assms(1) Suc.prems by (intro read_str_line) (simp add: slots_def)
  moreover have "take (Suc k) (drop i ls) = ls ! i # take k (drop (Suc i) ls)"
    using Suc.prems by (metis Cons_nth_drop_Suc Suc_le_lessD add_Suc_right le_add1 le_trans take_Suc_Cons not_less_eq_eq order_le_less_trans)
  ultimately show ?case using Suc.IH[of "Suc i"] Suc.prems by (simp add: line_at_def)
qed simp

lemma tail_output_of:
  assumes "slots n (length ls) xs ls" and "length xs = n" and "0 < n"
    and "lines st = Some xs" and "line_count st = int (length ls)"
  shows "tail_output (int n) st = Inr
    ((if length ls < n then ''Only '' @ dec_nat (length ls) @ '' lines'' @ [newline] else []) @
     concat (map (\<lambda>l. c_str l @ [newline]) (drop (Suc (length ls) - n) ls)))"
proof -
  let ?f = "Suc (length ls) - n"
  have f: "nat (max 0 (line_count st - int n + 1)) = ?f" using assms(5) by simp
  have k: "nat (line_count st - max 0 (line_count st - int n + 1)) = length ls - ?f"
    using assms(3,5) by (simp add: max_def) linarith
  have "print_lines (Some xs) (int n) ?f (length ls - ?f) =
      Inr (concat (map (\<lambda>l. c_str l @ [newline]) (drop ?f ls)))"
    using print_lines_spec[OF assms(1-3), of ?f "length ls - ?f"] assms(3) by (simp add: le_diff_conv)
  then show ?thesis unfolding tail_output_def Let_def f k
    using assms(4,5) by (simp add: dec_int_def)
qed

text \<open>C14: with a positive count \<open>n\<close>, enough memory and any file of less than \<open>2 ^ 30\<close> bytes, in whatever pieces \<open>read\<close> delivers it, the
  program stays inside its buffers and prints a note when the file has fewer than \<open>n\<close> lines, and then
  the last \<open>n - 1\<close> lines: one fewer than asked for.  A line with a zero byte is cut there.\<close>

theorem tail_shows_one_less:
  assumes "tail_options (argv ! 0) 10 opts = Inr (int n)" and "0 < n" and "optind = length argv - 1"
    and "[] \<notin> set chunks" and "length (concat chunks) < 1073741824"
  shows "tail_main True (\<lambda>_. True) (\<lambda>_. True) True opts optind argv (map Some chunks) = Inr
    (let ls = text_lines (concat chunks) in
     (if length ls < n then ''Only '' @ dec_nat (length ls) @ '' lines'' @ [newline] else []) @
     concat (map (\<lambda>l. c_str l @ [newline]) (drop (length ls - (n - 1)) ls)))"
proof -
  let ?start = "\<lparr>lines = Some (map (\<lambda>i. new_line True) [0..<n]), line_count = 0, jpos = 0\<rparr>"
  obtain st1 where st1: "tail_reads (\<lambda>_. True) (int n) (map Some chunks) ?start = Inr st1"
    "ring_inv n (concat chunks) st1"
    using tail_reads_inv[OF ring_start[OF assms(2)] assms(2), of chunks] assms(4,5) by auto
  obtain st2 xs where st2: "finish_last (int n) st1 = Inr st2" "lines st2 = Some xs" "length xs = n"
    "line_count st2 = int (length (text_lines (concat chunks)))"
    "slots n (length (text_lines (concat chunks))) xs (text_lines (concat chunks))"
    using finish_last_inv[OF st1(2) assms(2,5)] by blast
  have d: "Suc m - n = m - (n - 1)" for m using assms(2) by simp
  have a: "alloc_lines True (\<lambda>_. True) (int n) = Inr (lines ?start)" by (simp add: alloc_lines_def)
  have o: "\<not> (optind \<noteq> length argv - 1)" using assms(3) by simp
  show ?thesis
    unfolding tail_main_def assms(1) rbind_simps if_not_P[OF o] a ring.simps
    using st1(1) st2(1) tail_output_of[OF st2(5,3) assms(2) st2(2,4)] d by (simp add: Let_def)
qed

theorem tail_shows_one_less_witness:
  "tail_main True (\<lambda>_. True) (\<lambda>_. True) True [Opt_n ''2''] 3 [''tail'', ''-n'', ''2'', ''f'']
     [Some (''a'' @ [newline] @ ''b''), Some ([newline] @ ''c'')] = Inr (''c'' @ [newline])"
proof -
  have "tail_options ([''tail'', ''-n'', ''2'', ''f''] ! 0) 10 [Opt_n ''2''] = Inr (int 2)"
    by (simp add: atoi_def strtol_eval)
  from tail_shows_one_less[OF this, of 3 "[''a'' @ [newline] @ ''b'', [newline] @ ''c'']"]
  show ?thesis by (simp add: text_lines_def line_state_def c_str_def)
qed

text \<open>A count of zero makes the first byte of the file divide by zero, and a negative count makes
  it write through the null pointer that \<open>malloc\<close> returns for the huge size.\<close>

lemma tail_bad_counts:
  "tail_main array_ok buf_ok realloc_ok True [Opt_n (dec_int num)] (length argv - 1) argv
     (Some (c # cs) # reads) =
   (if num = 0 then Inl (Undefined DivByZero) else Inl (Undefined NullDeref))"
  if "num \<le> 0" and "- 2147483648 \<le> num"
  using that
  by (auto simp: tail_main_def atoi_dec_int alloc_lines_def tail_byte_def ring_index_def put_at_def
      line_at_def)

end
