(* ===== verification/My_Malloc.thy ===== *)
theory My_Malloc
  imports Error_Functions
begin

text \<open>
  \<open>7-2-my_malloc_free.c\<close>: an allocator over \<open>sbrk\<close> with boundary tags.  Memory is a function from
  byte addresses to the 32-bit words stored there, zero where nothing was stored, as fresh pages are;
  only words inside the data segment can be accessed.  The kernel maps whole pages, so \<open>slack\<close> bytes
  behind the program break are accessible too.  Whether the \<open>n\<close>-th \<open>sbrk\<close> succeeds is an argument.
\<close>

section \<open>Memory\<close>

record heap =
  mem :: "int \<Rightarrow> 32 word"
  seg_start :: int
  brk :: int
  slack :: int
  sbrk_ok :: "nat \<Rightarrow> bool"
  sbrk_calls :: nat
  free_list :: int          \<comment> \<open>0 is the null pointer\<close>
  list_end :: int

definition accessible :: "heap \<Rightarrow> int \<Rightarrow> stop option" where
  "accessible h p = (if p < seg_start h \<or> brk h + slack h < p + 4 then Some (Undefined OutOfBounds)
     else if p mod 4 \<noteq> 0 then Some (Undefined Misaligned) else None)"

definition get_word :: "heap \<Rightarrow> int \<Rightarrow> 32 word result" where
  "get_word h p = (case accessible h p of Some e \<Rightarrow> Inl e | None \<Rightarrow> Inr (mem h p))"

section \<open>The macros\<close>

definition CHUNK_SIZE :: int where "CHUNK_SIZE = 4096"
definition WSIZE :: int where "WSIZE = 4"
definition DSIZE :: int where "DSIZE = 8"

definition PACK :: "32 word \<Rightarrow> 32 word \<Rightarrow> 32 word" where "PACK sz alloc = sz OR alloc"

definition PUT :: "int \<Rightarrow> 32 word \<Rightarrow> heap \<Rightarrow> heap result" where
  "PUT p v h = (case accessible h p of Some e \<Rightarrow> Inl e | None \<Rightarrow> Inr (h\<lparr>mem := (mem h)(p := v)\<rparr>))"

definition GET_SIZE :: "heap \<Rightarrow> int \<Rightarrow> 32 word result" where
  "GET_SIZE h p = rbind (get_word h p) (\<lambda>w. Inr (w AND NOT 7))"

definition GET_ALLOC :: "heap \<Rightarrow> int \<Rightarrow> 32 word result" where
  "GET_ALLOC h p = rbind (get_word h p) (\<lambda>w. Inr (w AND 1))"

definition HDRP :: "int \<Rightarrow> int" where "HDRP p = p - WSIZE"

definition FTRP :: "heap \<Rightarrow> int \<Rightarrow> int result" where
  "FTRP h p = rbind (GET_SIZE h (HDRP p)) (\<lambda>s. Inr (p + uint s - DSIZE))"

definition NEXT_BLKP :: "heap \<Rightarrow> int \<Rightarrow> int result" where
  "NEXT_BLKP h p = rbind (GET_SIZE h (p - WSIZE)) (\<lambda>s. Inr (p + uint s))"

definition PREV_BLKP :: "heap \<Rightarrow> int \<Rightarrow> int result" where
  "PREV_BLKP h p = rbind (GET_SIZE h (p - DSIZE)) (\<lambda>s. Inr (p - uint s))"

text \<open>The two stores \<open>PUT(HDRP(p), v); PUT(FTRP(p), v)\<close>; the second address depends on the first store.\<close>

definition PUT_TAGS :: "int \<Rightarrow> 32 word \<Rightarrow> heap \<Rightarrow> heap result" where
  "PUT_TAGS p v h = rbind (PUT (HDRP p) v h) (\<lambda>h1. rbind (FTRP h1 p) (\<lambda>f. PUT f v h1))"

section \<open>The allocator\<close>

definition Sbrk :: "int \<Rightarrow> heap \<Rightarrow> (int \<times> heap) result" where
  "Sbrk incr h = (if \<not> sbrk_ok h (sbrk_calls h) then Inl (stop_with ''sbrk'')
     else Inr (brk h, h\<lparr>brk := brk h + incr, sbrk_calls := sbrk_calls h + 1\<rparr>))"

definition mm_init :: "heap \<Rightarrow> heap result" where
  "mm_init h = rbind (Sbrk CHUNK_SIZE h) (\<lambda>(b, h).
     let fl = b + WSIZE; le = fl + CHUNK_SIZE in
     rbind (PUT fl (PACK 8 1) h) (\<lambda>h.
     let fl = fl + WSIZE in
     rbind (PUT fl (PACK 8 1) h) (\<lambda>h.
     rbind (NEXT_BLKP h fl) (\<lambda>n.
     rbind (PUT (HDRP n) (PACK (4096 - 16) 1) h) (\<lambda>h.
     rbind (NEXT_BLKP h fl) (\<lambda>n.
     rbind (FTRP h n) (\<lambda>f.
     rbind (PUT f (PACK (4096 - 16) 1) h) (\<lambda>h.
     rbind (PUT (HDRP le) (PACK 0 1) h) (\<lambda>h.
       Inr (h\<lparr>free_list := fl, list_end := le\<rparr>))))))))))"

definition new_chunk :: "heap \<Rightarrow> (int \<times> heap) result" where
  "new_chunk h = rbind (Sbrk CHUNK_SIZE h) (\<lambda>(_, h).
     rbind (GET_ALLOC h (HDRP (list_end h))) (\<lambda>a.
     rbind (if a \<noteq> 0
        then rbind (PUT_TAGS (list_end h) (PACK 4096 0) h) (\<lambda>h.
          rbind (NEXT_BLKP h (list_end h)) (\<lambda>e. Inr (h\<lparr>list_end := e\<rparr>)))
        else rbind (PREV_BLKP h (list_end h)) (\<lambda>p. rbind (GET_SIZE h (HDRP p)) (\<lambda>s.
          rbind (PUT_TAGS p (PACK (4096 + s) 0) h) (\<lambda>h.
          rbind (NEXT_BLKP h p) (\<lambda>e. Inr (h\<lparr>list_end := e\<rparr>))))))
     (\<lambda>h. rbind (PUT (HDRP (list_end h)) (PACK 0 1) h) (\<lambda>h.
       rbind (PREV_BLKP h (list_end h)) (\<lambda>p. Inr (p, h))))))"

partial_function (option) fit_loop :: "64 word \<Rightarrow> heap \<Rightarrow> int \<Rightarrow> (int \<times> heap) result option" where
  "fit_loop sz h p =
     (if p = list_end h then Some (new_chunk h)
      else obind (Some (rbind (GET_ALLOC h (HDRP p)) (\<lambda>a. rbind (GET_SIZE h (HDRP p)) (\<lambda>s.
             Inr (a \<noteq> 0 \<and> sz \<le> ucast s)))))
        (\<lambda>fits. if fits then Some (Inr (p, h))
                else obind (Some (NEXT_BLKP h p)) (\<lambda>n. fit_loop sz h n)))"

definition first_fit :: "64 word \<Rightarrow> heap \<Rightarrow> (int \<times> heap) result option" where
  "first_fit sz h = obind (Some (NEXT_BLKP h (free_list h))) (\<lambda>p. fit_loop sz h p)"

definition real_size :: "64 word \<Rightarrow> 64 word" where
  "real_size sz = (if sz \<le> 8 then 8 + ((sz + (8 - 1)) div 8) * 8 else 8)"

definition my_malloc :: "64 word \<Rightarrow> heap \<Rightarrow> (int \<times> heap) result option" where
  "my_malloc sz h0 = obind (if free_list h0 = 0 then Some (mm_init h0) else Some (Inr h0)) (\<lambda>h.
     if sz = 0 then Some (Inr (0, h))
     else obind (first_fit (real_size sz) h) (\<lambda>(blk, h).
       Some (rbind (GET_SIZE h (HDRP blk)) (\<lambda>blk_size.
         if real_size sz < ucast blk_size
         then rbind (PUT_TAGS blk (PACK (ucast (real_size sz)) 1) h) (\<lambda>h.
           rbind (NEXT_BLKP h blk) (\<lambda>next.
           rbind (PUT_TAGS next (PACK (blk_size - ucast (real_size sz)) 0) h) (\<lambda>h. Inr (blk, h))))
         else Inr (blk, h)))))"

definition my_free :: "int \<Rightarrow> heap \<Rightarrow> heap result" where
  "my_free ptr h = rbind (PREV_BLKP h ptr) (\<lambda>prev. rbind (NEXT_BLKP h ptr) (\<lambda>next.
     rbind (GET_SIZE h ptr) (\<lambda>s. rbind (GET_ALLOC h (HDRP ptr)) (\<lambda>a.
     rbind (if a = 0 then rbind (GET_SIZE h (HDRP prev)) (\<lambda>ps. Inr (prev, ucast s + ucast ps))
            else Inr (ptr, ucast s :: 64 word)) (\<lambda>(blk, sz).
     rbind (if a = 0 then rbind (GET_SIZE h (HDRP next)) (\<lambda>ns. Inr (sz + ucast ns)) else Inr sz) (\<lambda>sz.
       PUT_TAGS blk (PACK (ucast sz) 0) h))))))"

section \<open>The first calls\<close>

text \<open>The tag words that occur, evaluated.\<close>

lemma tag_words: "PACK 8 1 = 9" "(9::32 word) AND - 8 = 8" "(9::32 word) AND 1 = 1"
  "PACK 4080 1 = 4081" "(4081::32 word) AND - 8 = 4080" "(4081 :: 32 word) AND 1 = 1"
  "PACK 0 1 = 1"  "(1 :: 32 word) AND - 8 = 0" "PACK 16 1 = 17" "(17::32 word) AND - 8 = 16" "(17::32 word) AND 1 = 1"
  "PACK 8 0 = 8" "(8::32 word) AND -8 = 8" "PACK 4064 0 = 4064" "PACK 4072 0 = 4072" "(4064::32 word) AND -8 = 4064"  "(4072::32 word) AND -8 = 4072" "(4064::32 word) AND 1 = 0"  "(4072::32 word) AND 1 = 0"
   by (simp_all add: PACK_def)

definition fresh_heap :: "int \<Rightarrow> int \<Rightarrow> heap" where
  "fresh_heap b k = \<lparr>mem = (\<lambda>_. 0), seg_start = b, brk = b, slack = k, sbrk_ok = (\<lambda>_. True), sbrk_calls = 0,
     free_list = 0, list_end = 0\<rparr>"

lemmas macro_defs = HDRP_def FTRP_def NEXT_BLKP_def PREV_BLKP_def GET_SIZE_def GET_ALLOC_def get_word_def
  PUT_def PUT_TAGS_def accessible_def CHUNK_SIZE_def WSIZE_def DSIZE_def

lemma mod4: "(b::int) mod 4 = 0 \<Longrightarrow> (b + numeral n) mod 4 = numeral n mod 4"
  "(b::int) mod 4 = 0 \<Longrightarrow> (numeral n + b) mod 4 = numeral n mod 4"
  by (metis add_0 mod_add_left_eq, metis add_0_right mod_add_right_eq)

definition after_init :: "int \<Rightarrow> int \<Rightarrow> heap" where
  "after_init b k = (fresh_heap b k)\<lparr>mem := (\<lambda>_. 0)(b + 4 := 9, b + 8 := 9, b + 12 := 4081, b + 4088 := 4081, b + 4096 := 1),
      brk := b + 4096, sbrk_calls := 1, free_list := b + 8, list_end := b + 4100\<rparr>"

lemma mm_init_cases:
  assumes "0 < b" "b mod 4 = 0" "0 \<le> k"
  shows "mm_init (fresh_heap b k) = (if k < 4 then Inl (Undefined OutOfBounds) else Inr (after_init b k))"
  using assms
  by (simp add: mm_init_def Sbrk_def fresh_heap_def after_init_def macro_defs tag_words mod4 Let_def)
   (simp add: add.commute)

lemma real_size_small: "0 < sz \<Longrightarrow> sz \<le> 8 \<Longrightarrow> real_size sz = 16"
proof -
  assume a: "0 < sz" "sz \<le> 8"
  then have "unat sz \<le> 8" "0 < unat sz" by (simp_all add: word_le_nat_alt word_less_nat_alt unat_gt_0)
  then have "unat (sz + 7) = unat sz + 7" by (subst unat_add_lem[THEN iffD1]) simp_all
  then have "unat ((sz + 7) div 8) = (unat sz + 7) div 8" by (simp add: unat_div)
  also have "\<dots> = 1" using \<open>unat sz \<le> 8\<close> \<open>0 < unat sz\<close> by simp
  finally have "(sz + 7) div 8 = 1" by (metis unat_1 word_unat_eq_iff)
  then show ?thesis using a(2) by (simp add: real_size_def)
qed

lemma real_size_large: "8 < sz \<Longrightarrow> real_size sz = 8"
  by (auto simp: real_size_def dest: leD)


lemma fit_first:
  assumes "0 < b" "b mod 4 = 0" "4 \<le> k" "sz \<le> 4080"
  shows "first_fit sz (after_init b k) = Some (Inr (b + 16, after_init b k))"
  using assms
  by (simp add: first_fit_def macro_defs after_init_def fresh_heap_def mod4 tag_words fit_loop.simps)


definition split_heap :: "int \<Rightarrow> int \<Rightarrow> int \<Rightarrow> 32 word \<Rightarrow> 32 word \<Rightarrow> heap" where
  "split_heap b k r tag rest = (after_init b k)\<lparr>mem := (\<lambda>_. 0)(b + 4 := 9, b + 8 := 9, b + 12 := tag,
     b + 8 + r := tag, b + 12 + r := rest, b + 4088 := rest, b + 4096 := 1)\<rparr>"

lemma split_steps:
  assumes "0 < b" "b mod 4 = 0" "4 \<le> k" "sz = 16 \<and> tag = 17 \<and> rest = 4064 \<or> sz = 8 \<and> tag = 9 \<and> rest = 4072"
  shows "rbind (PUT_TAGS (b + 16) tag (after_init b k)) (\<lambda>h.
      rbind (NEXT_BLKP h (b + 16)) (\<lambda>next. rbind (PUT_TAGS next rest h) (\<lambda>h. Inr (b + 16, h)))) =
    Inr (b + 16, split_heap b k sz tag rest)"
  using assms(4)
proof 
  assume "sz = 16 \<and> tag = 17 \<and> rest = 4064"
  then show ?thesis using assms(1-3)
    by (simp add: macro_defs tag_words after_init_def fresh_heap_def split_heap_def mod4) (simp add: fun_eq_iff)
next
  assume "sz = 8 \<and> tag = 9 \<and> rest = 4072"
  then show ?thesis using assms(1-3)
    by (simp add: macro_defs tag_words after_init_def fresh_heap_def split_heap_def mod4) (simp add: fun_eq_iff)
qed

lemma real_size_cases: "0 < s \<Longrightarrow> s \<le> 8 \<and> real_size s = 16 \<or> \<not> s \<le> 8 \<and> real_size s = 8"
  by (cases "s \<le> 8") (simp_all add: real_size_small real_size_large not_le)

text \<open>The block and the remainder that the first call makes of the initial block of 4080 bytes.\<close>

definition first_heap :: "int \<Rightarrow> int \<Rightarrow> 64 word \<Rightarrow> heap" where
  "first_heap b k sz = (if sz \<le> 8 then split_heap b k 16 17 4064 else split_heap b k 8 9 4072)"

lemma malloc_first:
  assumes "0 < b" "b mod 4 = 0" "4 \<le> k" "0 < sz"
  shows "my_malloc sz (fresh_heap b k) = Some (Inr (b + 16, first_heap b k sz))"
proof -
  have i: "mm_init (fresh_heap b k) = Inr (after_init b k)" using mm_init_cases[of b k] assms by simp
  have f: "free_list (fresh_heap b k) = 0" by (simp add: fresh_heap_def)
  have g: "GET_SIZE (after_init b k) (HDRP (b + 16)) = Inr 4080"
    using assms by (simp add: macro_defs after_init_def fresh_heap_def mod4 tag_words)
  have nz: "sz \<noteq> 0" using assms(4) by auto
  from real_size_cases[OF assms(4)] show ?thesis
  proof
    assume r: "sz \<le> 8 \<and> real_size sz = 16"
    show ?thesis
      unfolding my_malloc_def f i
      using r nz fit_first[OF assms(1-3), of 16] g split_steps[OF assms(1-3), of 16 17 4064]
      by (simp add: first_heap_def tag_words)
  next
    assume r: "\<not> sz \<le> 8 \<and> real_size sz = 8"
    show ?thesis
      unfolding my_malloc_def f i
      using r nz fit_first[OF assms(1-3), of 8] g split_steps[OF assms(1-3), of 8 9 4072]
      by (simp add: first_heap_def tag_words)
  qed
qed

lemma first_heap_simps:
  assumes "0 < b" "b mod 4 = 0" "4 \<le> k"
  shows "NEXT_BLKP (first_heap b k sz) (b + 8) = Inr (b + 16)" "free_list (first_heap b k sz) = b + 8"
    "list_end (first_heap b k sz) = b + 4100"
  using assms
  by (simp_all add: first_heap_def split_heap_def after_init_def fresh_heap_def macro_defs mod4 tag_words)

lemma fit_again:
  assumes "0 < b" "b mod 4 = 0" "4 \<le> k" "0 < sz" "rs \<le> real_size sz"
  shows "first_fit rs (first_heap b k sz) = Some (Inr (b + 16, first_heap b k sz))"
proof -
  let ?h = "first_heap b k sz"
  note n = first_heap_simps[OF assms(1-3), of sz]
  have "GET_ALLOC ?h (HDRP (b + 16)) = Inr 1" "GET_SIZE ?h (HDRP (b + 16)) = Inr (ucast (real_size sz))"
    using assms(1-3) real_size_cases[OF assms(4)]
    by (auto simp: first_heap_def split_heap_def after_init_def fresh_heap_def macro_defs mod4 tag_words)
  moreover have "ucast (ucast (real_size sz) :: 32 word) = real_size sz"
    using real_size_cases[OF assms(4)] by auto
  moreover have "first_fit rs ?h = fit_loop rs ?h (b + 16)" by (simp add: first_fit_def n)
  ultimately show ?thesis using assms(5) by (subst (asm) fit_loop.simps) (simp add: n)
qed

lemma malloc_second:
  assumes "0 < b" "b mod 4 = 0" "4 \<le> k" "0 < sz'" "real_size sz' \<le> real_size sz" "0 < sz"
  shows "\<exists>h. my_malloc sz' (first_heap b k sz) = Some (Inr (b + 16, h))"
proof -
  let ?h = "first_heap b k sz"
  have n: "free_list ?h \<noteq> 0" "sz' \<noteq> 0" using assms(1,4) first_heap_simps[OF assms(1-3), of sz] by auto
  have g: "GET_SIZE ?h (HDRP (b + 16)) = Inr (if sz \<le> 8 then 16 else 8)"
    using assms(1-3)
    by (simp add: first_heap_def split_heap_def after_init_def fresh_heap_def macro_defs mod4 tag_words)
  consider "real_size sz' = real_size sz" | "real_size sz' = 8" "sz \<le> 8"
    using real_size_cases[OF assms(4)] real_size_cases[OF assms(6)] assms(5) by auto
  then show ?thesis
  proof cases
    case 1
    then show ?thesis using n g fit_again[OF assms(1-3,6), of "real_size sz'"] assms(5) real_size_cases[OF assms(6)]
      by (auto simp: my_malloc_def)
  next
    case 2
    have "\<exists>h. rbind (PUT_TAGS (b + 16) 9 ?h) (\<lambda>h. rbind (NEXT_BLKP h (b + 16)) (\<lambda>next.
        rbind (PUT_TAGS next 8 h) (\<lambda>h. Inr (b + 16, h)))) = Inr (b + 16, h)"
      using assms(1-3) 2(2)
      by (simp add: first_heap_def split_heap_def after_init_def fresh_heap_def macro_defs mod4 tag_words)
    then show ?thesis using n g fit_again[OF assms(1-3,6), of "real_size sz'"] assms(5) 2
      by (auto simp: my_malloc_def tag_words simp del: rbind_eq_Inr)
  qed
qed

lemma fit_loop_stuck:
  assumes "fit_loop sz h p = Some r"
  shows "p \<noteq> list_end h \<longrightarrow> GET_ALLOC h (HDRP p) = Inr 0 \<longrightarrow> GET_SIZE h (HDRP p) = Inr 0 \<longrightarrow> False"
proof (rule fit_loop.raw_induct[where P = "\<lambda>sz h p r. p \<noteq> list_end h \<longrightarrow> GET_ALLOC h (HDRP p) = Inr 0 \<longrightarrow>
    GET_SIZE h (HDRP p) = Inr 0 \<longrightarrow> False", OF _ assms], goal_cases)
  case (1 f sz h p r)
  then show ?case by (auto simp: NEXT_BLKP_def HDRP_def)
qed

lemma split_tags:
  assumes "0 < b" "b mod 4 = 0" "4 \<le> k"
  defines "h \<equiv> split_heap b k 8 9 4072"
  shows "GET_ALLOC h (HDRP (b + 16)) = Inr 1" "GET_SIZE h (HDRP (b + 16)) = Inr 8"
    "NEXT_BLKP h (b + 16) = Inr (b + 24)" "GET_ALLOC h (HDRP (b + 24)) = Inr 0"
    "GET_SIZE h (HDRP (b + 24)) = Inr 4072" "NEXT_BLKP h (b + 24) = Inr (b + 4096)"
    "list_end h = b + 4100"
  using assms(1-3)
  by (simp_all add: h_def split_heap_def after_init_def fresh_heap_def macro_defs mod4 tag_words)

lemma malloc_stuck:
  assumes "0 < b" "b mod 4 = 0" "4 \<le> k" "8 < sz" "0 < sz'" "sz' \<le> 8"
  shows "my_malloc sz' (first_heap b k sz) = None"
proof -
  let ?h = "first_heap b k sz"
  have h: "?h = split_heap b k 8 9 4072" using assms(4) by (auto simp: first_heap_def)
  have "fit_loop 16 ?h (b + 4096) = None"
  proof (rule ccontr)
    assume "fit_loop 16 ?h (b + 4096) \<noteq> None"
    then obtain r where "fit_loop 16 ?h (b + 4096) = Some r" by blast
    from fit_loop_stuck[OF this] show False using assms(1-3)
      by (simp add: h split_heap_def after_init_def fresh_heap_def macro_defs mod4)
  qed
  moreover have "first_fit 16 ?h = fit_loop 16 ?h (b + 16)"
    by (simp add: first_fit_def first_heap_simps[OF assms(1-3)])
  moreover note t = split_tags[OF assms(1-3)]
  have "fit_loop 16 ?h (b + 16) = fit_loop 16 ?h (b + 24)"
    by (subst fit_loop.simps) (simp add: h t)
  moreover have "fit_loop 16 ?h (b + 24) = fit_loop 16 ?h (b + 4096)"
    by (subst fit_loop.simps) (simp add: h t)
  moreover have "free_list ?h \<noteq> 0" "sz' \<noteq> 0" using assms(1,5)
    by (auto simp: h split_heap_def after_init_def fresh_heap_def)
  ultimately show ?thesis using real_size_small[OF assms(5,6)] by (simp add: my_malloc_def)
qed

text \<open>C39: the first two allocations, whatever their sizes.  The initialisation writes the guardian's tag at the first word behind
  the segment it got from \<open>sbrk\<close>, so that with a break on a page boundary the first allocation is an access outside memory.
  Where the page goes on behind the break, the second allocation returns the address of the first, because
  the search looks for blocks whose allocated bit is set; unless the first is of more than eight bytes and the second of at most
  eight, when the second never returns: the walk over the blocks passes the end mark, which is not where a block
  ends, and stays on a header that was never written.\<close>

theorem malloc_same_block:
  assumes "0 < b" and "b mod 4 = 0" and "0 \<le> k" and "0 < sz" and "0 < sz'"
  shows "if k < 4 then my_malloc sz (fresh_heap b k) = Some (Inl (Undefined OutOfBounds))
    else \<exists>h1. my_malloc sz (fresh_heap b k) = Some (Inr (b + 16, h1)) \<and>
      (if 8 < sz \<and> sz' \<le> 8 then my_malloc sz' h1 = None else \<exists>h2. my_malloc sz' h1 = Some (Inr (b + 16, h2)))"
proof (cases "k < 4")
  case True
  then show ?thesis using mm_init_cases[OF assms(1-3)]
    by (simp add: my_malloc_def fresh_heap_def)
next
  case False
  then have k: "4 \<le> k" by simp
  have first: "my_malloc sz (fresh_heap b k) = Some (Inr (b + 16, first_heap b k sz))" by (rule malloc_first[OF assms(1,2) k assms(4)])
  have "if 8 < sz \<and> sz' \<le> 8 then my_malloc sz' (first_heap b k sz) = None
      else \<exists>h2. my_malloc sz' (first_heap b k sz) = Some (Inr (b + 16, h2))"
  proof (cases "8 < sz \<and> sz' \<le> 8")
    case True
    then show ?thesis using malloc_stuck[OF assms(1,2) k _ assms(5)] by simp
  next
    case small: False
    then have "real_size sz' \<le> real_size sz"
      using real_size_cases[OF assms(4)] real_size_cases[OF assms(5)] by (auto simp: not_less not_le)
    then show ?thesis unfolding if_not_P[OF small] by (rule malloc_second[OF assms(1,2) k assms(5) _ assms(4)])
  qed
  then show ?thesis using first False by auto
qed

theorem malloc_same_block_witness:
  "my_malloc 5 (fresh_heap 8192 0) = Some (Inl (Undefined OutOfBounds)) \<and>
   (\<exists>h1 h2. my_malloc 8 (fresh_heap 8196 4092) = Some (Inr (8212, h1)) \<and> my_malloc 100 h1 = Some (Inr (8212, h2))) \<and>
   (\<exists>h1. my_malloc 100 (fresh_heap 8196 4092) = Some (Inr (8212, h1)) \<and> my_malloc 8 h1 = None)"
  using malloc_same_block[of 8192 0 5 5] malloc_same_block[of 8196 4092 8 100] malloc_same_block[of 8196 4092 100 8]
  by simp

lemma aligned_size:
  fixes v :: "32 word"
  shows "uint (v AND - 8) mod 8 = 0" and "uint (v AND - 8) mod 4 = 0"
proof -
  have "take_bit 3 (uint (v AND NOT 7)) = 0"
    by (rule bit_eqI) (auto simp: bit_take_bit_iff bit_uint_iff bit_and_iff bit_not_iff less_Suc_eq numeral_eq_Suc)
  then show "uint (v AND - 8) mod 8 = 0" by (simp add: take_bit_eq_mod)
  then show "uint (v AND - 8) mod 4 = 0" by presburger
qed

text \<open>\<open>my_free\<close> takes the size from the caller's data: when the block of a first small allocation
  holds the word \<open>v\<close>, the header written for it says \<open>v\<close> rounded down to a multiple of eight instead
  of 16, and the footer goes to the address computed from it, outside memory if \<open>v\<close> is large.\<close>

lemma free_trusts_data:
  assumes "0 < b" and "b mod 4 = 0" and "4 \<le> k" and "0 < sz" and "sz \<le> 8"
    and "PUT (b + 16) v (first_heap b k sz) = Inr h"
  shows "my_malloc sz (fresh_heap b k) = Some (Inr (b + 16, first_heap b k sz)) \<and>
    (case my_free (b + 16) h of
       Inl e \<Rightarrow> e = Undefined OutOfBounds \<and> 4096 + k < 12 + uint (v AND NOT 7)
     | Inr h' \<Rightarrow> mem h' (HDRP (b + 16)) = v AND NOT 7 \<and>
         mem h' (b + 8 + uint (v AND NOT 7)) = v AND NOT 7)"
proof -
  let ?m = "v AND - 8" and ?h = "split_heap b k 16 17 4064"
  have fh: "first_heap b k sz = ?h" using assms(5) by (simp add: first_heap_def)
  have h: "h = ?h\<lparr>mem := (mem ?h)(b + 16 := v)\<rparr>"
    using assms(6) unfolding fh by (auto simp: PUT_def split: option.splits)
  have tags: "PREV_BLKP h (b + 16) = Inr (b + 8)" "NEXT_BLKP h (b + 16) = Inr (b + 32)"
    "GET_SIZE h (b + 16) = Inr ?m" "GET_ALLOC h (HDRP (b + 16)) = Inr 1"
    using assms(1-3)
    by (simp_all add: h split_heap_def after_init_def fresh_heap_def macro_defs mod4 tag_words)
  have p: "PACK (ucast (ucast ?m :: 64 word)) 0 = ?m"
    by (rule bit_word_eqI) (simp add: PACK_def bit_ucast_iff)
  have "my_free (b + 16) h = PUT_TAGS (b + 16) ?m h"
    by (simp add: my_free_def tags p)
  also have "\<dots> = PUT (b + 8 + uint ?m) ?m (h\<lparr>mem := (mem h)(b + 12 := ?m)\<rparr>)"
  proof -
    have "PUT (b + 12) ?m h = Inr (h\<lparr>mem := (mem h)(b + 12 := ?m)\<rparr>)"
      using assms(1-3) by (simp add: PUT_def h split_heap_def after_init_def fresh_heap_def accessible_def mod4)
    moreover have "FTRP (h\<lparr>mem := (mem h)(b + 12 := ?m)\<rparr>) (b + 16) = Inr (b + 8 + uint ?m)"
      using assms(1-3)
      by (simp add: FTRP_def GET_SIZE_def get_word_def h split_heap_def after_init_def fresh_heap_def
          accessible_def mod4 HDRP_def WSIZE_def DSIZE_def and.assoc)
    ultimately show ?thesis by (simp add: PUT_TAGS_def HDRP_def WSIZE_def add.commute)
  qed
  also have "\<dots> = (if 4096 + k < 12 + uint ?m then Inl (Undefined OutOfBounds)
      else Inr (h\<lparr>mem := (mem h)(b + 12 := ?m, b + 8 + uint ?m := ?m)\<rparr>))"
  proof -
    have "(b + 8 + uint ?m) mod 4 = 0"
      using aligned_size(2)[of v] assms(2) by presburger
    moreover have "0 \<le> uint ?m" by simp
    then have "\<not> 8 + uint ?m < 0" by linarith
    ultimately show ?thesis
      using assms(1-3) by (simp add: PUT_def h split_heap_def after_init_def fresh_heap_def accessible_def)
  qed
  finally have free: "my_free (b + 16) h = (if 4096 + k < 12 + uint ?m then Inl (Undefined OutOfBounds)
      else Inr (h\<lparr>mem := (mem h)(b + 12 := ?m, b + 8 + uint ?m := ?m)\<rparr>))" .
  have ne: "b + 12 \<noteq> b + 8 + uint ?m" using aligned_size(1)[of v] by presburger
  show ?thesis
    using malloc_first[OF assms(1-4)] ne unfolding free by (simp add: HDRP_def WSIZE_def)
qed

end
