(* ===== verification/Chattr.thy ===== *)
theory Chattr
  imports Error_Functions
begin

text \<open>
  \<open>15-7-my_chattr.c\<close>: change the inode flags of a file.  The outcomes of \<open>open\<close> and of the two \<open>ioctl\<close>
  calls are arguments; the result of \<open>main\<close> is the value given to \<open>FS_IOC_SETFLAGS\<close>.
\<close>

type_synonym inode_flags = "32 word"

text \<open>The flag of a letter, with the values of the kernel's header; \<open>None\<close> is the branch \<open>default\<close>, which
  leaves the variable of this iteration uninitialised.\<close>

definition flag_of_letter :: "char \<Rightarrow> inode_flags option" where
  "flag_of_letter c =
     (if c = CHR ''a'' then Some 0x20 else if c = CHR ''c'' then Some 0x4
      else if c = CHR ''D'' then Some 0x10000 else if c = CHR ''i'' then Some 0x10
      else if c = CHR ''j'' then Some 0x4000 else if c = CHR ''A'' then Some 0x80
      else if c = CHR ''d'' then Some 0x40 else if c = CHR ''t'' then Some 0x8000
      else if c = CHR ''s'' then Some 0x1 else if c = CHR ''S'' then Some 0x8
      else if c = CHR ''T'' then Some 0x20000 else if c = CHR ''u'' then Some 0x2
      else None)"

text \<open>A character of an argument string, with its terminating zero.\<close>

definition char_at :: "string \<Rightarrow> nat \<Rightarrow> char result" where
  "char_at s i = (if i < length s then Inr (s ! i) else if i = length s then Inr nul
     else Inl (Undefined OutOfBounds))"

text \<open>The loop, whose condition looks at the first character for ever.\<close>

function chattr_loop :: "string \<Rightarrow> nat \<Rightarrow> inode_flags \<Rightarrow> inode_flags result" where
  "chattr_loop s i attr = rbind (char_at s 0) (\<lambda>c0.
     if c0 = nul then Inr attr
     else case char_at s i of Inl e \<Rightarrow> Inl e
     | Inr c \<Rightarrow>
         (case flag_of_letter c of None \<Rightarrow> Inl (Undefined Uninitialised)
          | Some flag \<Rightarrow> chattr_loop s (Suc i) (if c0 = CHR ''='' then attr AND flag else attr OR flag)))"
  by auto
termination
  by (relation "measure (\<lambda>(s, i, attr). Suc (length s) - i)") (auto simp: char_at_def split: if_splits)

declare chattr_loop.simps [simp del]

definition chattr_usage :: "string list \<Rightarrow> stop" where
  "chattr_usage argv = stop_with (argv ! 0 @ '' (+/-/=)flag file'' @ [newline])"

definition chattr_main ::
    "bool \<Rightarrow> inode_flags option \<Rightarrow> bool \<Rightarrow> string list \<Rightarrow> inode_flags result" where
  "chattr_main open_ok getflags set_ok argv =
     (if length argv \<noteq> 3 then Inl (chattr_usage argv)
      else rbind (char_at (argv ! 2) 0) (\<lambda>c.
        if c \<notin> {CHR ''+'', CHR ''-'', CHR ''=''} then Inl (chattr_usage argv)
        else if \<not> open_ok then Inl (stop_with ''open'')
        else if c \<noteq> CHR ''='' then Inl (stop_with ''ioctl getting flags'')
        else case getflags of None \<Rightarrow> Inl (stop_with ''ioctl getting flags'')
        | Some attr \<Rightarrow> rbind (chattr_loop (argv ! 1) 1 attr) (\<lambda>attr'.
            if set_ok then Inr attr' else Inl (stop_with ''ioctl setting flags''))))"

lemma loop_undefined:
  "s \<noteq> [] \<Longrightarrow> cstring s \<Longrightarrow> \<exists>u\<in>{Uninitialised, OutOfBounds}. chattr_loop s i attr = Inl (Undefined u)"
proof (induction s i attr rule: chattr_loop.induct)
  case (1 s i attr)
  have c0: "char_at s 0 = Inr (s ! 0)" "s ! 0 \<noteq> nul"
    using "1.prems" by (auto simp: char_at_def cstring_def in_set_conv_nth)
  show ?case
  proof (cases "char_at s i")
    case (Inl e)
    then show ?thesis using c0 by (subst chattr_loop.simps) (auto simp: char_at_def split: if_splits)
  next
    case (Inr c)
    show ?thesis
    proof (cases "flag_of_letter c")
      case None
      then show ?thesis using c0 Inr by (subst chattr_loop.simps) simp
    next
      case (Some flag)
      then show ?thesis using c0 Inr "1.IH"[OF c0(2) Inr Some "1.prems"]
        by (subst chattr_loop.simps) simp
    qed
  qed
qed

text \<open>No command line makes the program change a flag.  It reads the sign from the file's name
  instead of the flag argument, stops with an error for \<open>+\<close> and \<open>-\<close> before reading the flags, and for \<open>=\<close>
  leaves the argument string or uses an uninitialised flag, unless the flag argument is empty: then it
  sets the flags it has read.\<close>

lemma chattr_never_changes:
  assumes "\<forall>arg\<in>set argv. cstring arg"
  shows "case chattr_main open_ok getflags set_ok argv of
     Inr flags \<Rightarrow> argv ! 1 = [] \<and> hd (argv ! 2) = CHR ''='' \<and> getflags = Some flags
   | Inl (Exit status tx) \<Rightarrow> status = EXIT_FAILURE
   | Inl (Undefined u) \<Rightarrow> argv ! 1 \<noteq> [] \<and> hd (argv ! 2) = CHR ''='' \<and> u \<in> {Uninitialised, OutOfBounds}"
proof (cases "length argv = 3 \<and> char_at (argv ! 2) 0 = Inr (CHR ''='') \<and> open_ok \<and> getflags \<noteq> None")
  case False
  then show ?thesis
    by (auto simp: chattr_main_def chattr_usage_def stop_with_def char_at_def split: option.splits if_splits)
next
  case True
  then obtain attr where a: "getflags = Some attr" by auto
  have eq: "hd (argv ! 2) = CHR ''=''"
    using True by (cases "argv ! 2") (auto simp: char_at_def)
  have run: "chattr_main open_ok getflags set_ok argv = rbind (chattr_loop (argv ! 1) 1 attr) (\<lambda>attr'.
      if set_ok then Inr attr' else Inl (stop_with ''ioctl setting flags''))"
    using True a by (simp add: chattr_main_def)
  show ?thesis
  proof (cases "argv ! 1 = []")
    case True
    then have "chattr_loop (argv ! 1) 1 attr = Inr attr"
      by (subst chattr_loop.simps) (simp add: char_at_def)
    then show ?thesis using True run eq a by (simp add: stop_with_def)
  next
    case False
    have "cstring (argv ! 1)" using assms True by simp
    from loop_undefined[OF False this, of 1 attr] show ?thesis using False eq by (auto simp: run)
  qed
qed

end
