(* ===== verification/Copy_Tools.thy ===== *)
theory Copy_Tools
  imports Error_Functions
begin

text \<open>
  Programs that move bytes: \<open>4-2-cp.c\<close> (copy a file and keep its holes), \<open>5-7-my_readv_writev.c\<close>
  (scatter and gather input and output) and \<open>4-1-tee.c\<close>.  The outcomes of the system calls are
  arguments; a file is the list of its bytes.
\<close>

type_synonym byte = "8 word"

section \<open>\<open>cp\<close>\<close>

abbreviation (input) OPEN_FAILURE :: int where "OPEN_FAILURE \<equiv> - 10001"
abbreviation (input) READ_FAILURE :: int where "READ_FAILURE \<equiv> - 10002"
abbreviation (input) WRITE_FAILURE :: int where "WRITE_FAILURE \<equiv> - 10003"
abbreviation (input) LSEEK_FAILURE :: int where "LSEEK_FAILURE \<equiv> - 10004"

definition CP_BUF_SIZE :: nat where "CP_BUF_SIZE = 1024"

record cp_state =
  dest :: "byte list"
  wpos :: nat              \<comment> \<open>file offset of \<open>wfd\<close>\<close>
  wbuf :: "byte list"      \<comment> \<open>the first \<open>write_index\<close> bytes of the write buffer\<close>
  zero_cnt :: int

text \<open>\<open>write\<close> at an offset; a gap behind the end of the file reads as zeros.\<close>

definition write_at :: "nat \<Rightarrow> byte list \<Rightarrow> byte list \<Rightarrow> byte list" where
  "write_at p bs f = take p f @ replicate (p - length f) 0 @ bs @ drop (p + length bs) f"

definition flush_wbuf :: "bool \<Rightarrow> cp_state \<Rightarrow> cp_state result" where
  "flush_wbuf write_ok st =
     (if wbuf st = [] then Inr st
      else if \<not> write_ok then Inl (Exit WRITE_FAILURE [])
      else Inr (st\<lparr>dest := write_at (wpos st) (wbuf st) (dest st), wpos := wpos st + length (wbuf st),
                   wbuf := []\<rparr>))"

text \<open>\<open>lseek(wfd, zero_cnt, SEEK_CUR)\<close>, whose result is kept in an \<open>int\<close>.\<close>

definition skip_zeros :: "cp_state \<Rightarrow> cp_state result" where
  "skip_zeros st =
     (if zero_cnt st > 0
      then let p = wpos st + nat (zero_cnt st) in
        if sint (word_of_nat p :: 32 word) = -1 then Inl (Exit LSEEK_FAILURE [])
        else Inr (st\<lparr>wpos := p, zero_cnt := 0\<rparr>)
      else Inr st)"

definition cp_byte :: "bool \<Rightarrow> byte \<Rightarrow> cp_state \<Rightarrow> cp_state result" where
  "cp_byte write_ok c st =
     (if c = 0 then rbind (flush_wbuf write_ok st) (\<lambda>st.
        if zero_cnt st = INT_MAX then Inl (Undefined SignedOverflow)
        else Inr (st\<lparr>zero_cnt := zero_cnt st + 1\<rparr>))
      else rbind (skip_zeros st) (\<lambda>st.
        if CP_BUF_SIZE \<le> length (wbuf st) then Inl (Undefined OutOfBounds)
        else Inr (st\<lparr>wbuf := wbuf st @ [c]\<rparr>)))"

fun cp_bytes :: "bool \<Rightarrow> byte list \<Rightarrow> cp_state \<Rightarrow> cp_state result" where
  "cp_bytes write_ok [] st = Inr st"
| "cp_bytes write_ok (c # cs) st = rbind (cp_byte write_ok c st) (cp_bytes write_ok cs)"

text \<open>The reads: \<open>None\<close> is -1, an empty buffer or the end of the list is 0.\<close>

fun cp_reads :: "bool \<Rightarrow> byte list option list \<Rightarrow> cp_state \<Rightarrow> cp_state result" where
  "cp_reads write_ok [] st = Inr st"
| "cp_reads write_ok (None # rs) st = Inl (Exit READ_FAILURE [])"
| "cp_reads write_ok (Some rbuf # rs) st =
     (if rbuf = [] then Inr st else rbind (cp_bytes write_ok rbuf st) (cp_reads write_ok rs))"

text \<open>The second file is opened without \<open>O_CREAT\<close> and \<open>O_TRUNC\<close>: \<open>old\<close> is what it holds, if it exists.\<close>

definition cp_main :: "bool \<Rightarrow> byte list option \<Rightarrow> bool \<Rightarrow> byte list option list \<Rightarrow> byte list result" where
  "cp_main open_ok old write_ok reads =
     (if \<not> open_ok then Inl (Exit OPEN_FAILURE [])
      else case old of None \<Rightarrow> Inl (Exit OPEN_FAILURE [])
      | Some f \<Rightarrow> rbind (cp_reads write_ok reads \<lparr>dest = f, wpos = 0, wbuf = [], zero_cnt = 0\<rparr>) (\<lambda>st.
          rbind (flush_wbuf write_ok st) (\<lambda>st. Inr (dest st))))"

subsection \<open>What is left in the destination\<close>

text \<open>The bytes of \<open>xs\<close> over those of \<open>old\<close>, where a zero lets the old byte show through.\<close>

fun overlay :: "byte list \<Rightarrow> byte list \<Rightarrow> byte list" where
  "overlay old [] = old"
| "overlay [] (x # xs) = x # overlay [] xs"
| "overlay (y # ys) (x # xs) = (if x = 0 then y else x) # overlay ys xs"

definition strip_zeros :: "byte list \<Rightarrow> byte list" where
  "strip_zeros xs = rev (dropWhile (\<lambda>x. x = 0) (rev xs))"

text \<open>The number of bytes other than zero at the end.\<close>

definition run_end :: "byte list \<Rightarrow> nat" where
  "run_end xs = length (takeWhile (\<lambda>x. x \<noteq> 0) (rev xs))"

definition long_run :: "byte list \<Rightarrow> bool" where
  "long_run xs \<longleftrightarrow> (\<exists>k\<le>length xs. CP_BUF_SIZE < run_end (take k xs))"

lemma overlay_length [simp]: "length (overlay old xs) = max (length old) (length xs)"
  by (induction old xs rule: overlay.induct) auto

lemma overlay_nth: "i < max (length old) (length xs) \<Longrightarrow> overlay old xs ! i =
    (if i < length xs \<and> (xs ! i \<noteq> 0 \<or> length old \<le> i) then xs ! i else old ! i)"
proof (induction old xs arbitrary: i rule: overlay.induct)
  case (2 x xs)
  then show ?case by (cases i) (auto simp: less_Suc_eq_0_disj)
next
  case (3 y ys x xs)
  then show ?case by (cases i) auto
qed simp

lemma overlay_nil [simp]: "overlay [] xs = xs"
  by (induction xs) auto

lemma strip_zeros_split: "xs = strip_zeros xs @ replicate (length xs - length (strip_zeros xs)) 0"
proof -
  have "rev xs = takeWhile (\<lambda>x. x = 0) (rev xs) @ dropWhile (\<lambda>x. x = 0) (rev xs)" by simp
  moreover have "takeWhile (\<lambda>x. x = 0) (rev xs) = replicate (length (takeWhile (\<lambda>x. x = 0) (rev xs))) 0"
    by (rule replicate_eqI) (auto dest: set_takeWhileD)
  ultimately have "xs = strip_zeros xs @ replicate (length (takeWhile (\<lambda>x. x = 0) (rev xs))) 0"
    unfolding strip_zeros_def by (metis rev_append rev_replicate rev_rev_ident)
  moreover from this have "length xs = length (strip_zeros xs) + length (takeWhile (\<lambda>x. x = 0) (rev xs))"
    by (metis length_append length_replicate)
  ultimately show ?thesis by simp
qed

lemma strip_zeros_snoc [simp]:
  "strip_zeros (xs @ [x]) = (if x = 0 then strip_zeros xs else xs @ [x])"
  by (simp add: strip_zeros_def)

lemma strip_zeros_replicate [simp]: "strip_zeros (xs @ replicate n 0) = strip_zeros xs"
  by (induction n arbitrary: xs) (simp, metis append_assoc append_Cons append_Nil replicate_Suc
      replicate_append_same strip_zeros_snoc)

lemma strip_zeros_nonzero:
  assumes "w \<noteq> []" and "0 \<notin> set w"
  shows "strip_zeros (xs @ w) = xs @ w"
proof -
  have "last w \<noteq> 0" using assms by (metis last_in_set)
  then have "strip_zeros ((xs @ butlast w) @ [last w]) = (xs @ butlast w) @ [last w]"
    by (simp only: strip_zeros_snoc if_False)
  then show ?thesis using assms(1) by simp
qed

lemma write_at_length [simp]: "length (write_at p w f) = max (length f) (p + length w)"
  by (auto simp: write_at_def)

lemma write_at_nth:
  assumes "i < max (length f) (p + length w)"
  shows "write_at p w f ! i =
    (if i < p then if i < length f then f ! i else 0 else if i < p + length w then w ! (i - p) else f ! i)"
proof -
  define pre where "pre = take p f @ replicate (p - length f) 0"
  have pre: "length pre = p" "i < p \<Longrightarrow> pre ! i = (if i < length f then f ! i else 0)"
    by (auto simp: pre_def nth_append)
  have "write_at p w f = pre @ w @ drop (p + length w) f" by (simp add: write_at_def pre_def)
  moreover have "\<not> i < p + length w \<Longrightarrow> drop (p + length w) f ! (i - p - length w) = f ! i"
    using assms by simp
  ultimately show ?thesis using pre by (auto simp: nth_append)
qed

lemma write_run:
  assumes "0 \<notin> set w" and "w \<noteq> []"
  shows "write_at (length xs) w (overlay old (strip_zeros xs)) = overlay old (xs @ w)"
proof (rule nth_equalityI)
  let ?s = "strip_zeros xs"
  obtain n where n: "xs = ?s @ replicate n 0" using strip_zeros_split by blast
  then have ls: "length xs = length ?s + n" by (metis length_append length_replicate)
  show len: "length (write_at (length xs) w (overlay old ?s)) = length (overlay old (xs @ w))"
    using ls by auto
  fix i assume "i < length (write_at (length xs) w (overlay old ?s))"
  then have i: "i < max (length old) (length (xs @ w))" "i < max (length (overlay old ?s)) (length xs + length w)"
    using len by simp_all
  have x: "xs ! i = (if i < length ?s then ?s ! i else 0)" if "i < length xs"
    using that ls by (subst n) (simp add: nth_append)
  have w: "w ! (i - length xs) \<noteq> 0" if "length xs \<le> i" "i < length xs + length w"
  proof -
    have "i - length xs < length w" using that by linarith
    then show ?thesis using assms(1) nth_mem by metis
  qed
  show "write_at (length xs) w (overlay old ?s) ! i = overlay old (xs @ w) ! i"
    using i x w ls by (auto simp: write_at_nth overlay_nth nth_append)
qed

section \<open>The run of \<open>cp\<close>\<close>

text \<open>What the state is after the bytes \<open>bs\<close>: the pending run is their nonzero end.\<close>

definition cp_inv :: "byte list \<Rightarrow> byte list \<Rightarrow> cp_state \<Rightarrow> bool" where
  "cp_inv old bs st \<longleftrightarrow> (\<exists>xs. bs = xs @ replicate (nat (zero_cnt st)) 0 @ wbuf st \<and> length xs = wpos st \<and>
     0 \<le> zero_cnt st \<and> 0 \<notin> set (wbuf st) \<and> (wbuf st \<noteq> [] \<longrightarrow> zero_cnt st = 0) \<and>
     dest st = overlay old (strip_zeros xs) \<and> length (wbuf st) = run_end bs)"

lemma run_end_snoc [simp]: "run_end (bs @ [c]) = (if c = 0 then 0 else Suc (run_end bs))"
  by (simp add: run_end_def)

lemma flush_inv:
  assumes "cp_inv old bs st"
  shows "\<exists>st' xs. flush_wbuf True st = Inr st' \<and> wbuf st' = [] \<and> zero_cnt st' = zero_cnt st \<and>
    bs = xs @ replicate (nat (zero_cnt st)) 0 \<and> length xs = wpos st' \<and> 0 \<le> zero_cnt st \<and>
    dest st' = overlay old (strip_zeros xs)"
proof -
  obtain xs where x: "bs = xs @ replicate (nat (zero_cnt st)) 0 @ wbuf st" "length xs = wpos st"
    "0 \<notin> set (wbuf st)" "wbuf st \<noteq> [] \<longrightarrow> zero_cnt st = 0" "dest st = overlay old (strip_zeros xs)"
    "0 \<le> zero_cnt st"
    using assms by (auto simp: cp_inv_def)
  show ?thesis
  proof (cases "wbuf st = []")
    case True
    then show ?thesis using x by (auto simp: flush_wbuf_def)
  next
    case False
    then have z: "zero_cnt st = 0" "bs = xs @ wbuf st" "strip_zeros bs = bs"
      using x strip_zeros_nonzero[OF False] by auto
    then show ?thesis using False x(2) write_run[OF x(3) False, of xs old] x(5)
      by (intro exI[of _ "st\<lparr>dest := write_at (wpos st) (wbuf st) (dest st), wpos := wpos st + length (wbuf st),
        wbuf := []\<rparr>"] exI[of _ bs]) (simp add: flush_wbuf_def)
  qed
qed

lemma sint_small: "n < 2147483648 \<Longrightarrow> sint (word_of_nat n :: 32 word) = int n"
  using int_word_sint[of "int n", where 'a=32] by simp

lemma cp_byte_inv:
  assumes inv: "cp_inv old bs st" and small: "length bs < 2147483647"
  shows "if c \<noteq> 0 \<and> CP_BUF_SIZE \<le> run_end bs then cp_byte True c st = Inl (Undefined OutOfBounds)
    else \<exists>st'. cp_byte True c st = Inr st' \<and> cp_inv old (bs @ [c]) st'"
proof (cases "c = 0")
  case True
  obtain st' xs where f: "flush_wbuf True st = Inr st'" "wbuf st' = []" "zero_cnt st' = zero_cnt st"
    "bs = xs @ replicate (nat (zero_cnt st)) 0" "length xs = wpos st'" "0 \<le> zero_cnt st"
    "dest st' = overlay old (strip_zeros xs)"
    using flush_inv[OF inv] by blast
  have "length bs = length xs + nat (zero_cnt st)" using f(4) by (metis length_append length_replicate)
  then have z: "zero_cnt st < INT_MAX" using small f(6) by linarith
  have "nat (zero_cnt st + 1) = Suc (nat (zero_cnt st))" using f(6) by simp
  then have r: "replicate (nat (zero_cnt st + 1)) 0 = replicate (nat (zero_cnt st)) 0 @ [0::byte]"
    by (simp add: replicate_append_same)
  have "cp_inv old (bs @ [0]) (st'\<lparr>zero_cnt := zero_cnt st' + 1\<rparr>)"
    unfolding cp_inv_def using f(2,3,5-7) r
    by (intro exI[of _ xs]) (subst f(4), simp)
  then show ?thesis using True f(1,3) z by (simp add: cp_byte_def)
next
  case False
  obtain xs where x: "bs = xs @ replicate (nat (zero_cnt st)) 0 @ wbuf st" "length xs = wpos st"
    "0 \<notin> set (wbuf st)" "wbuf st \<noteq> [] \<longrightarrow> zero_cnt st = 0" "dest st = overlay old (strip_zeros xs)"
    "0 \<le> zero_cnt st" "length (wbuf st) = run_end bs"
    using inv by (auto simp: cp_inv_def)
  let ?st = "st\<lparr>wpos := wpos st + nat (zero_cnt st), zero_cnt := 0\<rparr>"
  have "length bs = wpos st + nat (zero_cnt st) + length (wbuf st)"
    by (subst x(1)) (simp add: x(2))
  then have "wpos st + nat (zero_cnt st) < 2147483648" using small by linarith
  then have "sint (word_of_nat (wpos st + nat (zero_cnt st)) :: 32 word) = int (wpos st + nat (zero_cnt st))"
    by (metis (no_types) sint_small)
  then have s: "skip_zeros st = Inr ?st"
    using x(6) by (auto simp: skip_zeros_def Let_def)
  show ?thesis
  proof (cases "CP_BUF_SIZE \<le> run_end bs")
    case True
    then show ?thesis using False s x(7) by (simp add: cp_byte_def)
  next
    case small: False
    have "cp_inv old (bs @ [c]) (?st\<lparr>wbuf := wbuf ?st @ [c]\<rparr>)"
      unfolding cp_inv_def
    proof (intro exI[of _ "xs @ replicate (nat (zero_cnt st)) 0"] conjI)
      show "bs @ [c] = (xs @ replicate (nat (zero_cnt st)) 0) @
          replicate (nat (zero_cnt (?st\<lparr>wbuf := wbuf ?st @ [c]\<rparr>))) 0 @ wbuf (?st\<lparr>wbuf := wbuf ?st @ [c]\<rparr>)"
        by (subst x(1)) simp
    qed (use x(2-7) False in simp_all)
    then show ?thesis using False s small x(7) by (auto simp: cp_byte_def)
  qed
qed

lemma long_run_snoc: "long_run (bs @ [c]) \<longleftrightarrow> long_run bs \<or> (c \<noteq> 0 \<and> CP_BUF_SIZE \<le> run_end bs)"
proof -
  have "(\<exists>k\<le>Suc (length bs). CP_BUF_SIZE < run_end (take k (bs @ [c]))) \<longleftrightarrow>
      (\<exists>k\<le>length bs. CP_BUF_SIZE < run_end (take k bs)) \<or> CP_BUF_SIZE < run_end (bs @ [c])"
    by (auto simp: le_Suc_eq)
  then show ?thesis by (auto simp: long_run_def)
qed

lemma cp_bytes_inv:
  assumes "cp_inv old bs st" and "\<not> long_run bs" and "length (bs @ cs) \<le> 2147483647"
  shows "if long_run (bs @ cs) then cp_bytes True cs st = Inl (Undefined OutOfBounds)
    else \<exists>st'. cp_bytes True cs st = Inr st' \<and> cp_inv old (bs @ cs) st'"
  using assms
proof (induction cs arbitrary: bs st)
  case (Cons c cs)
  have small: "length bs < 2147483647" using Cons.prems(3) by simp
  have mono: "long_run (bs @ [c]) \<Longrightarrow> long_run ((bs @ [c]) @ cs)" for bs
    by (induction cs rule: rev_induct) (simp_all add: long_run_snoc flip: append_assoc)
  show ?case
  proof (cases "c \<noteq> 0 \<and> CP_BUF_SIZE \<le> run_end bs")
    case True
    then have "long_run (bs @ c # cs)" using mono[of bs] by (simp add: long_run_snoc)
    then show ?thesis using True cp_byte_inv[OF Cons.prems(1) small, of c] by simp
  next
    case False
    then obtain st' where st': "cp_byte True c st = Inr st'" "cp_inv old (bs @ [c]) st'"
      using cp_byte_inv[OF Cons.prems(1) small, of c] by auto
    moreover have "\<not> long_run (bs @ [c])" using False Cons.prems(2) by (simp add: long_run_snoc)
    ultimately show ?thesis using Cons.IH[of "bs @ [c]" st'] Cons.prems(3) by auto
  qed
qed simp

lemma long_run_prefix: "long_run xs \<Longrightarrow> long_run (xs @ ys)"
  by (induction ys rule: rev_induct) (simp_all add: long_run_snoc flip: append_assoc)

lemma cp_reads_inv:
  assumes "cp_inv old bs st" and "\<not> long_run bs" and "length (bs @ concat chunks) \<le> 2147483647"
    and "[] \<notin> set chunks"
  shows "if long_run (bs @ concat chunks) then cp_reads True (map Some chunks) st = Inl (Undefined OutOfBounds)
    else \<exists>st'. cp_reads True (map Some chunks) st = Inr st' \<and> cp_inv old (bs @ concat chunks) st'"
  using assms
proof (induction chunks arbitrary: bs st)
  case (Cons b chunks)
  note step = cp_bytes_inv[OF Cons.prems(1,2), of b]
  show ?case
  proof (cases "long_run (bs @ b)")
    case True
    then show ?thesis using step long_run_prefix[OF True, of "concat chunks"] Cons.prems(3,4) by auto
  next
    case False
    then obtain st' where st': "cp_bytes True b st = Inr st'" "cp_inv old (bs @ b) st'"
      using step Cons.prems(3) by auto
    then show ?thesis using Cons.IH[OF st'(2) False] Cons.prems(3,4) by (auto split: if_splits)
  qed
qed simp

text \<open>C20: when the files can be opened and written, \<open>cp\<close> overflows its write buffer exactly on files with
  more than 1024 bytes in a row other than zero.  On every other file the destination receives the
  bytes up to the last one that is not zero, laid over what it held: trailing zeros are lost, and since
  the destination is not truncated its old bytes stay behind the end and wherever the source has
  zeros.\<close>

theorem cp_result:
  assumes "[] \<notin> set chunks" and "length (concat chunks) \<le> 2147483647"
  shows "cp_main True (Some old) True (map Some chunks) =
    (if long_run (concat chunks) then Inl (Undefined OutOfBounds)
     else Inr (overlay old (strip_zeros (concat chunks))))"
proof -
  let ?s0 = "\<lparr>dest = old, wpos = 0, wbuf = [], zero_cnt = 0\<rparr>"
  have inv: "cp_inv old [] ?s0" by (simp add: cp_inv_def run_end_def strip_zeros_def)
  have nl: "\<not> long_run []" by (simp add: long_run_def run_end_def)
  show ?thesis
  proof (cases "long_run (concat chunks)")
    case True
    then show ?thesis using cp_reads_inv[OF inv nl, of chunks] assms by (simp add: cp_main_def)
  next
    case False
    then obtain st where st: "cp_reads True (map Some chunks) ?s0 = Inr st" "cp_inv old (concat chunks) st"
      using cp_reads_inv[OF inv nl, of chunks] assms by auto
    obtain st' xs where f: "flush_wbuf True st = Inr st'"
      "concat chunks = xs @ replicate (nat (zero_cnt st)) 0" "dest st' = overlay old (strip_zeros xs)"
      using flush_inv[OF st(2)] by blast
    have "strip_zeros (concat chunks) = strip_zeros xs" unfolding f(2) by simp
    then show ?thesis using False st(1) f(1,3) by (simp add: cp_main_def)
  qed
qed

theorem cp_result_witness:
  "cp_main True (Some [9, 9, 9, 9, 9, 9, 9]) True [Some [1, 0, 2], Some [0, 3, 0, 0]] = Inr [1, 9, 2, 9, 3, 9, 9]"
proof -
  let ?bs = "concat [[1, 0, 2], [0, 3, 0, 0]] :: byte list"
  have "run_end (take k ?bs) \<le> 7" for k
  proof -
    have "run_end (take k ?bs) \<le> length (take k ?bs)"
      unfolding run_end_def by (metis length_rev length_takeWhile_le)
    also have "\<dots> \<le> 7" by simp
    finally show ?thesis .
  qed
  then have "\<not> 1024 < run_end (take k ?bs)" for k by (rule leD[OF order_trans]) simp_all
  then have "\<not> long_run ?bs" unfolding long_run_def CP_BUF_SIZE_def by blast
  then show ?thesis
    using cp_result[of "[[1, 0, 2], [0, 3, 0, 0]]" "[9, 9, 9, 9, 9, 9, 9]"] by (simp add: strip_zeros_def)
qed

end
