(* ===== verification/Vector_IO.thy ===== *)
theory Vector_IO
  imports Error_Functions
begin

text \<open>
  \<open>5-7-my_readv_writev.c\<close> (scatter and gather input and output over one \<open>read\<close> or \<open>write\<close>) and \<open>4-1-tee.c\<close>
  (copy the standard input to several files).  The buffers of a vector are disjoint objects, given by
  their contents; the outcomes of \<open>malloc\<close> and of the system calls are arguments.
\<close>

type_synonym byte = "8 word"

section \<open>Scatter input\<close>

definition total_space :: "byte list list \<Rightarrow> nat" where
  "total_space iov = sum_list (map length iov)"

text \<open>The \<open>memcpy\<close> loop, which ends when the data is used up.  Its sizes are of type \<open>int\<close>, which is enough: a \<open>read\<close> transfers at most
  \<open>0x7ffff000\<close> bytes, whatever is asked for.\<close>

fun scatter :: "byte list list \<Rightarrow> byte list \<Rightarrow> byte list list" where
  "scatter [] data = []"
| "scatter (b # bs) data =
     (if data = [] then b # bs
      else let n = (if length data > length b then length b else length data) in
        (take n data @ drop n b) # scatter bs (drop n data))"

text \<open>The result of \<open>my_readv\<close>: its value, the buffers, and whether the intermediate buffer was freed.
  \<open>read_call ok n\<close> is the outcome of a \<open>read\<close> of \<open>n\<close> bytes into a buffer that is null unless \<open>ok\<close>.\<close>

definition my_readv ::
    "bool \<Rightarrow> (bool \<Rightarrow> nat \<Rightarrow> byte list option) \<Rightarrow> byte list list \<Rightarrow> (int \<times> byte list list \<times> bool) result" where
  "my_readv buf_ok read_call iov =
     (case read_call buf_ok (total_space iov) of
        None \<Rightarrow> Inr (-1, iov, False)
      | Some data \<Rightarrow>
          if data = [] then Inr (0, iov, False)
          else if \<not> buf_ok then Inl (Undefined NullDeref)
          else Inr (int (length data), scatter iov data, True))"

section \<open>Gather output\<close>

text \<open>\<open>memcpy\<close> to offset \<open>cnt\<close> of the buffer; \<open>cnt\<close> is an \<open>int\<close> to which a \<open>size_t\<close> is added.\<close>

fun gather :: "byte list list \<Rightarrow> int \<Rightarrow> byte option list \<Rightarrow> byte option list result" where
  "gather [] cnt buf = Inr buf"
| "gather (b # bs) cnt buf =
     (if b \<noteq> [] \<and> (cnt < 0 \<or> int (length buf) < cnt + int (length b)) then Inl (Undefined OutOfBounds)
      else gather bs (sint (word_of_int (cnt + int (length b)) :: 32 word))
        (if b = [] then buf else take (nat cnt) buf @ map Some b @ drop (nat cnt + length b) buf))"

text \<open>The bytes handed to \<open>write\<close> must have been stored.\<close>

definition my_writev :: "bool \<Rightarrow> (byte list \<Rightarrow> int) \<Rightarrow> byte list list \<Rightarrow> (int \<times> byte list) result" where
  "my_writev buf_ok write_call iov =
     (if \<not> buf_ok \<and> 0 < total_space iov then Inl (Undefined NullDeref)
      else rbind (gather iov 0 (replicate (total_space iov) None)) (\<lambda>buf.
        if None \<in> set buf then Inl (Undefined Uninitialised)
        else Inr (write_call (map the buf), map the buf)))"

section \<open>What they do\<close>

lemma total_space_simps [simp]: "total_space [] = 0" "total_space (b # bs) = length b + total_space bs"
  by (simp_all add: total_space_def)

lemma length_concat_total: "length (concat iov) = total_space iov"
  by (simp add: total_space_def length_concat)

lemma scatter_lengths: "map length (scatter iov data) = map length iov"
  by (induction iov data rule: scatter.induct) (auto simp: Let_def)

lemma scatter_concat: "length data \<le> total_space iov \<Longrightarrow>
    concat (scatter iov data) = data @ drop (length data) (concat iov)"
proof (induction iov data rule: scatter.induct)
  case (2 b bs data)
  show ?case
  proof (cases "length data > length b")
    case True
    then have "data \<noteq> []" by auto
    have IH: "concat (scatter bs (drop (length b) data)) =
        drop (length b) data @ drop (length data - length b) (concat bs)"
      using 2 True \<open>data \<noteq> []\<close> by (simp add: Let_def)
    have "scatter (b # bs) data = take (length b) data # scatter bs (drop (length b) data)"
      using True \<open>data \<noteq> []\<close> by (simp add: Let_def)
    then have "concat (scatter (b # bs) data) =
        (take (length b) data @ drop (length b) data) @ drop (length data - length b) (concat bs)"
      by (simp only: concat.simps IH append_assoc)
    then show ?thesis using True by simp
  next
    case False
    then show ?thesis by (cases bs) (auto simp: Let_def)
  qed
qed simp

lemma gather_fills:
  assumes "length done + total_space iov + length rest \<le> 2147483647" and "length rest = 0"
  shows "gather iov (int (length done)) (map Some done @ replicate (total_space iov) None) =
    Inr (map Some (done @ concat iov))"
  using assms
proof (induction iov arbitrary: "done")
  case (Cons b bs)
  have s: "sint (word_of_int (int (length done) + int (length b)) :: 32 word) = int (length (done @ b))"
    using Cons.prems int_word_sint[of "int (length (done @ b))", where 'a=32] by simp
  show ?case
  proof (cases "b = []")
    case True
    then show ?thesis using Cons.IH[of "done"] Cons.prems s by simp
  next
    case False
    then have "gather (b # bs) (int (length done)) (map Some done @ replicate (total_space (b # bs)) None) =
        gather bs (int (length (done @ b))) (map Some (done @ b) @ replicate (total_space bs) None)"
      using s by simp
    then show ?thesis using Cons.IH[of "done @ b"] Cons.prems by simp
  qed
qed simp

lemma concat_same_shape: "map length xs = map length ys \<Longrightarrow> concat xs = concat ys \<Longrightarrow> xs = ys"
proof (induction xs arbitrary: ys)
  case (Cons x xs)
  then show ?case by (cases ys) auto
qed simp

text \<open>\<open>my_readv\<close> puts what \<open>read\<close> delivers into the buffers in order, fills each before the next, keeps
  their lengths and the bytes behind the data, and returns the number of bytes; the intermediate
  buffer is freed only if something was read.\<close>

lemma readv_scatters:
  assumes "\<And>n data. read_call True n = Some data \<Longrightarrow> length data \<le> n"
  shows "\<exists>n bufs freed. my_readv True read_call iov = Inr (n, bufs, freed) \<and> map length bufs = map length iov \<and>
    (freed \<longleftrightarrow> 0 < n) \<and>
    (case read_call True (total_space iov) of None \<Rightarrow> n = -1 \<and> bufs = iov
     | Some data \<Rightarrow> n = int (length data) \<and> concat bufs = data @ drop (length data) (concat iov))"
proof (cases "read_call True (total_space iov)")
  case None
  then show ?thesis by (simp add: my_readv_def)
next
  case (Some data)
  then show ?thesis using scatter_concat[OF assms[OF Some]] scatter_lengths[of iov data]
    by (simp add: my_readv_def)
qed

text \<open>C29: what \<open>my_writev\<close> writes from a vector of at most \<open>INT_MAX\<close> bytes, \<open>my_readv\<close> reads back into any
  vector of the same shape.\<close>

theorem readv_writev_roundtrip:
  assumes "map length iov' = map length iov" and "0 < total_space iov" and "total_space iov \<le> 2147483647"
  shows "\<exists>bytes. my_writev True (\<lambda>bs. int (length bs)) iov = Inr (int (total_space iov), bytes) \<and>
    my_readv True (\<lambda>_ n. Some (take n bytes)) iov' = Inr (int (total_space iov), iov, True)"
proof -
  have g: "gather iov 0 (replicate (total_space iov) None) = Inr (map Some (concat iov))"
    using gather_fills[of "[]" iov "[] :: byte list"] assms(3) by simp
  have w: "my_writev True (\<lambda>bs. int (length bs)) iov = Inr (int (total_space iov), concat iov)"
    using g by (simp add: my_writev_def length_concat_total comp_def)
  have t: "total_space iov' = total_space iov" using assms(1) by (simp add: total_space_def)
  have r: "scatter iov' (concat iov) = iov"
  proof -
    have "concat (scatter iov' (concat iov)) = concat iov"
      using scatter_concat[of "concat iov" iov'] t by (simp add: length_concat_total)
    moreover have "map length (scatter iov' (concat iov)) = map length iov"
      using scatter_lengths assms(1) by simp
    ultimately show ?thesis using concat_same_shape by blast
  qed
  have "concat iov \<noteq> []" using assms(2) length_concat_total[of iov] by (metis length_0_conv less_irrefl)
  then have "my_readv True (\<lambda>_ n. Some (take n (concat iov))) iov' = Inr (int (total_space iov), iov, True)"
    using r t by (simp add: my_readv_def length_concat_total)
  then show ?thesis using w by blast
qed

theorem readv_writev_roundtrip_witness:
  "\<exists>bytes. my_writev True (\<lambda>bs. int (length bs)) [[1, 2], [], [3]] = Inr (3, bytes) \<and>
    my_readv True (\<lambda>_ n. Some (take n bytes)) [[0, 0], [], [0]] = Inr (3, [[1, 2], [], [3]], True)"
  using readv_writev_roundtrip[of "[[0, 0], [], [0]]" "[[1, 2], [], [3]]"] by simp

end
