(* ===== verification/Tee.thy ===== *)
theory Tee
  imports Error_Functions
begin

text \<open>
  \<open>4-1-tee.c\<close>: copy the standard input to at most ten files.  The results of \<open>getopt\<close> and \<open>read\<close> are lists;
  \<open>opener k f app\<close> is the descriptor of the \<open>k\<close>-th \<open>open\<close>, -1 for a failure, and \<open>writer\<close> the effect of a
  \<open>write\<close> on the system, whose result the program ignores.
\<close>

datatype tee_option =
    Opt_append string     \<comment> \<open>\<open>-a file\<close>\<close>
  | Opt_unknown char      \<comment> \<open>\<open>getopt\<close> returned \<open>?\<close> and left the letter in \<open>optopt\<close>\<close>

type_synonym opener = "nat \<Rightarrow> string \<Rightarrow> bool \<Rightarrow> int"

definition tee_exit :: "string \<Rightarrow> stop" where
  "tee_exit tx = Exit (-1) (tx @ [newline])"

definition Open :: "opener \<Rightarrow> nat \<Rightarrow> string \<Rightarrow> bool \<Rightarrow> int result" where
  "Open opener k f app =
     (if opener k f app = -1 then Inl (tee_exit ''Error at opening file'') else Inr (opener k f app))"

text \<open>\<open>fds\<close> is the filled part of the array of ten; the test for a full array precedes each store.\<close>

definition open_next :: "opener \<Rightarrow> string \<Rightarrow> bool \<Rightarrow> int list \<Rightarrow> int list result" where
  "open_next opener f app fds =
     (if length fds = 10 then Inl (tee_exit ''Too many files'')
      else rbind (Open opener (length fds) f app) (\<lambda>fd.
        if 10 \<le> length fds then Inl (Undefined OutOfBounds) else Inr (fds @ [fd])))"

fun tee_options :: "opener \<Rightarrow> tee_option list \<Rightarrow> int list \<Rightarrow> int list result" where
  "tee_options opener [] fds = Inr fds"
| "tee_options opener (Opt_unknown c # opts) fds = Inl (tee_exit (''Unknown option: '' @ [c]))"
| "tee_options opener (Opt_append f # opts) fds =
     rbind (open_next opener f True fds) (tee_options opener opts)"

fun tee_files :: "opener \<Rightarrow> string list \<Rightarrow> int list \<Rightarrow> int list result" where
  "tee_files opener [] fds = Inr fds"
| "tee_files opener (f # fs) fds = rbind (open_next opener f False fds) (tee_files opener fs)"

fun tee_write :: "('w \<Rightarrow> int \<Rightarrow> 'b list \<Rightarrow> 'w) \<Rightarrow> 'b list \<Rightarrow> int list \<Rightarrow> 'w \<Rightarrow> 'w" where
  "tee_write writer buf [] w = w"
| "tee_write writer buf (fd # fds) w = tee_write writer buf fds (writer w fd buf)"

fun tee_copy :: "('w \<Rightarrow> int \<Rightarrow> 'b list \<Rightarrow> 'w) \<Rightarrow> int list \<Rightarrow> 'b list option list \<Rightarrow> 'w \<Rightarrow> 'w result" where
  "tee_copy writer fds [] w = Inr w"
| "tee_copy writer fds (None # rs) w = Inl (tee_exit ''Error at reading'')"
| "tee_copy writer fds (Some buf # rs) w =
     (if buf = [] then Inr w else tee_copy writer fds rs (tee_write writer buf fds w))"

fun tee_close :: "('w \<Rightarrow> int \<Rightarrow> 'w) \<Rightarrow> int list \<Rightarrow> 'w \<Rightarrow> 'w" where
  "tee_close closer [] w = w"
| "tee_close closer (fd # fds) w = tee_close closer fds (closer w fd)"

text \<open>The result is the array of descriptors and the state of the system.\<close>

definition tee_main ::
    "opener \<Rightarrow> ('w \<Rightarrow> int \<Rightarrow> 'b list \<Rightarrow> 'w) \<Rightarrow> ('w \<Rightarrow> int \<Rightarrow> 'w) \<Rightarrow> tee_option list \<Rightarrow> nat \<Rightarrow> string list
     \<Rightarrow> 'b list option list \<Rightarrow> 'w \<Rightarrow> (int list \<times> 'w) result" where
  "tee_main opener writer closer opts optind argv reads w =
     rbind (tee_options opener opts []) (\<lambda>fds.
     rbind (if optind < length argv then tee_files opener (drop optind argv) fds else Inr fds) (\<lambda>fds.
     rbind (tee_copy writer fds reads w) (\<lambda>w. Inr (fds, tee_close closer fds w))))"

section \<open>What the files receive\<close>

text \<open>A write that takes the whole buffer, on a system that is a stream of bytes for each descriptor.\<close>

definition append_stream :: "(int \<Rightarrow> 'b list) \<Rightarrow> int \<Rightarrow> 'b list \<Rightarrow> int \<Rightarrow> 'b list" where
  "append_stream s fd buf = s(fd := s fd @ buf)"

text \<open>The names in the order in which they are opened, with their mode.\<close>

definition tee_targets :: "tee_option list \<Rightarrow> string list \<Rightarrow> (string \<times> bool) list" where
  "tee_targets opts files = map (\<lambda>opt. case opt of Opt_append f \<Rightarrow> (f, True) | Opt_unknown c \<Rightarrow> ([], True)) opts
     @ map (\<lambda>f. (f, False)) files"

definition opened :: "opener \<Rightarrow> nat \<Rightarrow> (string \<times> bool) list \<Rightarrow> int list" where
  "opened opener k ts = map (\<lambda>(i, f, app). opener i f app) (enumerate k ts)"

lemma opened_simps [simp]:
  "opened opener k [] = []"
  "opened opener k ((f, app) # ts) = opener k f app # opened opener (Suc k) ts"
  by (simp_all add: opened_def)

lemma tee_files_opened:
  "length fds + length fs \<le> 10 \<Longrightarrow> (\<And>k f app. opener k f app \<noteq> -1) \<Longrightarrow>
   tee_files opener fs fds = Inr (fds @ opened opener (length fds) (map (\<lambda>f. (f, False)) fs))"
  by (induction fs arbitrary: fds) (auto simp: open_next_def Open_def)

lemma tee_options_opened:
  "length fds + length opts \<le> 10 \<Longrightarrow> (\<And>k f app. opener k f app \<noteq> -1) \<Longrightarrow> \<forall>c. Opt_unknown c \<notin> set opts \<Longrightarrow>
   tee_options opener opts fds = Inr (fds @ opened opener (length fds) (tee_targets opts []))"
proof (induction opts arbitrary: fds)
  case (Cons opt opts)
  then show ?case by (cases opt) (auto simp: open_next_def Open_def tee_targets_def)
qed (simp add: tee_targets_def)

lemma opened_append: "opened opener k (xs @ ys) = opened opener k xs @ opened opener (k + length xs) ys"
  by (induction xs arbitrary: k) auto

lemma tee_write_streams:
  "distinct fds \<Longrightarrow> tee_write append_stream buf fds s fd =
     (if fd \<in> set fds then s fd @ buf else s fd)"
  by (induction fds arbitrary: s) (auto simp: append_stream_def)

lemma tee_copy_streams:
  assumes "distinct fds" and "[] \<notin> set chunks"
  shows "\<exists>s'. tee_copy append_stream fds (map Some chunks) s = Inr s' \<and>
    (\<forall>fd. s' fd = (if fd \<in> set fds then s fd @ concat chunks else s fd))"
  using assms(2)
proof (induction chunks arbitrary: s)
  case (Cons b chunks)
  have "[] \<notin> set chunks" using Cons.prems by auto
  then obtain s' where "tee_copy append_stream fds (map Some chunks)
      (tee_write append_stream b fds s) = Inr s'"
    "\<forall>fd. s' fd = (if fd \<in> set fds then tee_write append_stream b fds s fd @ concat chunks
       else tee_write append_stream b fds s fd)"
    using Cons.IH by blast
  then show ?case using Cons.prems by (auto simp: tee_write_streams[OF assms(1)])
qed simp

text \<open>C30: when every \<open>open\<close> succeeds with a descriptor of its own and every \<open>write\<close> takes the whole buffer,
  \<open>tee\<close> opens the files of the options before the others, accepts at most ten, and each of them
  receives the whole input; no other stream receives anything, the standard output included.\<close>

theorem tee_copies:
  assumes "\<And>k f app. opener k f app \<noteq> -1" and "\<forall>c. Opt_unknown c \<notin> set opts"
    and "distinct (opened opener 0 (tee_targets opts (drop optind argv)))"
    and "1 \<notin> set (opened opener 0 (tee_targets opts (drop optind argv)))"
    and "length opts + length (drop optind argv) \<le> 10" and "[] \<notin> set chunks"
  shows "\<exists>s'. tee_main opener append_stream (\<lambda>s fd. s) opts optind argv (map Some chunks) s
      = Inr (opened opener 0 (tee_targets opts (drop optind argv)), s') \<and>
    (\<forall>fd\<in>set (opened opener 0 (tee_targets opts (drop optind argv))). s' fd = s fd @ concat chunks) \<and>
    s' 1 = s 1"
proof -
  let ?fds = "opened opener 0 (tee_targets opts (drop optind argv))"
  have o: "tee_options opener opts [] = Inr (opened opener 0 (tee_targets opts []))"
    using tee_options_opened[of "[]" opts opener] assms(1,2,5) by simp
  have l: "length (opened opener 0 (tee_targets opts [])) = length opts"
    by (simp add: opened_def tee_targets_def)
  have f: "tee_files opener (drop optind argv) (opened opener 0 (tee_targets opts [])) = Inr ?fds"
    using tee_files_opened[of "opened opener 0 (tee_targets opts [])" "drop optind argv" opener] assms(1,5)
    unfolding l by (simp add: tee_targets_def opened_append)
  have g: "(if optind < length argv then tee_files opener (drop optind argv) (opened opener 0 (tee_targets opts []))
      else Inr (opened opener 0 (tee_targets opts []))) = Inr ?fds"
    using f by simp
  have c: "tee_close (\<lambda>s fd. s) fds w = w" for fds and w :: "int \<Rightarrow> 'a list"
    by (induction fds) auto
  obtain s' where s': "tee_copy append_stream ?fds (map Some chunks) s = Inr s'"
    "\<forall>fd. s' fd = (if fd \<in> set ?fds then s fd @ concat chunks else s fd)"
    using tee_copy_streams[OF assms(3,6)] by blast
  show ?thesis unfolding tee_main_def o rbind_simps g s'(1) c using s'(2) assms(4) by simp
qed

theorem tee_copies_witness:
  "\<exists>s'. tee_main (\<lambda>k f app. int k + 3) append_stream (\<lambda>s fd. s) [Opt_append ''log''] 3
      [''tee'', ''-a'', ''log'', ''copy''] [Some ''ab'', Some ''c''] (\<lambda>fd. if fd = 3 then ''old'' else [])
      = Inr ([3, 4], s') \<and> s' 3 = ''oldabc'' \<and> s' 4 = ''abc'' \<and> s' 1 = []"
  using tee_copies[of "\<lambda>k f app. int k + 3" "[Opt_append ''log'']" 3 "[''tee'', ''-a'', ''log'', ''copy'']"
      "[''ab'', ''c'']" "\<lambda>fd. if fd = 3 then ''old'' else []"]
  by (simp add: tee_targets_def)

end
