(* ===== verification/Acl.thy ===== *)
theory Acl
  imports Linked_Heap Error_Functions
begin

text \<open>
  \<open>17-1-acl.c\<close>: print what an access control list grants to a user or a group.  The outcomes of the
  library and system calls are the fields of an environment.  The file does not compile as it is.  On the way of a group the
  faults are of form only: semicolons are missing and \<open>acl_get_entry\<close> lacks an argument.  Two places that only a user reaches have no
  meaning, and what they do is an argument: the permission of the owner, which is assigned to a field \<open>per\<close> and
  printed from \<open>perm\<close>, and the search for the groups of a user without an entry, which reads the members from a field that the list node
  does not have.  The three lists, of the users and the groups of the ACL and of the
  groups to check, are in one store.
\<close>

type_synonym id32 = "32 word"    \<comment> \<open>\<open>uid_t\<close> and \<open>gid_t\<close>\<close>

section \<open>Entries and permissions\<close>

datatype acl_tag = ACL_USER_OBJ | ACL_USER | ACL_GROUP_OBJ | ACL_GROUP | ACL_MASK | ACL_OTHER
  | Tag int      \<comment> \<open>any other number\<close>

record acl_entry =
  tag :: "acl_tag option"         \<comment> \<open>\<open>None\<close>: the call failed\<close>
  qualifier :: "id32 option"      \<comment> \<open>\<open>None\<close>: a null pointer\<close>
  permset :: "(int \<times> int \<times> int) option"  \<comment> \<open>the results of \<open>acl_get_perm\<close> for read, write, execute\<close>

definition get_perm :: "acl_entry \<Rightarrow> int result" where
  "get_perm entry = (case permset entry of None \<Rightarrow> Inl (stop_with ''acl_get_permset'')
     | Some (r, w, x) \<Rightarrow>
         if r = -1 then Inl (stop_with ''acl_get_perm - ACL_READ'')
         else if w = -1 then Inl (stop_with ''acl_get_perm - ACL_WRITE'')
         else if x = -1 then Inl (stop_with ''acl_get_perm - ACL_EXECUTE'')
         else Inr (0x4 * r + 0x2 * w + 0x1 * x))"

definition perm_text :: "int \<Rightarrow> string" where
  "perm_text p = [if p AND 0x4 \<noteq> 0 then CHR ''r'' else CHR ''-'',
                  if p AND 0x2 \<noteq> 0 then CHR ''w'' else CHR ''-'',
                  if p AND 0x1 \<noteq> 0 then CHR ''x'' else CHR ''-'']"

text \<open>\<open>%-12s\<close> and \<open>%-8d\<close>.\<close>

definition pad_right :: "nat \<Rightarrow> string \<Rightarrow> string" where
  "pad_right n s = s @ replicate (n - length s) CHR '' ''"

definition plain_line :: "string \<Rightarrow> int \<Rightarrow> string" where
  "plain_line name p = pad_right 12 name @ replicate 9 CHR '' '' @ perm_text p @ [newline]"

definition id_line :: "string \<Rightarrow> id32 \<Rightarrow> int \<Rightarrow> string" where
  "id_line name i p = pad_right 12 name @ pad_right 8 (dec_int (sint i)) @ '' '' @ perm_text p @ [newline]"

section \<open>State and environment\<close>

text \<open>A node of one of the lists; in the list of groups to check the permissions are not set.\<close>

record acl_node =
  node_id :: id32
  node_perm :: "int option"

record acl_env =
  getpwuid :: "id32 \<Rightarrow> string option"
  getpwnam :: "string \<Rightarrow> id32 option"
  getgrgid :: "id32 \<Rightarrow> string option"
  getgrnam :: "string \<Rightarrow> id32 option"
  name_fits :: bool                              \<comment> \<open>whether \<open>malloc\<close> gives room for the name\<close>
  stat_ids :: "(id32 \<times> id32) option"
  acl_file_ok :: bool
  entries :: "acl_entry option list"             \<comment> \<open>\<open>None\<close>: \<open>acl_get_entry\<close> returned -1\<close>
  owner_perm :: int                              \<comment> \<open>the permission that is printed for the owner\<close>
  search :: "string \<Rightarrow> addr \<Rightarrow> acl_node store \<Rightarrow> acl_node store result"     \<comment> \<open>for the groups of a user\<close>

record acl_info =
  usr_list :: addr
  group_perm :: "int option"                     \<comment> \<open>uninitialised at first\<close>
  grp_list :: addr
  mask :: int
  other :: int
  nodes :: "acl_node store"

text \<open>The headers of the two lists; a null pointer is compared with -1, and then used.\<close>

definition acl_info0 :: "acl_node store \<Rightarrow> acl_info result" where
  "acl_info0 s = (case malloc_node s None of None \<Rightarrow> Inl (Undefined NullDeref)
     | Some (u, s1) \<Rightarrow> (case malloc_node s1 None of None \<Rightarrow> Inl (Undefined NullDeref)
        | Some (g, s2) \<Rightarrow> Inr \<lparr>usr_list = u, group_perm = None, grp_list = g, mask = 7, other = -1, nodes = s2\<rparr>))"

section \<open>The arguments\<close>

datatype subject = User id32 string | Group id32 string

definition acl_usage :: "string list \<Rightarrow> stop" where
  "acl_usage argv = stop_with (argv ! 0 @ '' u/g uid/gid/uname/gname file'' @ [newline])"

text \<open>The copy of a group's name is not checked.\<close>

definition acl_subject :: "acl_env \<Rightarrow> string list \<Rightarrow> subject result" where
  "acl_subject env argv =
     (if length argv \<noteq> 4 \<or> length (argv ! 1) \<noteq> 1 then Inl (acl_usage argv)
      else let i = word_of_int (atoi (argv ! 2)) :: id32 in
      if argv ! 1 = ''u'' then
        (if i \<noteq> 0
         then case getpwuid env i of None \<Rightarrow> Inl (stop_with ''getpwuid'')
              | Some name \<Rightarrow> if name_fits env then Inr (User i name) else Inl (stop_with ''malloc'')
         else case getpwnam env (argv ! 2) of None \<Rightarrow> Inl (stop_with ''getpwnam'')
              | Some u \<Rightarrow> Inr (User u (argv ! 2)))
      else if argv ! 1 = ''g'' then
        (if i \<noteq> 0
         then case getgrgid env i of None \<Rightarrow> Inl (stop_with ''getgrgid'')
              | Some name \<Rightarrow> if name_fits env then Inr (Group i name) else Inl (Undefined NullDeref)
         else case getgrnam env (argv ! 2) of None \<Rightarrow> Inl (stop_with ''getgrnam'')
              | Some g \<Rightarrow> Inr (Group g (argv ! 2)))
      else Inl (acl_usage argv))"

section \<open>Reading the list\<close>

definition add_node :: "acl_entry \<Rightarrow> int \<Rightarrow> addr \<Rightarrow> acl_node store \<Rightarrow> acl_node store result" where
  "add_node entry p h s =
     (case malloc_node s (map_option (\<lambda>i. \<lparr>node_id = i, node_perm = Some p\<rparr>) (qualifier entry)) of
        None \<Rightarrow> Inl (stop_with ''malloc'')
      | Some (tmp, s1) \<Rightarrow> if qualifier entry = None then Inl (stop_with ''acl_get_qualifier'') else link_after s1 h tmp)"

definition acl_entry_step :: "acl_entry \<Rightarrow> acl_info \<Rightarrow> acl_info result" where
  "acl_entry_step entry st = (case tag entry of None \<Rightarrow> Inl (stop_with ''acl_get_tag_type'')
     | Some t \<Rightarrow> rbind (get_perm entry) (\<lambda>p. case t of
         ACL_USER_OBJ \<Rightarrow> Inr st
       | ACL_USER \<Rightarrow> rbind (add_node entry p (usr_list st) (nodes st)) (\<lambda>s. Inr (st\<lparr>nodes := s\<rparr>))
       | ACL_GROUP_OBJ \<Rightarrow> Inr (st\<lparr>group_perm := Some p\<rparr>)
       | ACL_GROUP \<Rightarrow> rbind (add_node entry p (grp_list st) (nodes st)) (\<lambda>s. Inr (st\<lparr>nodes := s\<rparr>))
       | ACL_MASK \<Rightarrow> Inr (st\<lparr>mask := p\<rparr>)
       | _ \<Rightarrow> Inr (st\<lparr>other := p\<rparr>)))"

fun acl_read :: "acl_entry option list \<Rightarrow> acl_info \<Rightarrow> acl_info result" where
  "acl_read [] st = Inr st"
| "acl_read (None # es) st = Inl (stop_with ''acl_get_entry'')"
| "acl_read (Some e # es) st = rbind (acl_entry_step e st) (acl_read es)"

section \<open>Looking up the subject\<close>

definition perm_of :: "acl_node \<Rightarrow> int result" where
  "perm_of nd = (case node_perm nd of None \<Rightarrow> Inl (Undefined Uninitialised) | Some p \<Rightarrow> Inr p)"

text \<open>\<open>while (p) { if (p->uid == uid) { \<dots> break; } }\<close> never advances \<open>p\<close>.\<close>

partial_function (option) user_loop :: "id32 \<Rightarrow> acl_node store \<Rightarrow> addr \<Rightarrow> int option result option" where
  "user_loop uid s p =
     (if p = NULL then Some (Inr None)
      else obind (Some (get_payload s p)) (\<lambda>nd.
        if node_id nd = uid then obind (Some (perm_of nd)) (\<lambda>perm. Some (Inr (Some perm))) else user_loop uid s p))"

text \<open>The lines for a user that precede the look-up of groups, and whether a line was printed.\<close>

definition user_lines :: "acl_env \<Rightarrow> id32 \<Rightarrow> id32 \<Rightarrow> acl_info \<Rightarrow> acl_node store \<Rightarrow> (string \<times> bool) result option" where
  "user_lines env uid owner st s =
     (if uid = owner then Some (Inr (plain_line ''user_obj'' (owner_perm env), True))
      else obind (Some (get_next s (usr_list st))) (\<lambda>p. obind (user_loop uid s p) (\<lambda>r. Some (Inr (case r of
              None \<Rightarrow> ([], False)
            | Some perm \<Rightarrow> (id_line ''user'' uid (perm AND mask st), True))))))"

text \<open>What is put behind the header \<open>h\<close> of the groups to check.\<close>

definition groups_to_check :: "acl_env \<Rightarrow> subject \<Rightarrow> bool \<Rightarrow> addr \<Rightarrow> acl_node store \<Rightarrow> acl_node store result" where
  "groups_to_check env subj matched h s = (case subj of
     User uid name \<Rightarrow> if matched then Inr s else search env name h s
   | Group gid name \<Rightarrow> (case malloc_node s (Some \<lparr>node_id = gid, node_perm = None\<rparr>) of
         None \<Rightarrow> Inl (stop_with ''malloc'')
       | Some (tmp, s1) \<Rightarrow> link_after s1 h tmp))"

text \<open>The two nested loops: over the groups of the ACL, and over the groups to check.\<close>

partial_function (option) find_group :: "acl_node store \<Rightarrow> id32 \<Rightarrow> addr \<Rightarrow> acl_node option result option" where
  "find_group s gid p =
     (if p = NULL then Some (Inr None)
      else obind (Some (get_payload s p)) (\<lambda>nd.
        if gid = node_id nd then Some (Inr (Some nd)) else obind (Some (get_next s p)) (find_group s gid)))"

partial_function (option) match_loop :: "acl_node store \<Rightarrow> addr \<Rightarrow> addr \<Rightarrow> acl_node option result option" where
  "match_loop s g p =
     (if p = NULL then Some (Inr None)
      else obind (Some (get_payload s p)) (\<lambda>nd. obind (Some (get_next s g)) (\<lambda>a.
        obind (find_group s (node_id nd) a) (\<lambda>m. case m of
          Some x \<Rightarrow> Some (Inr (Some x))
        | None \<Rightarrow> obind (Some (get_next s p)) (match_loop s g)))))"

text \<open>The last line.  The identifier in the line for a group is the variable \<open>uid\<close>, 0 when a group was asked for.\<close>

definition last_line :: "subject \<Rightarrow> acl_info \<Rightarrow> acl_node option \<Rightarrow> string result" where
  "last_line subj st m = (case m of
     Some nd \<Rightarrow> rbind (perm_of nd) (\<lambda>p. Inr (id_line ''group''
       (case subj of User uid name \<Rightarrow> uid | Group gid name \<Rightarrow> 0) (p AND mask st)))
   | None \<Rightarrow> Inr (plain_line ''other'' (other st)))"

definition acl_report :: "acl_env \<Rightarrow> subject \<Rightarrow> id32 \<Rightarrow> acl_info \<Rightarrow> (string \<times> acl_node store) result option" where
  "acl_report env subj owner st =
     obind (Some (case malloc_node (nodes st) None of None \<Rightarrow> Inl (stop_with ''malloc'') | Some r \<Rightarrow> Inr r)) (\<lambda>(h, s).
     obind (case subj of User uid name \<Rightarrow> user_lines env uid owner st s | Group gid name \<Rightarrow> Some (Inr ([], False)))
       (\<lambda>(out, matched).
     obind (Some (groups_to_check env subj matched h s)) (\<lambda>s.
     obind (Some (get_next s h)) (\<lambda>p.
     obind (match_loop s (grp_list st) p) (\<lambda>m.
     obind (Some (last_line subj st m)) (\<lambda>l.
     obind (release_list s (usr_list st)) (\<lambda>s.
     obind (release_list s (grp_list st)) (\<lambda>s.
     obind (release_list s h) (\<lambda>s. Some (Inr (out @ l, s)))))))))))"

text \<open>The program; \<open>q\<close> nodes fit in memory.\<close>

definition acl_main :: "acl_env \<Rightarrow> nat \<Rightarrow> string list \<Rightarrow> (string \<times> acl_node store) result option" where
  "acl_main env q argv =
     obind (Some (acl_subject env argv)) (\<lambda>subj.
     obind (Some (acl_info0 \<lparr>cells = Map.empty, fresh = 1, quota = q\<rparr>)) (\<lambda>st.
       case stat_ids env of None \<Rightarrow> Some (Inl (stop_with ''stat''))
       | Some (uid, gid) \<Rightarrow>
           if \<not> acl_file_ok env then Some (Inl (stop_with ''acl_get_file''))
           else obind (Some (acl_read (entries env) st)) (\<lambda>st. acl_report env subj uid st)))"


section \<open>The lists in the store\<close>

text \<open>The lists of the users and the groups of the ACL, and nothing else in the store.\<close>

definition two_lists :: "acl_node store \<Rightarrow> addr \<Rightarrow> addr \<Rightarrow> (addr \<times> acl_node) list \<Rightarrow> (addr \<times> acl_node) list \<Rightarrow> bool" where
  "two_lists s u g U G \<longleftrightarrow> headed s u None U \<and> headed s g None G \<and>
     set (u # map fst U) \<inter> set (g # map fst G) = {} \<and> dom (cells s) = set (u # map fst U) \<union> set (g # map fst G)"

lemma two_lists_sym: "two_lists s u g U G \<longleftrightarrow> two_lists s g u G U"
  by (auto simp: two_lists_def)

lemma add_node_lists:
  assumes "two_lists s u g U G" and "0 < quota s" and "qualifier e = Some i"
  shows "\<exists>s'. add_node e p u s = Inr s' \<and> two_lists s' u g ((fresh s, \<lparr>node_id = i, node_perm = Some p\<rparr>) # U) G \<and> quota s' = quota s - 1"
proof -
  have h: "headed s u None U" "headed s g None G" using assms(1) by (auto simp: two_lists_def)
  obtain s1 s' where s: "malloc_node s (Some \<lparr>node_id = i, node_perm = Some p\<rparr>) = Some (fresh s, s1)" "link_after s1 u (fresh s) = Inr s'"
    "headed s' u None ((fresh s, \<lparr>node_id = i, node_perm = Some p\<rparr>) # U)" "quota s' = quota s - 1"
    "dom (cells s') = insert (fresh s) (dom (cells s))" "fresh s \<notin> dom (cells s)" "\<forall>a. a \<noteq> u \<longrightarrow> a \<noteq> fresh s \<longrightarrow> cells s' a = cells s a"
    using push_headed[OF h(1) assms(2)] by metis
  have "headed s' g None G"
  proof (rule headed_frame[OF h(2)])
    show "store_ok s'" using s(3) by (simp add: headed_def)
    show "\<forall>a\<in>set (g # map fst G). cells s' a = cells s a"
      using s(6,7) assms(1) headed_used[OF h(2)] unfolding two_lists_def by (metis IntI emptyE list.set_intros(1) subset_iff)
  qed
  then have "two_lists s' u g ((fresh s, \<lparr>node_id = i, node_perm = Some p\<rparr>) # U) G"
    using s(3,5,6) assms(1) by (auto simp: two_lists_def)
  then show ?thesis using s(1,2,4) assms(3) by (simp add: add_node_def)
qed

section \<open>What a sound list contains\<close>

definition entry_perm :: "acl_entry \<Rightarrow> int" where
  "entry_perm e = (case permset e of None \<Rightarrow> 0 | Some (r, w, x) \<Rightarrow> 4 * r + 2 * w + x)"

definition sound_entry :: "acl_entry \<Rightarrow> bool" where
  "sound_entry e \<longleftrightarrow> tag e \<noteq> None \<and> (tag e \<in> {Some ACL_USER, Some ACL_GROUP} \<longrightarrow> qualifier e \<noteq> None) \<and>
     (\<exists>r w x. permset e = Some (r, w, x) \<and> {r, w, x} \<subseteq> {0, 1})"

definition perms_of :: "acl_tag \<Rightarrow> acl_entry list \<Rightarrow> int list" where
  "perms_of t es = map entry_perm (filter (\<lambda>e. tag e = Some t) es)"

definition default_perms :: "acl_entry list \<Rightarrow> int list" where
  "default_perms es = map entry_perm (filter (\<lambda>e. tag e \<in> insert (Some ACL_OTHER) (range (Some \<circ> Tag))) es)"

definition named_perms :: "acl_tag \<Rightarrow> acl_entry list \<Rightarrow> (id32 \<times> int) list" where
  "named_perms t es = map (\<lambda>e. (the (qualifier e), entry_perm e)) (filter (\<lambda>e. tag e = Some t) es)"

abbreviation named_node :: "id32 \<times> int \<Rightarrow> acl_node" where
  "named_node x \<equiv> \<lparr>node_id = fst x, node_perm = Some (snd x)\<rparr>"

lemma get_perm_sound: "sound_entry e \<Longrightarrow> get_perm e = Inr (entry_perm e)"
  by (auto simp: sound_entry_def get_perm_def entry_perm_def)

text \<open>What reading leaves: the entries of the two lists, last first, and the other permissions.\<close>

definition collected :: "acl_info \<Rightarrow> acl_entry list \<Rightarrow> acl_info \<Rightarrow> bool" where
  "collected st es st' \<longleftrightarrow> (\<forall>U G. two_lists (nodes st) (usr_list st) (grp_list st) U G \<longrightarrow>
       (\<exists>U' G'. two_lists (nodes st') (usr_list st') (grp_list st') U' G' \<and>
          map snd U' = map named_node (rev (named_perms ACL_USER es)) @ map snd U \<and>
          map snd G' = map named_node (rev (named_perms ACL_GROUP es)) @ map snd G)) \<and>
     quota (nodes st) \<le> quota (nodes st') + length es \<and>
     mask st' = last (mask st # perms_of ACL_MASK es) \<and> other st' = last (other st # default_perms es)"

lemma collected_trans:
  assumes "collected st es st1" and "collected st1 fs st2"
  shows "collected st (es @ fs) st2"
proof -
  have l: "last (x # xs @ ys) = last (last (x # xs) # ys)" for x :: 'b and xs ys by (cases ys) (auto simp: last_append)
  have m: "mask st2 = last (mask st # perms_of ACL_MASK (es @ fs))" "other st2 = last (other st # default_perms (es @ fs))"
    using assms by (auto simp: collected_def perms_of_def default_perms_def l simp del: last.simps)
  have "\<exists>U' G'. two_lists (nodes st2) (usr_list st2) (grp_list st2) U' G' \<and>
      map snd U' = map named_node (rev (named_perms ACL_USER (es @ fs))) @ map snd U \<and>
      map snd G' = map named_node (rev (named_perms ACL_GROUP (es @ fs))) @ map snd G"
    if UG: "two_lists (nodes st) (usr_list st) (grp_list st) U G" for U G
  proof -
    obtain U1 G1 where 1: "two_lists (nodes st1) (usr_list st1) (grp_list st1) U1 G1"
      "map snd U1 = map named_node (rev (named_perms ACL_USER es)) @ map snd U"
      "map snd G1 = map named_node (rev (named_perms ACL_GROUP es)) @ map snd G"
      using assms(1) UG unfolding collected_def by blast
    obtain U2 G2 where 2: "two_lists (nodes st2) (usr_list st2) (grp_list st2) U2 G2"
      "map snd U2 = map named_node (rev (named_perms ACL_USER fs)) @ map snd U1"
      "map snd G2 = map named_node (rev (named_perms ACL_GROUP fs)) @ map snd G1"
      using assms(2) 1(1) unfolding collected_def by blast
    show ?thesis using 2 1 by (intro exI[of _ U2] exI[of _ G2]) (simp add: named_perms_def)
  qed
  moreover have "quota (nodes st) \<le> quota (nodes st2) + length (es @ fs)" using assms by (auto simp: collected_def)
  ultimately show ?thesis using m unfolding collected_def by blast
qed


lemma entry_collected:
  assumes "sound_entry e" and "0 < quota (nodes st)" and "two_lists (nodes st) (usr_list st) (grp_list st) U G"
  shows "\<exists>st'. acl_entry_step e st = Inr st' \<and> collected st [e] st'"
proof -
  obtain t where t: "tag e = Some t" using assms(1) by (auto simp: sound_entry_def)
  note defs = acl_entry_step_def t get_perm_sound[OF assms(1)] collected_def perms_of_def named_perms_def default_perms_def
  consider (user) "t = ACL_USER" | (grp) "t = ACL_GROUP" | (other) "t \<notin> {ACL_USER, ACL_GROUP}" by blast
  then show ?thesis
  proof cases
    case user
    then obtain i where i: "qualifier e = Some i" using assms(1) t by (auto simp: sound_entry_def)
    obtain s' where s': "add_node e (entry_perm e) (usr_list st) (nodes st) = Inr s'" "quota s' = quota (nodes st) - 1"
      using add_node_lists[OF assms(3,2) i] by blast
    have l: "\<exists>U' G'. two_lists s' (usr_list st) (grp_list st) U' G' \<and> map snd U' = named_node (i, entry_perm e) # map snd V \<and> map snd G' = map snd H"
      if "two_lists (nodes st) (usr_list st) (grp_list st) V H" for V H
      using add_node_lists[OF that assms(2) i, of "entry_perm e"] s'(1) by fastforce
    show ?thesis using user i s' l by (auto simp: defs)
  next
    case grp
    then obtain i where i: "qualifier e = Some i" using assms(1) t by (auto simp: sound_entry_def)
    have r: "two_lists (nodes st) (grp_list st) (usr_list st) G U" using assms(3) two_lists_sym by blast
    obtain s' where s': "add_node e (entry_perm e) (grp_list st) (nodes st) = Inr s'" "quota s' = quota (nodes st) - 1"
      using add_node_lists[OF r assms(2) i] by blast
    have l: "\<exists>U' G'. two_lists s' (usr_list st) (grp_list st) U' G' \<and> map snd U' = map snd V \<and> map snd G' = named_node (i, entry_perm e) # map snd H"
      if "two_lists (nodes st) (usr_list st) (grp_list st) V H" for V H
      using add_node_lists[OF that[unfolded two_lists_sym[of _ "usr_list st"]] assms(2) i, of "entry_perm e"] s'(1)
      by (fastforce simp: two_lists_sym[of _ "usr_list st"])
    show ?thesis using grp i s' l by (auto simp: defs)
  next
    case other
    then show ?thesis by (cases t) (auto simp: defs)
  qed
qed

lemma acl_read_collects:
  assumes "\<forall>e\<in>set es. sound_entry e" and "length es \<le> quota (nodes st)" and "two_lists (nodes st) (usr_list st) (grp_list st) U G"
  shows "\<exists>st'. acl_read (map Some es) st = Inr st' \<and> collected st es st'"
  using assms
proof (induction es arbitrary: st U G)
  case Nil
  then show ?case by (auto simp: collected_def named_perms_def perms_of_def default_perms_def)
next
  case (Cons e es)
  obtain st1 where st1: "acl_entry_step e st = Inr st1" "collected st [e] st1"
    using entry_collected[of e st U G] Cons.prems by auto
  then obtain U1 G1 where "two_lists (nodes st1) (usr_list st1) (grp_list st1) U1 G1"
    using Cons.prems(3) unfolding collected_def by blast
  moreover have "length es \<le> quota (nodes st1)" using st1(2) Cons.prems(2) by (auto simp: collected_def)
  ultimately obtain st' where st': "acl_read (map Some es) st1 = Inr st'" "collected st1 es st'"
    using Cons.IH[of st1 U1 G1] Cons.prems(1) by auto
  then show ?case using st1 collected_trans[OF st1(2) st'(2)] by auto
qed

section \<open>The searches\<close>

lemma find_group_seg:
  "store_ok s \<Longrightarrow> seg s p (map (apsnd Some) G) NULL \<Longrightarrow> find_group s gid p = Some (Inr (find (\<lambda>nd. gid = node_id nd) (map snd G)))"
proof (induction G arbitrary: p)
  case (Cons ax G)
  obtain a x where ax: "ax = (a, x)" by fastforce
  then obtain n where n: "p = a" "cells s a = Some (Node (Some x) n)" "seg s n (map (apsnd Some) G) NULL" using Cons.prems(2) by auto
  have ld: "load s a = Inr (Node (Some x) n)" by (rule load_ok[OF Cons.prems(1) n(2)])
  then have "a \<noteq> NULL" by (cases "a = NULL") (auto simp: load_def)
  then show ?case using ld Cons.IH[OF Cons.prems(1) n(3)] n(1) ax
    by (subst find_group.simps) (simp add: get_payload_def get_next_def)
qed (subst find_group.simps, simp)

lemma headed_list:
  assumes "headed s h y L"
  obtains p where "get_next s h = Inr p" and "seg s p (map (apsnd Some) L) NULL"
proof -
  obtain n where n: "cells s h = Some (Node y n)" "seg s n (map (apsnd Some) L) NULL" and ok: "store_ok s"
    using assms by (auto simp: headed_def)
  show thesis using that[of n] n load_ok[OF ok n(1)] by (simp add: get_next_def)
qed

lemma find_named: "find (\<lambda>nd. gid = node_id nd) (map named_node xs) = map_option (\<lambda>p. named_node (gid, p)) (map_of xs gid)"
  by (induction xs) auto

text \<open>The search for a user looks at the first entry only.\<close>

lemma user_loop_stuck:
  assumes "user_loop uid s p = Some r" and "get_payload s p = Inr nd"
  shows "p = NULL \<or> node_id nd = uid"
proof -
  have "get_payload s p = Inr nd \<longrightarrow> p = NULL \<or> node_id nd = uid"
  proof (rule user_loop.raw_induct [where P = "\<lambda>uid s p r. get_payload s p = Inr nd \<longrightarrow> p = NULL \<or> node_id nd = uid", OF _ assms(1)], goal_cases)
    case (1 rec uid s p r)
    show ?case using 1(1)[of uid s p r] 1(2) by (auto split: if_splits)
  qed
  then show ?thesis using assms(2) by simp
qed

lemma user_loop_seg:
  assumes "store_ok s" and "seg s p (map (apsnd Some) U) NULL" and "map snd U = map named_node xs"
  shows "user_loop uid s p = (case xs of [] \<Rightarrow> Some (Inr None)
    | (u, perm) # _ \<Rightarrow> if u = uid then Some (Inr (Some perm)) else None)"
proof (cases U)
  case Nil
  then show ?thesis using assms by (subst user_loop.simps) simp
next
  case (Cons ax L)
  obtain a x where ax: "ax = (a, x)" by fastforce
  obtain u perm ys where xs: "xs = (u, perm) # ys" using assms(3) Cons by (cases xs) auto
  then have x: "x = named_node (u, perm)" using assms(3) Cons ax by simp
  obtain n where n: "p = a" "cells s a = Some (Node (Some x) n)" using assms(2) Cons ax by auto
  have ld: "load s a = Inr (Node (Some x) n)" by (rule load_ok[OF assms(1) n(2)])
  then have a: "p \<noteq> NULL" using n(1) by (cases "a = NULL") (auto simp: load_def)
  have pl: "get_payload s p = Inr x" using ld n(1) by (simp add: get_payload_def)
  show ?thesis
  proof (cases "u = uid")
    case True
    then show ?thesis using a pl xs x by (subst user_loop.simps) (simp add: perm_of_def)
  next
    case False
    then show ?thesis using user_loop_stuck[of uid s p _ x] a pl x xs by (cases "user_loop uid s p") auto
  qed
qed

section \<open>What is printed\<close>

lemma release_third:
  assumes "two_lists s u g U G" and "quota s \<noteq> 0"
  shows "\<exists>s1. malloc_node s None = Some (fresh s, s1) \<and> headed s1 (fresh s) None [] \<and> headed s1 u None U \<and> headed s1 g None G \<and>
    quota s1 = quota s - 1 \<and> dom (cells s1) = insert (fresh s) (dom (cells s)) \<and> fresh s \<notin> dom (cells s)"
proof -
  have ok: "store_ok s" using assms(1) by (simp add: two_lists_def headed_def)
  obtain s1 where s1: "malloc_node s None = Some (fresh s, s1)" "headed s1 (fresh s) None []" "quota s1 = quota s - 1"
    "dom (cells s1) = insert (fresh s) (dom (cells s))" "fresh s \<notin> dom (cells s)" "\<forall>a. a \<noteq> fresh s \<longrightarrow> cells s1 a = cells s a"
    using new_header[OF ok] assms(2) by blast
  have f: "headed s1 h None L" if "headed s h None L" for h L
    using headed_frame[OF that] headed_used[OF that] s1(2,5,6) by (metis headed_def subset_iff)
  show ?thesis using s1 f assms(1) by (auto simp: two_lists_def)
qed

lemma release_all:
  assumes "headed s u None U" and "headed s g None G" and "headed s h None H"
    and "set (u # map fst U) \<inter> set (g # map fst G) = {}" and "set (u # map fst U) \<inter> set (h # map fst H) = {}"
    and "set (g # map fst G) \<inter> set (h # map fst H) = {}"
    and "dom (cells s) = set (u # map fst U) \<union> set (g # map fst G) \<union> set (h # map fst H)"
  shows "\<exists>s1 s2 s3. release_list s u = Some (Inr s1) \<and> release_list s1 g = Some (Inr s2) \<and> release_list s2 h = Some (Inr s3) \<and>
    cells s3 = Map.empty"
proof -
  obtain s1 where s1: "release_list s u = Some (Inr s1)" "cells s1 = cells s |` (- set (u # map fst U))" "store_ok s1"
    using release_headed[OF assms(1)] by blast
  have g: "headed s1 g None G" using headed_frame[OF assms(2) s1(3)] s1(2) assms(4) by (metis ComplI IntI emptyE restrict_in)
  have h: "headed s1 h None H" using headed_frame[OF assms(3) s1(3)] s1(2) assms(5) by (metis ComplI IntI emptyE restrict_in)
  obtain s2 where s2: "release_list s1 g = Some (Inr s2)" "cells s2 = cells s1 |` (- set (g # map fst G))" "store_ok s2"
    using release_headed[OF g] by blast
  have h2: "headed s2 h None H" using headed_frame[OF h s2(3)] s2(2) assms(6) by (metis ComplI IntI emptyE restrict_in)
  obtain s3 where s3: "release_list s2 h = Some (Inr s3)" "cells s3 = cells s2 |` (- set (h # map fst H))"
    using release_headed[OF h2] by blast
  have "dom (cells s3) = dom (cells s) - set (u # map fst U) - set (g # map fst G) - set (h # map fst H)"
    unfolding s3(2) s2(2) s1(2) by auto
  then have "dom (cells s3) = {}" using assms(7) by blast
  then show ?thesis using s1(1) s2(1) s3(1) by auto
qed

text \<open>The report on a group.\<close>

lemma report_group:
  assumes "two_lists (nodes st) (usr_list st) (grp_list st) U G" and "2 \<le> quota (nodes st)" and "map snd G = map named_node xs"
  shows "\<exists>s. acl_report env (Group gid name) owner st = Some (Inr (case map_of xs gid of
       Some perm \<Rightarrow> id_line ''group'' 0 (perm AND mask st) | None \<Rightarrow> plain_line ''other'' (other st), s)) \<and> cells s = Map.empty"
proof -
  let ?s = "nodes st" and ?x = "\<lparr>node_id = gid, node_perm = None\<rparr>"
  obtain s1 where s1: "malloc_node ?s None = Some (fresh ?s, s1)" "headed s1 (fresh ?s) None []" "headed s1 (usr_list st) None U"
    "headed s1 (grp_list st) None G" "quota s1 = quota ?s - 1" "dom (cells s1) = insert (fresh ?s) (dom (cells ?s))"
    "fresh ?s \<notin> dom (cells ?s)"
    using release_third[OF assms(1)] assms(2) by auto
  let ?h = "fresh ?s"
  obtain s2 s3 where s3: "malloc_node s1 (Some ?x) = Some (fresh s1, s2)" "link_after s2 ?h (fresh s1) = Inr s3"
    "headed s3 ?h None [(fresh s1, ?x)]" "dom (cells s3) = insert (fresh s1) (dom (cells s1))" "fresh s1 \<notin> dom (cells s1)"
    "\<forall>a. a \<noteq> ?h \<longrightarrow> a \<noteq> fresh s1 \<longrightarrow> cells s3 a = cells s1 a"
    using push_headed[OF s1(2), of ?x] s1(5) assms(2) by auto
  have ok: "store_ok s3" using s3(3) by (simp add: headed_def)
  have d: "dom (cells ?s) = set (usr_list st # map fst U) \<union> set (grp_list st # map fst G)"
    "set (usr_list st # map fst U) \<inter> set (grp_list st # map fst G) = {}"
    using assms(1) by (auto simp: two_lists_def)
  have "\<forall>a\<in>dom (cells ?s). cells s3 a = cells s1 a" using s1(6,7) s3(5,6) by (metis insertCI)
  then have ug: "headed s3 (usr_list st) None U" "headed s3 (grp_list st) None G"
    using headed_frame[OF s1(3) ok] headed_frame[OF s1(4) ok] unfolding d(1) by blast+
  obtain s5 s6 s7 where rel: "release_list s3 (usr_list st) = Some (Inr s5)" "release_list s5 (grp_list st) = Some (Inr s6)"
    "release_list s6 ?h = Some (Inr s7)" "cells s7 = Map.empty"
    using release_all[OF ug s3(3) d(2)] s1(6,7) s3(4,5) unfolding d(1) by auto
  obtain a where a: "get_next s3 (grp_list st) = Inr a" "seg s3 a (map (apsnd Some) G) NULL" using headed_list[OF ug(2)] by blast
  have f: "find_group s3 gid a = Some (Inr (map_option (\<lambda>p. named_node (gid, p)) (map_of xs gid)))"
    using find_group_seg[OF ok a(2), of gid] unfolding assms(3) find_named .
  have nx: "get_next s3 ?h = Inr (fresh s1)" "get_payload s3 (fresh s1) = Inr ?x" "fresh s1 \<noteq> NULL" "get_next s3 (fresh s1) = Inr NULL"
    using headed_next[of s3 ?h None "[]" "fresh s1" ?x "[]"] headed_next_last[OF s3(3)] s3(3) by auto
  have null: "match_loop s3 g NULL = Some (Inr None)" for g by (subst match_loop.simps) simp
  have m: "match_loop s3 (grp_list st) (fresh s1) = Some (Inr (map_option (\<lambda>p. named_node (gid, p)) (map_of xs gid)))"
    using nx(2,3,4) a(1) f null by (subst match_loop.simps) (simp split: option.splits)
  show ?thesis using s1(1) s3(1,2) nx(1) m rel
    by (auto simp: acl_report_def groups_to_check_def last_line_def perm_of_def split: option.splits)
qed


text \<open>The report on a user.  \<open>printed\<close> is the text without the store.\<close>

definition printed :: "(string \<times> acl_node store) result option \<Rightarrow> string result option" where
  "printed r = map_option (map_sum id fst) r"

definition all_freed :: "(string \<times> acl_node store) result option \<Rightarrow> bool" where
  "all_freed r \<longleftrightarrow> (\<forall>t s. r = Some (Inr (t, s)) \<longrightarrow> cells s = Map.empty)"

lemma printed_simps [simp]:
  "printed None = None" "printed (Some (Inl e)) = Some (Inl e)" "printed (Some (Inr (t, s))) = Some (Inr t)"
  "all_freed None" "all_freed (Some (Inl e))" "all_freed (Some (Inr (t, s))) \<longleftrightarrow> cells s = Map.empty"
  by (simp_all add: printed_def all_freed_def)

lemma report_user:
  assumes "two_lists (nodes st) (usr_list st) (grp_list st) U G" and "2 \<le> quota (nodes st)" and "map snd U = named_node (u, perm) # nds"
    and "map snd U = map named_node xs" and "uid \<noteq> owner"
  shows "printed (acl_report env (User uid name) owner st) =
      (if u = uid then Some (Inr (id_line ''user'' uid (perm AND mask st) @ plain_line ''other'' (other st))) else None) \<and>
    all_freed (acl_report env (User uid name) owner st)"
proof -
  let ?s = "nodes st"
  obtain s1 where s1: "malloc_node ?s None = Some (fresh ?s, s1)" "headed s1 (fresh ?s) None []" "headed s1 (usr_list st) None U"
    "headed s1 (grp_list st) None G" "quota s1 = quota ?s - 1" "dom (cells s1) = insert (fresh ?s) (dom (cells ?s))"
    "fresh ?s \<notin> dom (cells ?s)"
    using release_third[OF assms(1)] assms(2) by auto
  let ?h = "fresh ?s"
  have ok: "store_ok s1" using s1(2) by (simp add: headed_def)
  have d: "dom (cells ?s) = set (usr_list st # map fst U) \<union> set (grp_list st # map fst G)"
    "set (usr_list st # map fst U) \<inter> set (grp_list st # map fst G) = {}"
    using assms(1) by (auto simp: two_lists_def)
  obtain s5 s6 s7 where rel: "release_list s1 (usr_list st) = Some (Inr s5)" "release_list s5 (grp_list st) = Some (Inr s6)"
    "release_list s6 ?h = Some (Inr s7)" "cells s7 = Map.empty"
    using release_all[OF s1(3,4,2) d(2)] s1(6,7) unfolding d(1) by auto
  have null: "match_loop s1 g NULL = Some (Inr None)" for g by (subst match_loop.simps) simp
  have nx: "get_next s1 ?h = Inr NULL" using headed_next_last[OF s1(2)] by simp
  obtain p where p: "get_next s1 (usr_list st) = Inr p" "seg s1 p (map (apsnd Some) U) NULL" using headed_list[OF s1(3)] by blast
  obtain ys where "xs = (u, perm) # ys" using assms(3,4) by (cases xs) auto
  then have ul: "user_loop uid s1 p = (if u = uid then Some (Inr (Some perm)) else None)"
    using user_loop_seg[OF ok p(2) assms(4), of uid] by simp
  have gt: "groups_to_check env (User uid name) True ?h s1 = Inr s1" by (simp add: groups_to_check_def)
  show ?thesis
    using s1(1) p(1) ul gt nx null rel assms(5)
    by (auto simp: acl_report_def user_lines_def last_line_def)
qed

section \<open>The program\<close>

text \<open>Reading a sound list, with room for its nodes and two more.\<close>

lemma read_all:
  assumes "\<forall>e\<in>set es. sound_entry e" and "length es + 4 \<le> q"
  shows "\<exists>st st' U G. acl_info0 \<lparr>cells = Map.empty, fresh = 1, quota = q\<rparr> = Inr st \<and> acl_read (map Some es) st = Inr st' \<and>
    two_lists (nodes st') (usr_list st') (grp_list st') U G \<and> 2 \<le> quota (nodes st') \<and>
    map snd U = map named_node (rev (named_perms ACL_USER es)) \<and> map snd G = map named_node (rev (named_perms ACL_GROUP es)) \<and>
    mask st' = last (7 # perms_of ACL_MASK es) \<and> other st' = last (-1 # default_perms es)"
proof -
  let ?s = "\<lparr>cells = [1 \<mapsto> Node None NULL, 2 \<mapsto> Node None NULL], fresh = 3, quota = q - 2\<rparr>"
  let ?st = "\<lparr>usr_list = 1, group_perm = None, grp_list = 2, mask = 7, other = -1, nodes = ?s\<rparr>"
  have s: "acl_info0 \<lparr>cells = Map.empty, fresh = 1, quota = q\<rparr> = Inr ?st"
    using assms(2) by (auto simp: acl_info0_def malloc_node_def numeral_2_eq_2 numeral_3_eq_3)
  have two: "two_lists (nodes ?st) (usr_list ?st) (grp_list ?st) [] []"
    by (auto simp: two_lists_def headed_def store_ok_def)
  have l: "length es \<le> quota (nodes ?st)" using assms(2) by simp
  obtain st' where r: "acl_read (map Some es) ?st = Inr st'" "collected ?st es st'"
    using acl_read_collects[OF assms(1) l two] by blast
  then obtain U G where UG: "two_lists (nodes st') (usr_list st') (grp_list st') U G"
    "map snd U = map named_node (rev (named_perms ACL_USER es))" "map snd G = map named_node (rev (named_perms ACL_GROUP es))"
    using two unfolding collected_def by force
  have "mask st' = last (7 # perms_of ACL_MASK es)" "other st' = last (-1 # default_perms es)" "2 \<le> quota (nodes st')"
    using r(2) assms(2) by (auto simp: collected_def)
  then show ?thesis using s r(1) UG by blast
qed

text \<open>C31: for a group and a sound list the program prints the entry for the group, the last one if there
  are several, masked by the last mask entry, and otherwise the line of \<open>other\<close>; the entry of the
  owning group is never looked at, and the identifier in the line is 0.  All nodes of the three lists are
  released.\<close>

theorem acl_group_output:
  assumes "acl_subject env argv = Inr (Group gid name)" and "stat_ids env = Some ids" and "acl_file_ok env"
    and "entries env = map Some es" and "\<forall>e\<in>set es. sound_entry e" and "length es + 4 \<le> q"
  shows "printed (acl_main env q argv) = Some (Inr (case map_of (rev (named_perms ACL_GROUP es)) gid of
       Some perm \<Rightarrow> id_line ''group'' 0 (perm AND last (7 # perms_of ACL_MASK es))
     | None \<Rightarrow> plain_line ''other'' (last (-1 # default_perms es)))) \<and>
    all_freed (acl_main env q argv)"
proof -
  obtain st st' U G where st: "acl_info0 \<lparr>cells = Map.empty, fresh = 1, quota = q\<rparr> = Inr st" "acl_read (map Some es) st = Inr st'"
    "two_lists (nodes st') (usr_list st') (grp_list st') U G" "2 \<le> quota (nodes st')"
    "map snd G = map named_node (rev (named_perms ACL_GROUP es))"
    and c: "mask st' = last (7 # perms_of ACL_MASK es)" "other st' = last (-1 # default_perms es)"
    using read_all[OF assms(5,6)] by blast
  have "acl_main env q argv = acl_report env (Group gid name) (fst ids) st'"
    using st(1,2) assms(1-4) by (cases ids) (simp add: acl_main_def)
  then show ?thesis using report_group[OF st(3-5), of env gid name "fst ids"] unfolding c by auto
qed

text \<open>C32: what the program prints for a user other than the owner of the file when the list has entries for users.  Only the entry
  read last is looked at: if it is for the user, its line, masked by the last mask entry, is followed by the line of \<open>other\<close>, which should be printed only
  if nothing matched, and all nodes are released; if it is for someone else, the program does not end, since the loop never advances.\<close>

theorem acl_user_output:
  assumes "acl_subject env argv = Inr (User uid name)" and "stat_ids env = Some (owner, grp)" and "acl_file_ok env"
    and "entries env = map Some es" and "\<forall>e\<in>set es. sound_entry e" and "length es + 4 \<le> q"
    and "uid \<noteq> owner" and "named_perms ACL_USER es = us @ [(u, perm)]"
  shows "printed (acl_main env q argv) =
      (if u = uid then Some (Inr (id_line ''user'' uid (perm AND last (7 # perms_of ACL_MASK es)) @
         plain_line ''other'' (last (-1 # default_perms es)))) else None) \<and>
    all_freed (acl_main env q argv)"
proof -
  obtain st st' U G where st: "acl_info0 \<lparr>cells = Map.empty, fresh = 1, quota = q\<rparr> = Inr st" "acl_read (map Some es) st = Inr st'"
    "two_lists (nodes st') (usr_list st') (grp_list st') U G" "2 \<le> quota (nodes st')"
    "map snd U = map named_node (rev (named_perms ACL_USER es))"
    and c: "mask st' = last (7 # perms_of ACL_MASK es)" "other st' = last (-1 # default_perms es)"
    using read_all[OF assms(5,6)] by blast
  have "map snd U = named_node (u, perm) # map named_node (rev us)" using st(5) assms(8) by simp
  moreover have "acl_main env q argv = acl_report env (User uid name) owner st'"
    using st(1,2) assms(1-4) by (simp add: acl_main_def)
  ultimately show ?thesis using report_user[OF st(3,4) _ st(5) assms(7)] unfolding c by auto
qed

definition demo_entries :: "acl_entry list" where
  "demo_entries = [\<lparr>tag = Some ACL_USER_OBJ, qualifier = None, permset = Some (1, 1, 0)\<rparr>,
     \<lparr>tag = Some ACL_USER, qualifier = Some 5, permset = Some (1, 1, 1)\<rparr>,
     \<lparr>tag = Some ACL_GROUP, qualifier = Some 7, permset = Some (1, 1, 1)\<rparr>,
     \<lparr>tag = Some ACL_MASK, qualifier = None, permset = Some (1, 0, 0)\<rparr>,
     \<lparr>tag = Some ACL_OTHER, qualifier = None, permset = Some (0, 0, 0)\<rparr>]"

definition demo_acl :: "acl_entry list \<Rightarrow> acl_env" where
  "demo_acl es = \<lparr>getpwuid = (\<lambda>u. Some ''ann''), getpwnam = (\<lambda>n. Some (if n = ''ann'' then 5 else 6)), getgrgid = (\<lambda>g. Some ''staff''),
     getgrnam = (\<lambda>n. Some 7), name_fits = True, stat_ids = Some (1, 1), acl_file_ok = True, entries = map Some es,
     owner_perm = 6, search = (\<lambda>n h s. Inr s)\<rparr>"

lemma demo_sound: "\<forall>e\<in>set demo_entries. sound_entry e" "length demo_entries = 5"
  by (auto simp: demo_entries_def sound_entry_def)

lemma demo_perms:
  "named_perms ACL_USER demo_entries = [(5, 7)]" "named_perms ACL_GROUP demo_entries = [(7, 7)]" "perms_of ACL_MASK demo_entries = [4]"
  "default_perms demo_entries = [0]"
  by (auto simp: demo_entries_def named_perms_def perms_of_def default_perms_def entry_perm_def)

theorem acl_group_output_witness:
  "printed (acl_main (demo_acl demo_entries) 9 [''acl'', ''g'', ''staff'', ''f'']) = Some (Inr (id_line ''group'' 0 4))"
proof -
  have "acl_subject (demo_acl demo_entries) [''acl'', ''g'', ''staff'', ''f''] = Inr (Group 7 ''staff'')"
    by (simp add: acl_subject_def demo_acl_def atoi_def strtol_eval)
  from acl_group_output[OF this _ _ _ demo_sound(1), of "(1, 1)" 9] show ?thesis
    by (simp add: demo_acl_def demo_perms demo_sound(2))
qed

theorem acl_user_output_witness:
  "printed (acl_main (demo_acl demo_entries) 9 [''acl'', ''u'', ''ann'', ''f'']) =
     Some (Inr (id_line ''user'' 5 4 @ plain_line ''other'' 0)) \<and>
   printed (acl_main (demo_acl demo_entries) 9 [''acl'', ''u'', ''bob'', ''f'']) = None"
proof -
  have s: "acl_subject (demo_acl demo_entries) [''acl'', ''u'', n, ''f''] = Inr (User (if n = ''ann'' then 5 else 6) n)"
    if "n \<in> {''ann'', ''bob''}" for n
    using that by (auto simp: acl_subject_def demo_acl_def atoi_def strtol_eval)
  have u: "named_perms ACL_USER demo_entries = [] @ [(5, 7)]" by (simp add: demo_perms)
  show ?thesis
    using acl_user_output[OF s _ _ _ demo_sound(1) _ _ u, of "''ann''" 1 1 9] acl_user_output[OF s _ _ _ demo_sound(1) _ _ u, of "''bob''" 1 1 9]
      demo_sound(2)
    by (simp add: demo_acl_def demo_perms)
qed

end
