(* ===== verification/Process_Tree.thy ===== *)
theory Process_Tree
  imports Error_Functions
begin

text \<open>
  \<open>12-2-print_process_tree.c\<close>: read the status files of all processes and print them as a tree.  The
  table of nodes is a map; the list of nodes that hangs from a node's dummy \<open>child\<close> is the list of their
  process ids, which is faithful as long as no node is in two lists (an invariant proved below).
  \<open>malloc\<close> is taken to succeed; the directory and the status files are arguments.
\<close>

section \<open>The table\<close>

definition MAX_PID :: int where "MAX_PID = 32768"

record tree_node =
  npid :: int
  nppid :: int
  ins :: "string option"      \<comment> \<open>\<open>None\<close> is the null pointer\<close>
  kids :: "int list"

type_synonym table = "int \<rightharpoonup> tree_node"

definition in_table :: "int \<Rightarrow> bool" where
  "in_table pid \<longleftrightarrow> 0 \<le> pid \<and> pid < MAX_PID"

definition create_node :: "int \<Rightarrow> int \<Rightarrow> string \<Rightarrow> table \<Rightarrow> table result" where
  "create_node pid ppid name T =
     (if \<not> in_table pid then Inl (Undefined OutOfBounds)
      else if (case T pid of None \<Rightarrow> False | Some nd \<Rightarrow> npid nd \<noteq> -1) then Inr T
      else let T1 = T(pid \<mapsto> (case T pid of
               None \<Rightarrow> \<lparr>npid = pid, nppid = ppid, ins = Some name, kids = []\<rparr>
             | Some nd \<Rightarrow> nd\<lparr>nppid := ppid, ins := Some name\<rparr>)) in
        if \<not> in_table ppid then Inl (Undefined OutOfBounds)
        else let T2 = (if T1 ppid = None
                       then T1(ppid \<mapsto> \<lparr>npid = ppid, nppid = -1, ins = None, kids = []\<rparr>) else T1) in
          (case T2 ppid of None \<Rightarrow> Inl (Undefined NullDeref)
           | Some p \<Rightarrow> Inr (T2(ppid \<mapsto> p\<lparr>kids := pid # kids p\<rparr>))))"

section \<open>Reading the directory\<close>

text \<open>The text after a label, \<open>strstr(buffer, label) + n\<close>.\<close>

definition after_label :: "string \<Rightarrow> string \<Rightarrow> nat \<Rightarrow> string result" where
  "after_label buffer label n = (case strstr buffer label of None \<Rightarrow> Inl (Undefined NullDeref)
     | Some s \<Rightarrow> if length s < n then Inl (Undefined OutOfBounds) else Inr (drop n s))"

definition parse_status :: "string \<Rightarrow> (int \<times> int \<times> string) result" where
  "parse_status buffer =
     rbind (after_label buffer ''Pid:'' 5) (\<lambda>pid. rbind (after_label buffer ''PPid:'' 6) (\<lambda>ppid.
     rbind (after_label buffer ''Name:'' 6) (\<lambda>name.
       if newline \<notin> set name then Inl (Undefined NullDeref)
       else Inr (atoi pid, atoi ppid, takeWhile (\<lambda>c. c \<noteq> newline) name))))"

text \<open>What opening and reading a status file gives: the text in the buffer after the \<open>read\<close>.\<close>

datatype status_file = Cannot_open | Cannot_read | Status string

fun read_entries :: "(string \<times> status_file) list \<Rightarrow> bool \<Rightarrow> table \<Rightarrow> table result" where
  "read_entries [] readdir_ok T = (if readdir_ok then Inr T else Inl (stop_with ''readdir''))"
| "read_entries ((d_name, f) # es) readdir_ok T =
     (if strcmp d_name ''self'' = 0 \<or> strcmp d_name ''thread-self'' = 0 then read_entries es readdir_ok T
      else case f of Cannot_open \<Rightarrow> read_entries es readdir_ok T
      | Cannot_read \<Rightarrow> Inl (stop_with ''read'')
      | Status buffer \<Rightarrow> rbind (parse_status buffer) (\<lambda>(pid, ppid, name).
          rbind (create_node pid ppid name T) (read_entries es readdir_ok)))"

section \<open>Orphans and output\<close>

text \<open>The inner loop that moves the children of a node without a known parent to process 1.\<close>

partial_function (option) move_loop :: "int \<Rightarrow> table \<Rightarrow> table result option" where
  "move_loop i T = (case T i of None \<Rightarrow> Some (Inl (Undefined NullDeref))
     | Some nd \<Rightarrow> (case kids nd of [] \<Rightarrow> Some (Inr T)
        | tmp # r \<Rightarrow> let T1 = T(i \<mapsto> nd\<lparr>kids := r\<rparr>) in
            (case T1 1 of None \<Rightarrow> Some (Inl (Undefined NullDeref))
             | Some one \<Rightarrow> move_loop i (T1(1 \<mapsto> one\<lparr>kids := tmp # kids one\<rparr>)))))"

fun adopt_orphans :: "int list \<Rightarrow> table \<Rightarrow> table result option" where
  "adopt_orphans [] T = Some (Inr T)"
| "adopt_orphans (i # is) T = obind
     (case T i of None \<Rightarrow> Some (Inr T) | Some nd \<Rightarrow> if nppid nd = -1 then move_loop i T else Some (Inr T))
     (adopt_orphans is)"

text \<open>\<open>print_tree\<close>, with the array \<open>mark\<close> in the state and a bound on the depth of the recursion (\<open>None\<close> when it
  is used up).  The first argument of the second function is the current child \<open>p\<close> and what follows.\<close>

definition set_mark :: "nat \<Rightarrow> char \<Rightarrow> string \<Rightarrow> string result" where
  "set_mark i c mark = (if i < length mark then Inr (mark[i := c]) else Inl (Undefined OutOfBounds))"

fun print_tree :: "nat \<Rightarrow> table \<Rightarrow> int \<Rightarrow> nat \<Rightarrow> string \<Rightarrow> bool \<Rightarrow> string \<Rightarrow> (string \<times> string) result option"
and print_kids :: "nat \<Rightarrow> table \<Rightarrow> int list \<Rightarrow> nat \<Rightarrow> string \<Rightarrow> (string \<times> string) result option" where
  "print_tree 0 T root blank pre print mark = None"
| "print_tree (Suc n) T root blank pre print mark =
     (case T root of None \<Rightarrow> Some (Inl (Undefined NullDeref))
      | Some nd \<Rightarrow>
        if print \<and> length mark < blank then Some (Inl (Undefined OutOfBounds))
        else (case ins nd of None \<Rightarrow> Some (Inl (Undefined NullDeref))
        | Some name \<Rightarrow>
          let buffer = name @ ''('' @ dec_int (npid nd) @ '')'';
              out = (if print then take blank mark else []) @ pre @ buffer;
              blank' = blank + length buffer + (if npid nd = 1 then 1 else 3) in
          if 1024 \<le> length buffer then Some (Inl (Undefined OutOfBounds))
          else (case kids nd of [] \<Rightarrow> Some (Inr (out @ [newline], mark))
          | p # ps \<Rightarrow>
            obind (Some (if ps \<noteq> [] then set_mark blank' CHR ''|'' mark else Inr mark)) (\<lambda>mark1.
            obind (print_tree n T p blank' (if ps \<noteq> [] then ''-+-'' else ''---'') False mark1) (\<lambda>(out1, mark2).
            obind (print_kids n T ps blank' mark2) (\<lambda>(out2, mark3).
            obind (Some (set_mark blank' CHR '' '' mark3)) (\<lambda>mark4.
              Some (Inr (out @ out1 @ out2, mark4)))))))))"
| "print_kids n T [] blank mark = Some (Inr ([], mark))"
| "print_kids n T (p # ps) blank mark =
     obind (print_tree n T p blank (if ps \<noteq> [] then ''|-'' else ''`-'') True mark) (\<lambda>(out1, mark1).
     obind (print_kids n T ps blank mark1) (\<lambda>(out2, mark2). Some (Inr (out1 @ out2, mark2))))"

text \<open>The nodes are released in the order of the table; with a node go its name and its \<open>child\<close>.\<close>

fun release_nodes :: "int list \<Rightarrow> table \<Rightarrow> table" where
  "release_nodes [] T = T"
| "release_nodes (i # is) T = release_nodes is (case T i of None \<Rightarrow> T | Some nd \<Rightarrow> T(i := None))"

definition tree_main ::
    "nat \<Rightarrow> bool \<Rightarrow> (string \<times> status_file) list \<Rightarrow> bool \<Rightarrow> (string \<times> table) result option" where
  "tree_main depth opendir_ok es readdir_ok =
     (if \<not> opendir_ok then Some (Inl (stop_with ''opendir''))
      else obind (Some (read_entries es readdir_ok Map.empty)) (\<lambda>T.
        obind (adopt_orphans (map int [1..<nat MAX_PID]) T) (\<lambda>T.
        obind (print_tree depth T 1 0 [] False (replicate 1024 CHR '' '')) (\<lambda>(out, mark).
          Some (Inr (out, release_nodes (map int [0..<nat MAX_PID]) T))))))"

section \<open>Every process is in one list at most\<close>

text \<open>While the directory is read, a node is only in the list of the parent it names.\<close>

definition tree_inv :: "table \<Rightarrow> bool" where
  "tree_inv T \<longleftrightarrow> (\<forall>p nd. T p = Some nd \<longrightarrow> npid nd = p \<and> in_table p \<and> distinct (kids nd) \<and>
     (\<forall>c\<in>set (kids nd). \<exists>cn. T c = Some cn \<and> nppid cn = p))"

text \<open>Orphans may be moved to process 1 afterwards.\<close>

definition kids_once :: "table \<Rightarrow> bool" where
  "kids_once T \<longleftrightarrow> (\<forall>p a. T p = Some a \<longrightarrow> distinct (kids a)) \<and>
     (\<forall>p q a b. T p = Some a \<longrightarrow> T q = Some b \<longrightarrow> p \<noteq> q \<longrightarrow> set (kids a) \<inter> set (kids b) = {})"

lemma tree_inv_once: "tree_inv T \<Longrightarrow> kids_once T"
  unfolding tree_inv_def kids_once_def by (intro conjI allI impI) (auto, metis option.inject)

lemma create_node_cases:
  assumes "tree_inv T" and "create_node pid ppid name T = Inr T'"
  shows "T pid \<noteq> None \<and> T' = T \<or>
    T pid = None \<and> in_table pid \<and> in_table ppid \<and>
    (let old = (if ppid = pid then [] else case T ppid of None \<Rightarrow> [] | Some nd \<Rightarrow> kids nd) in
     T' = (T(pid \<mapsto> \<lparr>npid = pid, nppid = ppid, ins = Some name, kids = []\<rparr>))
       (ppid \<mapsto> (if ppid = pid then \<lparr>npid = pid, nppid = ppid, ins = Some name, kids = [pid]\<rparr>
                else case T ppid of None \<Rightarrow> \<lparr>npid = ppid, nppid = -1, ins = None, kids = [pid]\<rparr>
                  | Some nd \<Rightarrow> nd\<lparr>kids := pid # kids nd\<rparr>)))"
proof (cases "T pid")
  case None
  then show ?thesis using assms(2)
    by (auto simp: create_node_def Let_def split: if_splits option.splits)
next
  case (Some nd)
  then have "npid nd = pid" "in_table pid" using assms(1) by (auto simp: tree_inv_def)
  then have "npid nd \<noteq> -1" by (auto simp: in_table_def)
  then show ?thesis using assms(2) Some \<open>in_table pid\<close> by (simp add: create_node_def)
qed

lemma create_node_inv:
  assumes "tree_inv T" and "create_node pid ppid name T = Inr T'"
  shows "tree_inv T'"
proof (cases "T pid")
  case None
  note c = create_node_cases[OF assms, unfolded Let_def]
  have inv: "T p = Some nd \<Longrightarrow> npid nd = p \<and> in_table p \<and> distinct (kids nd) \<and> pid \<notin> set (kids nd) \<and>
      (\<forall>c\<in>set (kids nd). \<exists>cn. T c = Some cn \<and> nppid cn = p)" for p nd
    using assms(1) None unfolding tree_inv_def by fastforce
  let ?A = "\<lparr>npid = pid, nppid = ppid, ins = Some name, kids = []\<rparr>"
  obtain new where T': "T' = T(pid \<mapsto> ?A, ppid \<mapsto> new)"
    "npid new = ppid" "in_table ppid" "in_table pid" "distinct (kids new)"
    "\<forall>c\<in>set (kids new). c = pid \<or> (\<exists>cn. T c = Some cn \<and> nppid cn = ppid)"
    "\<And>nd. T ppid = Some nd \<Longrightarrow> nppid new = nppid nd" "ppid = pid \<Longrightarrow> nppid new = ppid"
  proof (cases "ppid = pid")
    case True
    then show ?thesis using that[of "\<lparr>npid = pid, nppid = ppid, ins = Some name, kids = [pid]\<rparr>"] c None by auto
  next
    case False
    show ?thesis
    proof (cases "T ppid")
      case None
      then show ?thesis using that[of "\<lparr>npid = ppid, nppid = -1, ins = None, kids = [pid]\<rparr>"] c False
          \<open>T pid = None\<close> by auto
    next
      case (Some nd)
      then show ?thesis using that[of "nd\<lparr>kids := pid # kids nd\<rparr>"] c False \<open>T pid = None\<close> inv[OF Some] by auto
    qed
  qed
  have self: "\<exists>cn. T' pid = Some cn \<and> nppid cn = ppid" using T'(1,8) by (cases "ppid = pid") auto
  have kid: "\<exists>cn. T' c = Some cn \<and> nppid cn = p" if "\<exists>cn. T c = Some cn \<and> nppid cn = p" for c p
    using that T'(1,7) None by (cases "c = ppid") auto
  show ?thesis unfolding tree_inv_def
  proof (intro allI impI)
    fix p nd assume p: "T' p = Some nd"
    consider "p = ppid" | "p = pid" "p \<noteq> ppid" | "p \<noteq> ppid" "p \<noteq> pid" by blast
    then show "npid nd = p \<and> in_table p \<and> distinct (kids nd) \<and>
        (\<forall>c\<in>set (kids nd). \<exists>cn. T' c = Some cn \<and> nppid cn = p)"
    proof cases
      case 1
      then have "nd = new" using p T'(1) by simp
      then show ?thesis using 1 T'(2,3,5,6) self kid by metis
    next
      case 2
      then have "nd = ?A" using p T'(1) by simp
      then show ?thesis using 2 T'(4) by simp
    next
      case 3
      then have "T p = Some nd" using p T'(1) by simp
      then show ?thesis using inv[of p nd] kid by blast
    qed
  qed
qed (use create_node_cases[OF assms] assms(1) in auto)

lemma read_entries_inv: "tree_inv T \<Longrightarrow> read_entries es ok T = Inr T' \<Longrightarrow> tree_inv T'"
proof (induction es arbitrary: T)
  case (Cons e es)
  obtain d_name f where e: "e = (d_name, f)" by fastforce
  show ?case
  proof (cases "strcmp d_name ''self'' = 0 \<or> strcmp d_name ''thread-self'' = 0 \<or> f = Cannot_open")
    case True
    then show ?thesis using Cons e by (auto split: if_splits)
  next
    case False
    then obtain buffer pid ppid name T1 where f: "create_node pid ppid name T = Inr T1"
      "read_entries es ok T1 = Inr T'"
      using Cons.prems(2) e by (cases f) auto
    then show ?thesis using Cons.IH create_node_inv[OF Cons.prems(1)] by blast
  qed
qed (simp split: if_splits)

lemma kids_onceD:
  "kids_once T \<Longrightarrow> T p = Some a \<Longrightarrow> T q = Some b \<Longrightarrow> p \<noteq> q \<Longrightarrow> set (kids a) \<inter> set (kids b) = {}"
  "kids_once T \<Longrightarrow> T p = Some a \<Longrightarrow> distinct (kids a)"
  unfolding kids_once_def by blast+

lemma move_once:
  assumes "kids_once T" and "T i = Some nd" and "kids nd = tmp # r"
    and "(T(i \<mapsto> nd\<lparr>kids := r\<rparr>)) 1 = Some one"
  shows "kids_once (T(i \<mapsto> nd\<lparr>kids := r\<rparr>, 1 \<mapsto> one\<lparr>kids := tmp # kids one\<rparr>))"
proof (cases "i = 1")
  case True
  then have "one = nd\<lparr>kids := r\<rparr>" using assms(4) by simp
  moreover have "nd\<lparr>kids := tmp # r\<rparr> = nd" using assms(3) by (cases nd) simp
  ultimately have "T(i \<mapsto> nd\<lparr>kids := r\<rparr>, 1 \<mapsto> one\<lparr>kids := tmp # kids one\<rparr>) = T(1 \<mapsto> nd)"
    using True by simp
  also have "\<dots> = T" using assms(2) True by auto
  finally show ?thesis using assms(1) by simp
next
  case False
  then have one: "T 1 = Some one" using assms(4) by simp
  have d: "distinct (tmp # r)" "distinct (kids one)" "(insert tmp (set r)) \<inter> set (kids one) = {}"
    using kids_onceD(2)[OF assms(1,2)] kids_onceD(2)[OF assms(1) one]
      kids_onceD(1)[OF assms(1,2) one False] assms(3) by auto
  have o: "T q = Some b \<Longrightarrow> q \<noteq> i \<Longrightarrow> q \<noteq> 1 \<Longrightarrow> distinct (kids b) \<and>
      insert tmp (set r) \<inter> set (kids b) = {} \<and> set (kids one) \<inter> set (kids b) = {}" for q b
    using kids_onceD(1)[OF assms(1,2), of q b] kids_onceD(1)[OF assms(1) one, of q b]
      kids_onceD(2)[OF assms(1), of q b] assms(3) by auto
  have p: "T q = Some b \<Longrightarrow> T q' = Some b' \<Longrightarrow> q \<noteq> q' \<Longrightarrow> set (kids b) \<inter> set (kids b') = {}" for q q' b b'
    using kids_onceD(1)[OF assms(1)] by blast
  show ?thesis unfolding kids_once_def
  proof (intro conjI allI impI)
    fix q b assume "(T(i \<mapsto> nd\<lparr>kids := r\<rparr>, 1 \<mapsto> one\<lparr>kids := tmp # kids one\<rparr>)) q = Some b"
    then show "distinct (kids b)" using d o False by (auto split: if_splits)
  next
    fix q q' b b'
    assume "(T(i \<mapsto> nd\<lparr>kids := r\<rparr>, 1 \<mapsto> one\<lparr>kids := tmp # kids one\<rparr>)) q = Some b"
      and "(T(i \<mapsto> nd\<lparr>kids := r\<rparr>, 1 \<mapsto> one\<lparr>kids := tmp # kids one\<rparr>)) q' = Some b'" and "q \<noteq> q'"
    then show "set (kids b) \<inter> set (kids b') = {}"
      using d o[of q b] o[of q' b'] p[of q b q' b'] False by (auto split: if_splits)
  qed
qed

lemma move_loop_once:
  assumes "move_loop i T = Some r"
  shows "kids_once T \<longrightarrow> (case r of Inl e \<Rightarrow> True | Inr T' \<Rightarrow> kids_once T')"
proof (rule move_loop.raw_induct [where P = "\<lambda>i T r. kids_once T \<longrightarrow>
    (case r of Inl e \<Rightarrow> True | Inr T' \<Rightarrow> kids_once T')", OF _ assms], goal_cases)
  case (1 rec i T r)
  show ?case
  proof
    assume once: "kids_once T"
    show "case r of Inl e \<Rightarrow> True | Inr T' \<Rightarrow> kids_once T'"
    proof (cases "T i")
      case None
      then show ?thesis using 1(2) by auto
    next
      case (Some nd)
      show ?thesis
      proof (cases "kids nd")
        case Nil
        then show ?thesis using 1(2) Some once by auto
      next
        case (Cons tmp ks)
        let ?T1 = "T(i \<mapsto> nd\<lparr>kids := ks\<rparr>)"
        show ?thesis
        proof (cases "?T1 1")
          case None
          then show ?thesis using 1(2) Some Cons by (auto simp: Let_def simp del: fun_upd_apply)
        next
          case one: (Some one)
          have "rec i (?T1(1 \<mapsto> one\<lparr>kids := tmp # kids one\<rparr>)) = Some r"
            using 1(2) Some Cons one by (simp add: Let_def del: fun_upd_apply)
          from 1(1)[OF this] show ?thesis using move_once[OF once Some Cons one] by blast
        qed
      qed
    qed
  qed
qed

lemma adopt_orphans_once:
  "kids_once T \<Longrightarrow> adopt_orphans is T = Some (Inr T') \<Longrightarrow> kids_once T'"
proof (induction "is" arbitrary: T)
  case (Cons i "is")
  then obtain T1 where T1: "(case T i of None \<Rightarrow> Some (Inr T)
      | Some nd \<Rightarrow> if nppid nd = -1 then move_loop i T else Some (Inr T)) = Some (Inr T1)"
    "adopt_orphans is T1 = Some (Inr T')" by auto
  have "kids_once T1"
    using T1(1) Cons.prems(1) move_loop_once[of i T "Inr T1"] by (auto split: option.splits if_splits)
  then show ?case using Cons.IH T1(2) by blast
qed simp

text \<open>A process that was read hangs from the node of its parent.  The nodes without a parent are placeholders.\<close>

definition linked :: "table \<Rightarrow> bool" where
  "linked T \<longleftrightarrow> (\<forall>c cn. T c = Some cn \<and> nppid cn \<noteq> -1 \<longrightarrow> (\<exists>pn. T (nppid cn) = Some pn \<and> c \<in> set (kids pn)))"

lemma create_node_linked:
  assumes "tree_inv T" and "linked T" and "create_node pid ppid name T = Inr T'"
  shows "linked T'"
proof (cases "T pid")
  case None
  let ?A = "\<lparr>npid = pid, nppid = ppid, ins = Some name, kids = []\<rparr>"
  have c: "in_table ppid" "T' = (T(pid \<mapsto> ?A))(ppid \<mapsto> (if ppid = pid then ?A\<lparr>kids := [pid]\<rparr>
      else case T ppid of None \<Rightarrow> \<lparr>npid = ppid, nppid = -1, ins = None, kids = [pid]\<rparr> | Some nd \<Rightarrow> nd\<lparr>kids := pid # kids nd\<rparr>))"
    using create_node_cases[OF assms(1,3)] None by (auto simp: Let_def split: option.splits)
  have up: "\<exists>nd'. T' p = Some nd' \<and> set (kids nd) \<subseteq> set (kids nd')" if "T p = Some nd" for p nd
    using that None by (auto simp: c(2))
  have self: "\<exists>nd. T' ppid = Some nd \<and> pid \<in> set (kids nd)" by (auto simp: c(2) split: option.splits)
  show ?thesis unfolding linked_def
  proof (intro allI impI)
    fix k kn assume k: "T' k = Some kn \<and> nppid kn \<noteq> -1"
    show "\<exists>pn. T' (nppid kn) = Some pn \<and> k \<in> set (kids pn)"
    proof (cases "k = pid")
      case True
      then have "nppid kn = ppid" using k by (auto simp: c(2) split: if_splits)
      then show ?thesis using self True by simp
    next
      case False
      then obtain on where "T k = Some on" "nppid on = nppid kn" using k by (auto simp: c(2) split: if_splits option.splits)
      then obtain pn where "T (nppid kn) = Some pn" "k \<in> set (kids pn)" using assms(2) k unfolding linked_def by metis
      then show ?thesis using up by blast
    qed
  qed
qed (use create_node_cases[OF assms(1,3)] assms(2) in auto)

lemma read_entries_linked: "tree_inv T \<Longrightarrow> linked T \<Longrightarrow> read_entries es ok T = Inr T' \<Longrightarrow> linked T'"
proof (induction es arbitrary: T)
  case (Cons e es)
  obtain d_name f where e: "e = (d_name, f)" by fastforce
  show ?case
  proof (cases "strcmp d_name ''self'' = 0 \<or> strcmp d_name ''thread-self'' = 0 \<or> f = Cannot_open")
    case True
    then show ?thesis using Cons e by (auto split: if_splits)
  next
    case False
    then obtain buffer pid ppid name T1 where f: "create_node pid ppid name T = Inr T1" "read_entries es ok T1 = Inr T'"
      using Cons.prems(3) e by (cases f) auto
    then show ?thesis using Cons.IH create_node_inv[OF Cons.prems(1)] create_node_linked[OF Cons.prems(1,2)] by blast
  qed
qed (simp split: if_splits)

text \<open>What hangs from a node is still there after the orphans were moved, or hangs from process 1.\<close>

definition moved :: "(int \<Rightarrow> tree_node \<Rightarrow> int) \<Rightarrow> table \<Rightarrow> table \<Rightarrow> bool" where
  "moved home T T' \<longleftrightarrow>
     (\<forall>p nd c. T p = Some nd \<and> c \<in> set (kids nd) \<longrightarrow> (\<exists>nd'. T' (home p nd) = Some nd' \<and> c \<in> set (kids nd'))) \<and>
     (\<forall>p nd. T p = Some nd \<longrightarrow> (\<exists>nd'. T' p = Some nd' \<and> nppid nd' = nppid nd))"

lemma moved_once:
  assumes "T i = Some nd" and "kids nd = tmp # r" and "(T(i \<mapsto> nd\<lparr>kids := r\<rparr>)) 1 = Some one"
    and "moved (\<lambda>p nd. if p = i then 1 else p) (T(i \<mapsto> nd\<lparr>kids := r\<rparr>, 1 \<mapsto> one\<lparr>kids := tmp # kids one\<rparr>)) T'"
  shows "moved (\<lambda>p nd. if p = i then 1 else p) T T'"
proof -
  let ?T2 = "T(i \<mapsto> nd\<lparr>kids := r\<rparr>, 1 \<mapsto> one\<lparr>kids := tmp # kids one\<rparr>)"
  have 1: "T p = Some a \<Longrightarrow> \<exists>b. ?T2 p = Some b \<and> nppid b = nppid a" for p a
    using assms(1,3) by (auto split: if_splits)
  have 2: "T p = Some a \<Longrightarrow> c \<in> set (kids a) \<Longrightarrow> (\<exists>b. ?T2 p = Some b \<and> c \<in> set (kids b)) \<or>
      p = i \<and> (\<exists>b. ?T2 1 = Some b \<and> c \<in> set (kids b))" for p a c
    using assms(1,2,3) by (auto split: if_splits)
  note m = assms(4)[unfolded moved_def]
  show ?thesis unfolding moved_def
  proof (intro conjI allI impI)
    fix p a c assume a: "T p = Some a \<and> c \<in> set (kids a)"
    have k: "\<exists>nd'. T' (if q = i then 1 else q) = Some nd' \<and> c \<in> set (kids nd')" if "?T2 q = Some b" "c \<in> set (kids b)" for q b
      using m that by blast
    consider b where "?T2 p = Some b" "c \<in> set (kids b)" | b where "p = i" "?T2 1 = Some b" "c \<in> set (kids b)"
      using 2[of p a c] a by blast
    then show "\<exists>nd'. T' (if p = i then 1 else p) = Some nd' \<and> c \<in> set (kids nd')"
    proof cases
      case 1
      then show ?thesis using k by blast
    next
      case 2
      then show ?thesis using k[of 1] by (auto split: if_splits)
    qed
  next
    fix p a assume "T p = Some a"
    then show "\<exists>nd'. T' p = Some nd' \<and> nppid nd' = nppid a" using 1[of p a] m by metis
  qed
qed

lemma move_loop_moved:
  assumes "move_loop i T = Some r"
  shows "\<forall>T'. r = Inr T' \<longrightarrow> moved (\<lambda>p nd. if p = i then 1 else p) T T'"
proof (rule move_loop.raw_induct [where P = "\<lambda>i T r. \<forall>T'. r = Inr T' \<longrightarrow> moved (\<lambda>p nd. if p = i then 1 else p) T T'", OF _ assms],
    intro allI impI, goal_cases)
  case (1 rec i T r T')
  show ?case
  proof (cases "T i")
    case None
    then show ?thesis using 1(2,3) by auto
  next
    case (Some nd)
    show ?thesis
    proof (cases "kids nd")
      case Nil
      then show ?thesis using 1(2,3) Some by (auto simp: moved_def)
    next
      case (Cons tmp ks)
      let ?T1 = "T(i \<mapsto> nd\<lparr>kids := ks\<rparr>)"
      show ?thesis
      proof (cases "?T1 1")
        case None
        then show ?thesis using 1(2,3) Some Cons by (auto simp: Let_def simp del: fun_upd_apply)
      next
        case one: (Some one)
        have "rec i (?T1(1 \<mapsto> one\<lparr>kids := tmp # kids one\<rparr>)) = Some r"
          using 1(2) Some Cons one by (simp add: Let_def del: fun_upd_apply)
        then have "moved (\<lambda>p nd. if p = i then 1 else p) (?T1(1 \<mapsto> one\<lparr>kids := tmp # kids one\<rparr>)) T'" using 1(1,3) by blast
        from moved_once[OF Some Cons one this] show ?thesis .
      qed
    qed
  qed
qed

definition home :: "int list \<Rightarrow> int \<Rightarrow> tree_node \<Rightarrow> int" where
  "home ids p nd = (if p \<in> set ids \<and> nppid nd = -1 then 1 else p)"

lemma adopt_orphans_moved: "adopt_orphans ids T = Some (Inr T') \<Longrightarrow> moved (home ids) T T'"
proof (induction ids arbitrary: T)
  case Nil
  then show ?case by (auto simp: moved_def home_def)
next
  case (Cons i ids)
  obtain T1 where T1: "(case T i of None \<Rightarrow> Some (Inr T)
      | Some nd \<Rightarrow> if nppid nd = -1 then move_loop i T else Some (Inr T)) = Some (Inr T1)" "adopt_orphans ids T1 = Some (Inr T')"
    using Cons.prems by auto
  note m = Cons.IH[OF T1(2), unfolded moved_def]
  show ?case
  proof (cases "\<exists>nd. T i = Some nd \<and> nppid nd = -1")
    case False
    then have "T1 = T" using T1(1) by (auto split: option.splits if_splits)
    moreover have "home (i # ids) p nd = home ids p nd" if "T p = Some nd" for p nd using False that by (auto simp: home_def)
    ultimately show ?thesis using m unfolding moved_def by metis
  next
    case True
    then have "moved (\<lambda>p nd. if p = i then 1 else p) T T1" using move_loop_moved T1(1) by fastforce
    note s = this[unfolded moved_def]
    show ?thesis unfolding moved_def
    proof (intro conjI allI impI)
      fix p nd c assume p: "T p = Some nd \<and> c \<in> set (kids nd)"
      obtain a where a: "T1 (if p = i then 1 else p) = Some a" "c \<in> set (kids a)" using s p by blast
      obtain b where "T1 p = Some b" "nppid b = nppid nd" using s p by blast
      then have "home ids (if p = i then 1 else p) a = home (i # ids) p nd"
        using a(1) True p by (auto simp: home_def split: if_splits)
      then show "\<exists>nd'. T' (home (i # ids) p nd) = Some nd' \<and> c \<in> set (kids nd')" using m a by metis
    next
      fix p nd assume "T p = Some nd"
      then show "\<exists>nd'. T' p = Some nd' \<and> nppid nd' = nppid nd" using s m by metis
    qed
  qed
qed

text \<open>Where a process is after the orphans were moved.\<close>

definition rehung :: "int list \<Rightarrow> table \<Rightarrow> table \<Rightarrow> bool" where
  "rehung ids T T' \<longleftrightarrow> (\<forall>c cn. T c = Some cn \<and> nppid cn \<noteq> -1 \<longrightarrow>
     (\<exists>p h. T (nppid cn) = Some p \<and> T' (home ids (nppid cn) p) = Some h \<and> c \<in> set (kids h)))"


section \<open>A parent that is read too late\<close>

lemma create_node_keeps:
  assumes "T p = Some nd" and "npid nd \<noteq> -1" and "create_node pid ppid name T = Inr T'"
  shows "\<exists>nd'. T' p = Some nd' \<and> npid nd' = npid nd \<and> ins nd' = ins nd \<and> nppid nd' = nppid nd \<and>
    set (kids nd) \<subseteq> set (kids nd')"
  using assms by (auto simp: create_node_def Let_def split: if_splits option.splits)

lemma read_entries_keeps:
  "T p = Some nd \<Longrightarrow> npid nd \<noteq> -1 \<Longrightarrow> read_entries es ok T = Inr T' \<Longrightarrow>
   \<exists>nd'. T' p = Some nd' \<and> ins nd' = ins nd \<and> nppid nd' = nppid nd \<and> set (kids nd) \<subseteq> set (kids nd')"
proof (induction es arbitrary: T nd)
  case (Cons e es)
  obtain d_name f where e: "e = (d_name, f)" by fastforce
  show ?case
  proof (cases "strcmp d_name ''self'' = 0 \<or> strcmp d_name ''thread-self'' = 0 \<or> f = Cannot_open")
    case True
    then show ?thesis using Cons e by (auto split: if_splits)
  next
    case False
    then obtain buffer pid ppid name T1 where f: "create_node pid ppid name T = Inr T1"
      "read_entries es ok T1 = Inr T'"
      using Cons.prems(3) e by (cases f) auto
    obtain n1 where n1: "T1 p = Some n1" "npid n1 = npid nd" "ins n1 = ins nd" "nppid n1 = nppid nd"
      "set (kids nd) \<subseteq> set (kids n1)"
      using create_node_keeps[OF Cons.prems(1,2) f(1)] by blast
    obtain n2 where "T' p = Some n2" "ins n2 = ins n1" "nppid n2 = nppid n1" "set (kids n1) \<subseteq> set (kids n2)"
      using Cons.IH[OF n1(1) _ f(2)] n1(2) Cons.prems(2) by auto
    then show ?thesis using n1 by auto
  qed
qed (simp split: if_splits)

lemma move_loop_self:
  assumes "move_loop i T = Some r"
  shows "i = 1 \<longrightarrow> (\<forall>nd. T 1 = Some nd \<longrightarrow> kids nd = [])"
proof (rule move_loop.raw_induct [where P = "\<lambda>i T r. i = 1 \<longrightarrow> (\<forall>nd. T 1 = Some nd \<longrightarrow> kids nd = [])", OF _ assms],
    goal_cases)
  case (1 rec i T r)
  show ?case
  proof (intro impI allI)
    fix nd assume i: "i = 1" and nd: "T 1 = Some nd"
    show "kids nd = []"
    proof (rule ccontr)
      assume "kids nd \<noteq> []"
      then obtain tmp ks where k: "kids nd = tmp # ks" by (cases "kids nd") auto
      have same: "(T(1 \<mapsto> nd\<lparr>kids := ks\<rparr>))(1 \<mapsto> (nd\<lparr>kids := ks\<rparr>)\<lparr>kids := tmp # kids (nd\<lparr>kids := ks\<rparr>)\<rparr>) = T"
        using k nd by (cases nd) (auto simp: fun_eq_iff)
      have "rec i T = Some r" using 1(2) i nd k same by (simp add: Let_def)
      from 1(1)[OF this] show False using i nd k by auto
    qed
  qed
qed

text \<open>C27: when a child is read before its parent, the placeholder made for the parent stays: its name and
  its own parent are never filled in, whatever is read later, so that it is treated as an orphan and
  printing it would read a null pointer; and if it is process 1, the program moves that process's
  children from its list to the same list for ever.\<close>

theorem late_parent_lost:
  assumes "create_node c p name T = Inr T1" and "T p = None" and "T c = None" and "c \<noteq> p"
  shows "case read_entries es readdir_ok T1 of Inl e \<Rightarrow> True
     | Inr T2 \<Rightarrow> (\<exists>nd. T2 p = Some nd \<and> ins nd = None \<and> nppid nd = -1 \<and> c \<in> set (kids nd)) \<and>
         print_tree (Suc depth) T2 p 0 [] False mark = Some (Inl (Undefined NullDeref)) \<and>
         (p = 1 \<longrightarrow> adopt_orphans (map int [1..<nat MAX_PID]) T2 = None)"
proof (cases "read_entries es readdir_ok T1")
  case (Inr T2)
  have "in_table p" using assms by (auto simp: create_node_def Let_def split: if_splits option.splits)
  then have "p \<noteq> -1" by (auto simp: in_table_def)
  moreover have "T1 p = Some \<lparr>npid = p, nppid = -1, ins = None, kids = [c]\<rparr>"
    using assms by (auto simp: create_node_def Let_def split: if_splits)
  ultimately obtain nd where nd: "T2 p = Some nd" "ins nd = None" "nppid nd = -1" "c \<in> set (kids nd)"
    using read_entries_keeps[of T1 p _ es readdir_ok T2] Inr by force
  have "adopt_orphans (map int [1..<nat MAX_PID]) T2 = None" if "p = 1"
  proof -
    have "kids nd \<noteq> []" using nd(4) by auto
    then have "move_loop 1 T2 = None"
      using move_loop_self[of 1 T2] nd(1) that by (cases "move_loop 1 T2") auto
    moreover have "1 < nat MAX_PID" by (simp add: MAX_PID_def)
    from upt_conv_Cons[OF this] have "map int [1..<nat MAX_PID] = 1 # map int [Suc 1..<nat MAX_PID]"
      by (simp only: list.map of_nat_1)
    ultimately show ?thesis using nd(1,3) that by simp
  qed
  then show ?thesis using nd Inr by simp
qed simp


theorem late_parent_lost_witness:
  "\<exists>T. create_node 9 1 ''b'' Map.empty = Inr T \<and> read_entries [] True T = Inr T \<and>
     print_tree 1 T 1 0 [] False [] = Some (Inl (Undefined NullDeref)) \<and> adopt_orphans (map int [1..<nat MAX_PID]) T = None"
proof -
  obtain T where T: "create_node 9 1 ''b'' Map.empty = Inr T" by (simp add: create_node_def in_table_def MAX_PID_def Let_def)
  have r: "read_entries [] True T = Inr T" by simp
  show ?thesis using late_parent_lost[OF T, where es = "[]" and readdir_ok = True and depth = 0 and mark = "[]"] T r by (auto simp del: adopt_orphans.simps print_tree.simps upt_Suc)
qed

text \<open>At the end every node is released.\<close>

definition in_range :: "table \<Rightarrow> bool" where
  "in_range T \<longleftrightarrow> (\<forall>p\<in>dom T. in_table p)"

lemma move_loop_range:
  assumes "move_loop i T = Some r"
  shows "in_range T \<longrightarrow> (case r of Inl e \<Rightarrow> True | Inr T' \<Rightarrow> in_range T')"
proof (rule move_loop.raw_induct [where P = "\<lambda>i T r. in_range T \<longrightarrow>
    (case r of Inl e \<Rightarrow> True | Inr T' \<Rightarrow> in_range T')", OF _ assms], goal_cases)
  case (1 rec i T r)
  have "in_range (T(i \<mapsto> nd\<lparr>kids := ks\<rparr>, 1 \<mapsto> one))" if "in_range T" "T i = Some nd" for nd ks one
    using that by (auto simp: in_range_def in_table_def MAX_PID_def split: if_splits)
  then show ?case using 1(1)[of i _ r] 1(2) by (auto simp: Let_def split: option.splits list.splits simp del: fun_upd_apply)
qed

lemma adopt_orphans_range: "in_range T \<Longrightarrow> adopt_orphans is T = Some (Inr T') \<Longrightarrow> in_range T'"
proof (induction "is" arbitrary: T)
  case (Cons i "is")
  then obtain T1 where T1: "(case T i of None \<Rightarrow> Some (Inr T)
      | Some nd \<Rightarrow> if nppid nd = -1 then move_loop i T else Some (Inr T)) = Some (Inr T1)"
    "adopt_orphans is T1 = Some (Inr T')" by auto
  have "in_range T1"
    using T1(1) Cons.prems(1) move_loop_range[of i T "Inr T1"] by (auto split: option.splits if_splits)
  then show ?case using Cons.IH T1(2) by blast
qed simp

lemma release_nodes_all: "release_nodes is T = T |` (- set is)"
proof (induction "is" arbitrary: T)
  case (Cons i "is")
  have "(case T i of None \<Rightarrow> T | Some nd \<Rightarrow> T(i := None)) = T(i := None)" by (auto split: option.splits)
  then show ?case using Cons by (auto simp: restrict_map_def)
qed (simp add: restrict_map_def)

lemma tree_main_releases:
  assumes "tree_main depth opendir_ok es readdir_ok = Some (Inr (out, T))"
  shows "T = Map.empty"
proof -
  obtain T1 T2 where r: "read_entries es readdir_ok Map.empty = Inr T1" "adopt_orphans (map int [1..<nat MAX_PID]) T1 = Some (Inr T2)"
    "T = release_nodes (map int [0..<nat MAX_PID]) T2"
    using assms by (auto simp: tree_main_def split: if_splits)
  have "tree_inv T1" using read_entries_inv[OF _ r(1)] by (simp add: tree_inv_def)
  then have "in_range T1" by (auto simp: in_range_def tree_inv_def)
  then have T2: "in_range T2" using adopt_orphans_range r(2) by blast
  have s: "p \<in> set (map int [0..<nat MAX_PID])" if "in_table p" for p
    using that by (auto simp: in_table_def MAX_PID_def image_iff intro!: bexI[of _ "nat p"])
  have "T p = None" for p
    unfolding r(3) release_nodes_all using T2 s[of p] by (cases "T2 p") (auto simp: in_range_def restrict_map_def)
  then show ?thesis by blast
qed

end
