(* ===== verification/Talk_Client.thy ===== *)
theory Talk_Client
  imports Talk_Server
begin

text \<open>
  \<open>46-6-talk_client.c\<close>: a client of the talk server.  It makes a message queue, logs in and forks; the
  parent sends the lines of its standard input, the child prints what arrives.  The system calls on
  queues are arguments, as in \<open>Talk_Server\<close>; the messages sent are also recorded.  A run that ends
  the process gives the way it stopped and the state after the exit handler.
\<close>

section \<open>State\<close>

record 'w talk_client =
  serverId :: c_int
  clientId :: c_int
  isChild :: bool
  clear_registered :: bool           \<comment> \<open>\<open>atexit(clear_msq)\<close> has succeeded\<close>
  cmsg :: clientMsg                  \<comment> \<open>the variable \<open>msg\<close> of \<open>main\<close>, uninitialised at first\<close>
  stdin :: "8 word list"             \<comment> \<open>what is left to read\<close>
  cworld :: 'w
  sent :: "(c_int \<times> clientMsg \<times> nat) list"

type_synonym ('w, 'a) run = "(stop \<times> 'w talk_client) + 'a"

text \<open>The bytes of a message that a \<open>msgsnd\<close> of this length carries.\<close>

definition wire :: "clientMsg \<Rightarrow> nat \<Rightarrow> clientMsg" where
  "wire m len = m\<lparr>mtext := take (len - 4) (mtext m)\<rparr>"

definition send_to :: "'w sender \<Rightarrow> clientMsg \<Rightarrow> nat \<Rightarrow> 'w talk_client \<Rightarrow> 'w talk_client \<times> send_outcome" where
  "send_to sendq m len cl = (case sendq (cworld cl) (serverId cl) (wire m len) len of (w, out) \<Rightarrow>
     (cl\<lparr>cworld := w, sent := sent cl @ (if out = Sent then [(serverId cl, wire m len, len)] else [])\<rparr>, out))"

section \<open>Leaving\<close>

definition client_clear_msq :: "'w remover \<Rightarrow> 'w talk_client \<Rightarrow> 'w talk_client" where
  "client_clear_msq rmid cl = (if isChild cl then cl else cl\<lparr>cworld := fst (rmid (cworld cl) (clientId cl))\<rparr>)"

text \<open>\<open>log_out\<close>, which nothing calls, and the same steps in the signal handler.\<close>

definition logout_message :: "c_int \<Rightarrow> clientMsg" where
  "logout_message pid = \<lparr>mtype = LOGOUT_MSG, msg_pid = pid, mtext = []\<rparr>"

definition log_out :: "'w sender \<Rightarrow> c_int \<Rightarrow> 'w talk_client \<Rightarrow> 'w talk_client" where
  "log_out sendq pid cl = (if isChild cl then cl else fst (send_to sendq (logout_message pid) 4 cl))"

text \<open>\<open>exit\<close>, through \<open>errExit\<close> or \<open>fatal\<close>: the registered handler runs.\<close>

definition quit :: "'w remover \<Rightarrow> string \<Rightarrow> 'w talk_client \<Rightarrow> ('w, 'a) run" where
  "quit rmid reason cl = Inl (stop_with reason, if clear_registered cl then client_clear_msq rmid cl else cl)"

definition client_handler ::
    "'w sender \<Rightarrow> 'w remover \<Rightarrow> c_int \<Rightarrow> int \<Rightarrow> 'w talk_client \<Rightarrow> 'w talk_client \<times> handler_call list" where
  "client_handler sendq rmid pid sig cl =
     (if sig = SIGALRM then (cl, [])
      else (if \<not> isChild cl
            then fst (send_to sendq (logout_message pid) 4 (cl\<lparr>cworld := fst (rmid (cworld cl) (clientId cl))\<rparr>))
            else cl,
            [H_default sig, H_raise sig, H_unblock sig]))"

section \<open>Starting\<close>

record 'w client_calls =
  known_open :: bool
  known_read :: "8 word list option"             \<comment> \<open>the bytes read, at most four\<close>
  msgget :: "'w \<Rightarrow> 'w \<times> c_int option"
  atexit_ok :: bool
  close_ok :: bool
  sigaction_ok :: "int \<Rightarrow> bool"

definition SIGINT :: int where "SIGINT = 2"
definition SIGTERM :: int where "SIGTERM = 15"

definition client_start :: "'w client_calls \<Rightarrow> 'w remover \<Rightarrow> 'w talk_client \<Rightarrow> ('w, 'w talk_client) run" where
  "client_start env rmid cl =
     (if \<not> known_open env then quit rmid ''open'' cl
      else case known_read env of None \<Rightarrow> quit rmid ''read'' cl
      | Some bs \<Rightarrow>
          let cl1 = cl\<lparr>serverId := of_le_bytes (bs @ drop (length bs) (le_bytes (serverId cl)))\<rparr> in
          case msgget env (cworld cl1) of
            (w, None) \<Rightarrow> quit rmid ''msgget'' (cl1\<lparr>cworld := w, clientId := -1\<rparr>)
          | (w, Some q) \<Rightarrow>
              let cl2 = cl1\<lparr>cworld := w, clientId := q\<rparr> in
              if \<not> atexit_ok env then quit rmid ''atexit - msq'' cl2
              else let cl3 = cl2\<lparr>clear_registered := True\<rparr> in
              if \<not> close_ok env then quit rmid ''close'' cl3
              else if \<not> sigaction_ok env SIGTERM then quit rmid ''sigaction - SIGTERM'' cl3
              else if \<not> sigaction_ok env SIGINT then quit rmid ''sigaction - SIGINT'' cl3
              else if \<not> sigaction_ok env SIGALRM then quit rmid ''sigaction - SIGALRM'' cl3
              else Inr cl3)"

definition client_login :: "'w sender \<Rightarrow> 'w remover \<Rightarrow> c_int \<Rightarrow> 'w talk_client \<Rightarrow> ('w, 'w talk_client) run" where
  "client_login sendq rmid pid cl =
     (let m = \<lparr>mtype = LOGIN_MSG, msg_pid = pid, mtext = le_bytes (clientId cl) @ drop 4 (mtext (cmsg cl))\<rparr>;
          (cl1, out) = send_to sendq m 8 (cl\<lparr>cmsg := m\<rparr>) in
      case out of Sent \<Rightarrow> Inr cl1
      | Interrupted \<Rightarrow> quit rmid ''unable to log in to server'' cl1
      | Failed \<Rightarrow> quit rmid ''msgsnd'' cl1)"

section \<open>The parent\<close>

text \<open>\<open>fgets(s, n, stdin)\<close>: the line that is stored, at most \<open>n - 1\<close> bytes, and the rest of the input.\<close>

fun read_line :: "nat \<Rightarrow> 8 word list \<Rightarrow> 8 word list \<times> 8 word list" where
  "read_line 0 bs = ([], bs)"
| "read_line (Suc n) [] = ([], [])"
| "read_line (Suc n) (b # bs) = (if b = 10 then ([b], bs) else apfst (Cons b) (read_line n bs))"

definition fgets_text :: "'w talk_client \<Rightarrow> 'w talk_client" where
  "fgets_text cl = (case read_line 511 (stdin cl) of (line, rest) \<Rightarrow>
     if line = [] then cl
     else cl\<lparr>stdin := rest, cmsg := (cmsg cl)\<lparr>mtext := line @ 0 # drop (length line + 1) (mtext (cmsg cl))\<rparr>\<rparr>)"

definition client_text :: "'w sender \<Rightarrow> 'w remover \<Rightarrow> 'w talk_client \<Rightarrow> ('w, 'w talk_client) run" where
  "client_text sendq rmid cl =
     (let cl1 = fgets_text cl; (cl2, out) = send_to sendq (cmsg cl1) CLI_LEN cl1 in
      case out of Sent \<Rightarrow> Inr cl2
      | Interrupted \<Rightarrow> quit rmid ''Unable to sent text to the server'' cl2
      | Failed \<Rightarrow> quit rmid ''msgsnd'' cl2)"

text \<open>\<open>n\<close> iterations of the endless loop.\<close>

fun client_texts :: "'w sender \<Rightarrow> 'w remover \<Rightarrow> nat \<Rightarrow> 'w talk_client \<Rightarrow> ('w, 'w talk_client) run" where
  "client_texts sendq rmid 0 cl = Inr cl"
| "client_texts sendq rmid (Suc n) cl = rbind (client_text sendq rmid cl) (client_texts sendq rmid n)"

section \<open>The child\<close>

text \<open>A received message overwrites the first bytes behind \<open>mtype\<close>.\<close>

definition receive_into :: "clientMsg \<Rightarrow> clientMsg \<Rightarrow> nat \<Rightarrow> clientMsg" where
  "receive_into old new len =
     (let bytes = take len (le_bytes (msg_pid new) @ mtext new)
                  @ drop len (le_bytes (msg_pid old) @ mtext old)
      in \<lparr>mtype = mtype new, msg_pid = of_le_bytes (take 4 bytes), mtext = drop 4 bytes\<rparr>)"

definition message_line :: "clientMsg \<Rightarrow> string result" where
  "message_line m = (if 0 \<notin> set (mtext m) then Inl (Undefined OutOfBounds)
     else Inr (dec_int (sint (msg_pid m)) @ '': '' @ map (\<lambda>b. char_of (unat b)) (takeWhile (\<lambda>b. b \<noteq> 0) (mtext m))
       @ [newline, newline]))"

text \<open>What the child writes, on standard output and standard error together, for each outcome of \<open>msgrcv\<close>.\<close>

fun client_child :: "'w remover \<Rightarrow> received list \<Rightarrow> 'w talk_client \<Rightarrow> ('w, string \<times> 'w talk_client) run" where
  "client_child rmid [] cl = Inr ([], cl)"
| "client_child rmid (Receive_error False # rs) cl = quit rmid ''msgrcv'' cl"
| "client_child rmid (Receive_error True # rs) cl = (case message_line (cmsg cl) of Inl e \<Rightarrow> Inl (e, cl)
     | Inr l \<Rightarrow> rbind (client_child rmid rs cl) (\<lambda>(out, cl').
         Inr (''No message from server!'' @ [newline] @ l @ out, cl')))"
| "client_child rmid (Received m len # rs) cl =
     (let cl1 = cl\<lparr>cmsg := receive_into (cmsg cl) m len\<rparr> in
      case message_line (cmsg cl1) of Inl e \<Rightarrow> Inl (e, cl1)
      | Inr l \<Rightarrow> rbind (client_child rmid rs cl1) (\<lambda>(out, cl'). Inr (l @ out, cl')))"

text \<open>\<open>main\<close>, with the loops cut off after \<open>n\<close> lines in the parent or the given messages in the child.\<close>

definition client_main ::
    "'w client_calls \<Rightarrow> 'w sender \<Rightarrow> 'w remover \<Rightarrow> c_int \<Rightarrow> int \<Rightarrow> nat \<Rightarrow> received list \<Rightarrow> 'w talk_client
     \<Rightarrow> ('w, string \<times> 'w talk_client) run" where
  "client_main env sendq rmid pid forked n rs cl =
     rbind (client_start env rmid cl) (\<lambda>cl1. rbind (client_login sendq rmid pid cl1) (\<lambda>cl2.
       if forked = -1 then quit rmid ''fork'' cl2
       else if forked = 0 then client_child rmid rs (cl2\<lparr>isChild := True\<rparr>)
       else rbind (client_texts sendq rmid n (cl2\<lparr>cmsg := (cmsg cl2)\<lparr>mtype := TEXT_MSG\<rparr>\<rparr>)) (\<lambda>cl3. Inr ([], cl3))))"

section \<open>What a client sends\<close>

lemma send_to_fields [simp]:
  "serverId (fst (send_to sendq m len cl)) = serverId cl"
  "clientId (fst (send_to sendq m len cl)) = clientId cl"
  "isChild (fst (send_to sendq m len cl)) = isChild cl"
  "cmsg (fst (send_to sendq m len cl)) = cmsg cl"
  "clear_registered (fst (send_to sendq m len cl)) = clear_registered cl"
  "sent (fst (send_to sendq m len cl)) = sent cl @
     (if snd (send_to sendq m len cl) = Sent then [(serverId cl, wire m len, len)] else [])"
  by (simp_all add: send_to_def split: prod.split)

lemma client_start_sent:
  "case client_start env rmid cl of
     Inl (e, cl') \<Rightarrow> sent cl' = sent cl
   | Inr cl' \<Rightarrow> sent cl' = sent cl \<and> isChild cl' = isChild cl \<and> clear_registered cl' \<and> length (mtext (cmsg cl')) = length (mtext (cmsg cl))"
  by (auto simp: client_start_def quit_def client_clear_msq_def Let_def split: option.splits prod.splits)

lemma wire_login:
  "wire \<lparr>mtype = LOGIN_MSG, msg_pid = pid, mtext = le_bytes q @ bs\<rparr> 8 = login_request \<lparr>cpid = pid, msgid = q\<rparr>"
  by (simp add: wire_def login_request_def)

text \<open>Both outcomes of the log-in: a logged-in client, or one that leaves without having sent anything.\<close>

lemma client_login_cases:
  "case client_login sendq rmid pid cl of
     Inl (e, cl') \<Rightarrow> sent cl' = sent cl
   | Inr cl' \<Rightarrow> sent cl' = sent cl @ [(serverId cl, login_request \<lparr>cpid = pid, msgid = clientId cl\<rparr>, 8)] \<and>
       serverId cl' = serverId cl \<and> clientId cl' = clientId cl \<and> isChild cl' = isChild cl \<and>
       clear_registered cl' = clear_registered cl"
proof -
  obtain w out where s: "sendq (cworld cl) (serverId cl) (login_request \<lparr>cpid = pid, msgid = clientId cl\<rparr>) 8 = (w, out)"
    by fastforce
  then show ?thesis
    by (cases out) (auto simp: client_login_def send_to_def wire_login quit_def client_clear_msq_def Let_def)
qed

lemma fgets_text_fields [simp]:
  "serverId (fgets_text cl) = serverId cl" "clientId (fgets_text cl) = clientId cl"
  "isChild (fgets_text cl) = isChild cl" "sent (fgets_text cl) = sent cl"
  "clear_registered (fgets_text cl) = clear_registered cl" "cworld (fgets_text cl) = cworld cl" "mtype (cmsg (fgets_text cl)) = mtype (cmsg cl)"
  by (auto simp: fgets_text_def split: prod.split)

lemma client_text_cases:
  "case client_text sendq rmid cl of
     Inl (e, cl') \<Rightarrow> sent cl' = sent cl \<and> clientId cl' = clientId cl \<and>
       (clear_registered cl \<and> \<not> isChild cl \<longrightarrow> (\<exists>w. cworld cl' = fst (rmid w (clientId cl))))
   | Inr cl' \<Rightarrow> (\<exists>m. sent cl' = sent cl @ [(serverId cl, m, CLI_LEN)] \<and> mtype m = mtype (cmsg cl)) \<and>
       serverId cl' = serverId cl \<and> clientId cl' = clientId cl \<and> isChild cl' = isChild cl \<and>
       clear_registered cl' = clear_registered cl \<and> mtype (cmsg cl') = mtype (cmsg cl)"
proof -
  let ?cl = "fgets_text cl"
  obtain w out where s: "sendq (cworld ?cl) (serverId ?cl) (wire (cmsg ?cl) CLI_LEN) CLI_LEN = (w, out)" by fastforce
  have m: "mtype (wire (cmsg ?cl) CLI_LEN) = mtype (cmsg cl)" by (simp add: wire_def)
  show ?thesis
    using s m by (cases out) (auto simp: client_text_def send_to_def quit_def client_clear_msq_def Let_def)
qed

text \<open>The messages of a run of the parent's loop.\<close>

definition texts_sent :: "c_int \<Rightarrow> nat \<Rightarrow> (c_int \<times> clientMsg \<times> nat) list \<Rightarrow> bool" where
  "texts_sent q n ms \<longleftrightarrow> length ms = n \<and> (\<forall>(q', m, len)\<in>set ms. q' = q \<and> mtype m = TEXT_MSG)"

lemma client_texts_cases:
  "mtype (cmsg cl) = TEXT_MSG \<Longrightarrow>
   case client_texts sendq rmid n cl of
     Inl (e, cl') \<Rightarrow> (\<exists>k ms. sent cl' = sent cl @ ms \<and> texts_sent (serverId cl) k ms) \<and> clientId cl' = clientId cl \<and>
       (clear_registered cl \<and> \<not> isChild cl \<longrightarrow> (\<exists>w. cworld cl' = fst (rmid w (clientId cl))))
   | Inr cl' \<Rightarrow> (\<exists>ms. sent cl' = sent cl @ ms \<and> texts_sent (serverId cl) n ms) \<and>
       serverId cl' = serverId cl \<and> clientId cl' = clientId cl \<and> isChild cl' = isChild cl"
proof (induction n arbitrary: cl)
  case 0
  then show ?case by (simp add: texts_sent_def)
next
  case (Suc n)
  show ?case
  proof (cases "client_text sendq rmid cl")
    case (Inl a)
    then show ?thesis using client_text_cases[where sendq = sendq and rmid = rmid and cl = cl]
      by (auto simp: texts_sent_def split: prod.splits)
  next
    case (Inr cl1)
    then obtain m where m: "sent cl1 = sent cl @ [(serverId cl, m, CLI_LEN)]" "mtype m = TEXT_MSG"
      "serverId cl1 = serverId cl" "clientId cl1 = clientId cl" "isChild cl1 = isChild cl"
      "clear_registered cl1 = clear_registered cl" "mtype (cmsg cl1) = TEXT_MSG"
      using client_text_cases[where sendq = sendq and rmid = rmid and cl = cl] Suc.prems by auto
    have ext: "texts_sent (serverId cl) k ms \<Longrightarrow> texts_sent (serverId cl) (Suc k) ((serverId cl, m, CLI_LEN) # ms)" for k ms
      using m(2) by (simp add: texts_sent_def)
    show ?thesis using Suc.IH[OF m(7)] m Inr ext
      by (auto split: sum.splits prod.splits)
  qed
qed

text \<open>A run in the parent: nothing is sent before the log-in, which comes first, and then only lines.\<close>

lemma client_main_cases:
  assumes "forked \<noteq> 0" and "sent cl = []" and "\<not> isChild cl"
  shows "case client_main env sendq rmid pid forked n rs cl of
     Inl (e, cl') \<Rightarrow> sent cl' = [] \<or>
       (\<exists>k ms srv. sent cl' = (srv, login_request \<lparr>cpid = pid, msgid = clientId cl'\<rparr>, 8) # ms \<and> texts_sent srv k ms \<and>
         (\<exists>w. cworld cl' = fst (rmid w (clientId cl'))))
   | Inr (out, cl') \<Rightarrow> (\<exists>ms. sent cl' = (serverId cl', login_request \<lparr>cpid = pid, msgid = clientId cl'\<rparr>, 8) # ms \<and>
       texts_sent (serverId cl') n ms) \<and> \<not> isChild cl'"
proof (cases "client_start env rmid cl")
  case (Inl a)
  then show ?thesis using client_start_sent[where env = env and rmid = rmid and cl = cl] assms(2)
    by (auto simp: client_main_def split: prod.splits)
next
  case (Inr cl1)
  then have 1: "sent cl1 = []" "\<not> isChild cl1" "clear_registered cl1"
    using client_start_sent[where env = env and rmid = rmid and cl = cl] assms by auto
  show ?thesis
  proof (cases "client_login sendq rmid pid cl1")
    case (Inl a)
    then show ?thesis using client_login_cases[where sendq = sendq and rmid = rmid and pid = pid and cl = cl1] 1 Inr
      by (auto simp: client_main_def split: prod.splits)
  next
    case (Inr cl2)
    let ?login = "(serverId cl2, login_request \<lparr>cpid = pid, msgid = clientId cl2\<rparr>, 8)"
    have 2: "sent cl2 = [?login]" "\<not> isChild cl2" "clear_registered cl2"
      using client_login_cases[where sendq = sendq and rmid = rmid and pid = pid and cl = cl1] 1 Inr by auto
    show ?thesis
    proof (cases "forked = -1")
      case True
      then show ?thesis using \<open>client_start env rmid cl = Inr cl1\<close> Inr 2
        by (auto simp: client_main_def quit_def client_clear_msq_def texts_sent_def)
    next
      case False
      let ?cl = "cl2\<lparr>cmsg := (cmsg cl2)\<lparr>mtype := TEXT_MSG\<rparr>\<rparr>"
      have t: "mtype (cmsg ?cl) = TEXT_MSG" by simp
      have r: "client_main env sendq rmid pid forked n rs cl = rbind (client_texts sendq rmid n ?cl) (\<lambda>cl3. Inr ([], cl3))"
        using \<open>client_start env rmid cl = Inr cl1\<close> Inr False assms(1) by (simp add: client_main_def)
      show ?thesis
        using client_texts_cases[OF t, where sendq = sendq and rmid = rmid and n = n] 2
        unfolding r by (cases "client_texts sendq rmid n ?cl") (auto split: prod.splits)
    qed
  qed
qed

section \<open>A client and the server\<close>

text \<open>The loop of the server on the messages that arrive.\<close>

fun server_loop :: "'w sender \<Rightarrow> 'w remover \<Rightarrow> received list \<Rightarrow> 'w server \<Rightarrow> 'w server result option" where
  "server_loop sendq rmid [] sv = Some (Inr sv)"
| "server_loop sendq rmid (rcv # rcvs) sv = obind (server_step sendq rmid rcv sv) (server_loop sendq rmid rcvs)"

definition arrivals :: "(c_int \<times> clientMsg \<times> nat) list \<Rightarrow> received list" where
  "arrivals ms = map (\<lambda>(q, m, len). Received m len) ms"

lemma arrivals_simps [simp]:
  "arrivals [] = []" "arrivals ((q, m, len) # ms) = Received m len # arrivals ms"
  "arrivals (ms @ ms') = arrivals ms @ arrivals ms'"
  by (simp_all add: arrivals_def)

text \<open>The server and the signal handler of a client run side by side: between two messages that the server handles a queue may be
  removed.\<close>

datatype talk_event = Handle received | Removed c_int

fun talk_run :: "'w sender \<Rightarrow> 'w remover \<Rightarrow> talk_event list \<Rightarrow> 'w server \<Rightarrow> 'w server result option" where
  "talk_run sendq rmid [] sv = Some (Inr sv)"
| "talk_run sendq rmid (Handle r # es) sv = obind (server_step sendq rmid r sv) (talk_run sendq rmid es)"
| "talk_run sendq rmid (Removed q # es) sv = talk_run sendq rmid es (sv\<lparr>world := fst (rmid (world sv) q)\<rparr>)"

lemma talk_run_append: "talk_run sendq rmid (xs @ ys) sv = obind (talk_run sendq rmid xs sv) (talk_run sendq rmid ys)"
proof (induction xs arbitrary: sv)
  case (Cons x xs)
  then show ?case by (cases x) (auto simp: obind_def split: sum.split Option.bind_split)
qed simp

text \<open>The calls on queues none of which is full, as documented: \<open>msgsnd\<close> succeeds as long as the queue has not been removed.\<close>

definition queue_calls :: "('w \<Rightarrow> c_int set) \<Rightarrow> 'w sender \<Rightarrow> 'w remover \<Rightarrow> bool" where
  "queue_calls live sendq rmid \<longleftrightarrow>
     (\<forall>w q m len. live (fst (sendq w q m len)) = live w \<and> snd (sendq w q m len) = (if q \<in> live w then Sent else Failed)) \<and>
     (\<forall>w q. live (fst (rmid w q)) = live w - {q})"

lemma queue_callsD:
  assumes "queue_calls live sendq rmid" and "sendq w q m len = (w', out)"
  shows "live w' = live w \<and> out = (if q \<in> live w then Sent else Failed)"
  using assms unfolding queue_calls_def by (metis fst_conv snd_conv)

lemma bcast_live:
  assumes "queue_calls live sendq rmid"
  shows "msgid ` set xs \<subseteq> live w \<Longrightarrow> \<exists>w' evs. bcast_spec sendq rmid m len w xs = Some (w', xs, evs) \<and> live w' = live w"
proof (induction xs arbitrary: w)
  case (Cons c cs)
  obtain w1 out where w1: "sendq w (msgid c) m len = (w1, out)" by fastforce
  have "live w1 = live w" "out = Sent" using queue_callsD[OF assms w1] Cons.prems by auto
  then show ?case using Cons.IH[of w1] Cons.prems w1 by auto
qed simp

definition is_line :: "received \<Rightarrow> bool" where
  "is_line r \<longleftrightarrow> (\<exists>m len. r = Received m len \<and> mtype m = TEXT_MSG)"

text \<open>Lines change neither the table nor the queues while every client in the table has its queue.\<close>

lemma talk_lines:
  assumes "queue_calls live sendq rmid"
  shows "server_holds sv xs \<Longrightarrow> msgid ` set xs \<subseteq> live (world sv) \<Longrightarrow> \<forall>r\<in>set rs. is_line r \<Longrightarrow>
    \<exists>sv'. talk_run sendq rmid (map Handle rs) sv = Some (Inr sv') \<and> server_holds sv' xs \<and> live (world sv') = live (world sv)"
proof (induction rs arbitrary: sv)
  case (Cons r rs)
  obtain m len where m: "r = Received m len" "mtype m = TEXT_MSG" using Cons.prems(3) by (auto simp: is_line_def)
  obtain w' evs where "bcast_spec sendq rmid m len (world sv) xs = Some (w', xs, evs)" "live w' = live (world sv)"
    using bcast_live[OF assms Cons.prems(2), of m len] by blast
  then obtain sv1 where "server_step sendq rmid r sv = Some (Inr sv1)" "server_holds sv1 xs" "live (world sv1) = live (world sv)"
    using text_refines_step[OF Cons.prems(1) m(2), of sendq rmid len] m(1) by auto
  then show ?case using Cons.IH[of sv1] Cons.prems(2,3) by auto
qed auto

text \<open>A line ends the server when the first client of the table has no queue.\<close>

lemma talk_line_stops:
  assumes "queue_calls live sendq rmid" and "server_holds sv (c # xs)" and "msgid c \<notin> live (world sv)" and "is_line r"
  shows "talk_run sendq rmid (Handle r # es) sv = Some (Inl (stop_with ''msgsnd''))"
proof -
  obtain m len where m: "r = Received m len" "mtype m = TEXT_MSG" using assms(4) by (auto simp: is_line_def)
  obtain w1 out where w1: "sendq (world sv) (msgid c) m len = (w1, out)" by fastforce
  then have "out = Failed" using queue_callsD[OF assms(1) w1] assms(3) by simp
  then show ?thesis using text_refines_step[OF assms(2) m(2), of sendq rmid len] m(1) w1 by simp
qed

lemma server_holds_world [simp]: "server_holds (sv\<lparr>world := w\<rparr>) xs = server_holds sv xs"
  by (simp add: server_holds_def)

text \<open>What the server gets from a client that a signal ends.\<close>

lemma session_messages:
  assumes "0 < forked" and "sent cl = []" and "\<not> isChild cl"
    and "client_main env csend crmid pid forked n rs cl = Inr (out, cl1)"
    and "sig \<noteq> SIGALRM" and "client_handler csend crmid pid sig cl1 = (cl2, calls)" and "snd (csend (fst (crmid (cworld cl1) (clientId cl1))) (serverId cl1) (logout_message pid) 4) = Sent"
  shows "hd (arrivals (sent cl2)) = Received (login_request \<lparr>cpid = pid, msgid = clientId cl1\<rparr>) 8"
    and "last (arrivals (sent cl2)) = Received (logout_message pid) 4" and "length (sent cl2) = n + 2"
proof -
  obtain ts where ts: "sent cl1 = (serverId cl1, login_request \<lparr>cpid = pid, msgid = clientId cl1\<rparr>, 8) # ts"
    "texts_sent (serverId cl1) n ts" "\<not> isChild cl1"
    using client_main_cases[OF _ assms(2,3), where forked = forked and env = env and sendq = csend and rmid = crmid
        and pid = pid and n = n and rs = rs] assms(1,4) by auto
  have "cl2 = fst (send_to csend (logout_message pid) 4 (cl1\<lparr>cworld := fst (crmid (cworld cl1) (clientId cl1))\<rparr>))"
    using assms(5,6) ts(3) by (simp add: client_handler_def)
  moreover have "wire (logout_message pid) 4 = logout_message pid" by (simp add: wire_def logout_message_def)
  ultimately have "sent cl2 = sent cl1 @ [(serverId cl1, logout_message pid, 4)]"
    using assms(7) by (cases "csend (fst (crmid (cworld cl1) (clientId cl1))) (serverId cl1) (logout_message pid) 4") (simp add: send_to_def)
  then show "hd (arrivals (sent cl2)) = Received (login_request \<lparr>cpid = pid, msgid = clientId cl1\<rparr>) 8"
    "last (arrivals (sent cl2)) = Received (logout_message pid) 4" "length (sent cl2) = n + 2"
    using ts(1,2) by (simp_all add: texts_sent_def)
qed

text \<open>C5: a client that logs in, sends lines and is then ended by a signal.  Its handler removes its queue first and logs out
  after that.  The server's table of clients is in the end what it was before the session exactly if the server handles no line, of any
  client, between the removal and the log-out; the first such line ends the server, because \<open>msgsnd\<close> to a removed queue fails with an
  error other than \<open>EINTR\<close>.  No queue is full.\<close>

theorem session_leaves_table:
  assumes "0 < forked" and "sent cl = []" and "\<not> isChild cl"
    and "client_main env csend crmid pid forked n rs cl = Inr (out, cl1)"
    and "sig \<noteq> SIGALRM" and "client_handler csend crmid pid sig cl1 = (cl2, calls)"
    and "snd (csend (fst (crmid (cworld cl1) (clientId cl1))) (serverId cl1) (logout_message pid) 4) = Sent"
    and "queue_calls live ssend srmid" and "server_holds sv xs" and "0 < quota (clients sv)"
    and "insert (clientId cl1) (msgid ` set xs) \<subseteq> live (world sv)" and "clientId cl1 \<notin> msgid ` set xs"
    and "\<forall>r\<in>set (a @ b @ c). is_line r"
    and "events = Handle (hd (arrivals (sent cl2))) # map Handle a @ Removed (clientId cl1) # map Handle b @
      Handle (last (arrivals (sent cl2))) # map Handle c"
  shows "length (sent cl2) = n + 2 \<and>
    (if b = [] then \<exists>sv'. talk_run ssend srmid events sv = Some (Inr sv') \<and> server_holds sv' xs
     else talk_run ssend srmid events sv = Some (Inl (stop_with ''msgsnd'')))"
proof -
  let ?c = "\<lparr>cpid = pid, msgid = clientId cl1\<rparr>"
  note ms = session_messages[OF assms(1-7)]
  obtain sv1 where sv1: "server_step ssend srmid (Received (login_request ?c) 8) sv = Some (Inr sv1)"
    "server_holds sv1 (?c # xs)" "world sv1 = world sv"
    using login_holds[OF assms(9,10), of "login_request ?c"]
    by (auto simp: server_step_def login_request_def text_int_def)
  obtain sv2 where sv2: "talk_run ssend srmid (map Handle a) sv1 = Some (Inr sv2)" "server_holds sv2 (?c # xs)"
    "live (world sv2) = live (world sv)"
    using talk_lines[OF assms(8) sv1(2), of a] assms(11,13) sv1(3) by auto
  let ?sv3 = "sv2\<lparr>world := fst (srmid (world sv2) (clientId cl1))\<rparr>"
  have live: "live (world ?sv3) = live (world sv) - {clientId cl1}" using assms(8) sv2(3) by (simp add: queue_calls_def)
  have run: "talk_run ssend srmid events sv = talk_run ssend srmid (map Handle b @ Handle (Received (logout_message pid) 4) # map Handle c) ?sv3"
    unfolding assms(14) ms(1,2) using sv1(1) sv2(1) by (simp add: talk_run_append)
  show ?thesis
  proof (cases b)
    case Nil
    obtain sv4 where sv4: "server_step ssend srmid (Received (logout_message pid) 4) ?sv3 = Some (Inr sv4)" "server_holds sv4 xs"
      "world sv4 = world ?sv3"
      using logout_holds[of ?sv3 "?c # xs" pid] sv2(2)
      by (auto simp: server_step_def logout_message_def LOGIN_MSG_def LOGOUT_MSG_def)
    have "msgid ` set xs \<subseteq> live (world sv4)" using live sv4(3) assms(11) assms(12)[unfolded image_iff] by auto
    from talk_lines[OF assms(8) sv4(2) this, of c] show ?thesis using run sv4(1) Nil ms(3) assms(13) by auto
  next
    case (Cons r b')
    then show ?thesis using run talk_line_stops[OF assms(8), of ?sv3 ?c xs r] sv2(2) live assms(13) ms(3) by simp
  qed
qed

lemma bcast_gone:
  assumes "\<And>w q m len. gone w \<Longrightarrow> gone (fst (sendq w q m len))" and "\<And>w q. gone w \<Longrightarrow> gone (fst (rmid w q))"
    and "\<And>w m len. gone w \<Longrightarrow> snd (sendq w (msgid c) m len) = Failed"
  shows "gone w \<Longrightarrow> c \<in> set xs \<Longrightarrow> bcast_spec sendq rmid m len w xs = None"
proof (induction xs arbitrary: w)
  case (Cons x xs)
  obtain w1 out where out: "sendq w (msgid x) m len = (w1, out)" by fastforce
  obtain w2 ok where rm: "rmid w1 (msgid x) = (w2, ok)" by fastforce
  have g: "gone w1" "gone w2" using assms(1,2) Cons.prems(1) out rm by (metis fst_conv)+
  show ?case
  proof (cases "x = c")
    case True
    then show ?thesis using assms(3)[OF Cons.prems(1), of m len] out by simp
  next
    case False
    then show ?thesis using Cons.IH[of w1] Cons.IH[of w2] Cons.prems(2) g out rm by (cases out) auto
  qed
qed simp

text \<open>C6: when the client's parent process ends by itself after the log-in, because \<open>fork\<close> or the sending of a
  line fails, its exit handler removes the queue but nothing logs the client out: \<open>log_out\<close> is never
  registered.  Then the next line that any client sends ends the server, since \<open>msgsnd\<close> to a removed
  queue fails with an error other than \<open>EINTR\<close>.\<close>

theorem client_exit_stops_server:
  assumes "forked \<noteq> 0" and "sent cl = []" and "\<not> isChild cl"
    and "client_main env sendq rmid pid forked n rs cl = Inl (e, cl')" and "sent cl' \<noteq> []"
    and "\<And>w. gone (fst (rmid w (clientId cl')))"
    and "\<And>w q m len. gone w \<Longrightarrow> gone (fst (sendq w q m len))" and "\<And>w q. gone w \<Longrightarrow> gone (fst (rmid w q))"
    and "\<And>w m len. gone w \<Longrightarrow> snd (sendq w (clientId cl') m len) = Failed"
    and "server_holds sv xs" and "0 < quota (clients sv)" and "world sv = cworld cl'" and "mtype m = TEXT_MSG"
  shows "LOGOUT_MSG \<notin> (\<lambda>(q, m, len). mtype m) ` set (sent cl') \<and>
    server_loop sendq rmid [hd (arrivals (sent cl')), Received m len] sv = Some (Inl (stop_with ''msgsnd''))"
proof -
  let ?c = "\<lparr>cpid = pid, msgid = clientId cl'\<rparr>"
  obtain k ts srv w where ts: "sent cl' = (srv, login_request ?c, 8) # ts" "texts_sent srv k ts"
    "cworld cl' = fst (rmid w (clientId cl'))"
    using client_main_cases[OF assms(1-3), where env = env and sendq = sendq and rmid = rmid and pid = pid and n = n and rs = rs] assms(4,5) by auto
  have gone: "gone (world sv)" using assms(6,12) ts(3) by simp
  obtain sv1 where sv1: "server_step sendq rmid (Received (login_request ?c) 8) sv = Some (Inr sv1)"
    "server_holds sv1 (?c # xs)" "world sv1 = world sv"
    using login_holds[OF assms(10,11), of "login_request ?c"]
    by (auto simp: server_step_def login_request_def text_int_def)
  have "bcast_spec sendq rmid m len (world sv1) (?c # xs) = None"
  proof (rule bcast_gone[where gone = gone and c = ?c])
    show "gone (world sv1)" using gone sv1(3) by simp
  qed (use assms(7-9) in simp_all)
  then have "server_step sendq rmid (Received m len) sv1 = Some (Inl (stop_with ''msgsnd''))"
    using text_refines_step[OF sv1(2) assms(13), of sendq rmid len] by simp
  moreover have "LOGOUT_MSG \<notin> (\<lambda>(q, m, len). mtype m) ` set (sent cl')"
    using ts(1,2) by (auto simp: texts_sent_def login_request_def LOGIN_MSG_def LOGOUT_MSG_def TEXT_MSG_def)
  ultimately show ?thesis using sv1(1) ts(1) by simp
qed

section \<open>Examples\<close>

definition demo_client :: "'w \<Rightarrow> 'w talk_client" where
  "demo_client w = \<lparr>serverId = 0, clientId = 0, isChild = False, clear_registered = False,
     cmsg = \<lparr>mtype = 0, msg_pid = 0, mtext = replicate 512 0\<rparr>, stdin = [104, 105, 10], cworld = w, sent = []\<rparr>"

definition demo_calls :: "('w \<Rightarrow> 'w) \<Rightarrow> 'w client_calls" where
  "demo_calls f = \<lparr>known_open = True, known_read = Some (le_bytes 9), msgget = (\<lambda>w. (f w, Some 100)),
     atexit_ok = True, close_ok = True, sigaction_ok = (\<lambda>sig. True)\<rparr>"

lemma demo_start:
  "client_start (demo_calls f) rmid (demo_client w) =
     Inr ((demo_client (f w))\<lparr>serverId := 9, clientId := 100, clear_registered := True\<rparr>)"
  by (simp add: client_start_def demo_calls_def demo_client_def Let_def)

text \<open>Queues as a set of identifiers.\<close>

definition set_send :: "c_int set sender" where
  "set_send w q m len = (w, if q \<in> w then Sent else Failed)"

definition set_rmid :: "c_int set remover" where
  "set_rmid w q = (w - {q}, q \<in> w)"

text \<open>A line handled in time, and one between the removal of the queue and the log-out.\<close>

theorem session_leaves_table_witness:
  "\<exists>cl1 cl2 calls login l logout sv'.
     client_main (demo_calls (insert 100)) set_send set_rmid 7 42 1 [] (demo_client {9}) = Inr ([], cl1) \<and>
     client_handler set_send set_rmid 7 SIGINT cl1 = (cl2, calls) \<and> arrivals (sent cl2) = [login, l, logout] \<and>
     talk_run set_send set_rmid [Handle login, Handle l, Removed 100, Handle logout] (server_init {9, 100} 3) = Some (Inr sv') \<and>
     server_holds sv' [] \<and>
     talk_run set_send set_rmid [Handle login, Removed 100, Handle l, Handle logout] (server_init {9, 100} 3) =
       Some (Inl (stop_with ''msgsnd''))"
proof -
  obtain cl1 where cl1: "client_main (demo_calls (insert 100)) set_send set_rmid 7 42 1 [] (demo_client {9}) = Inr ([], cl1)"
    "clientId cl1 = 100" "serverId cl1 = 9" "cworld cl1 = {9, 100}" "\<not> isChild cl1"
    "map (\<lambda>(q, m, len). mtype m) (sent cl1) = [LOGIN_MSG, TEXT_MSG]"
    unfolding client_main_def demo_start rbind_simps
    by (simp add: client_login_def send_to_def client_text_def set_send_def demo_client_def wire_def Let_def insert_commute)
  obtain cl2 calls where cl2: "client_handler set_send set_rmid 7 SIGINT cl1 = (cl2, calls)" by fastforce
  have s2: "sent cl2 = sent cl1 @ [(9, logout_message 7, 4)]"
    using cl2 cl1(2-5) by (auto simp: client_handler_def send_to_def set_send_def set_rmid_def SIGINT_def SIGALRM_def wire_def logout_message_def)
  then obtain login l logout where a: "arrivals (sent cl2) = [login, l, logout]" "is_line l"
    using cl1(6) by (auto simp: map_eq_Cons_conv is_line_def)
  have q: "queue_calls id set_send set_rmid" by (simp add: queue_calls_def set_send_def set_rmid_def)
  have ne: "snd (set_send (fst (set_rmid (cworld cl1) (clientId cl1))) (serverId cl1) (logout_message 7) 4) = Sent" "SIGINT \<noteq> SIGALRM" "(0::int) < 42" "sent (demo_client {9}) = []" "\<not> isChild (demo_client {9})"
    using cl1(2-4) by (simp_all add: set_send_def set_rmid_def SIGINT_def SIGALRM_def demo_client_def)
  have h: "server_holds (server_init {9, 100} 3) []" by (rule server_init_holds)
  note session = session_leaves_table[OF ne(3,4,5) cl1(1) ne(2) cl2 ne(1) q h, where c = "[]"]
  have "\<exists>sv'. talk_run set_send set_rmid [Handle login, Handle l, Removed 100, Handle logout] (server_init {9, 100} 3) = Some (Inr sv') \<and>
      server_holds sv' []"
    using session[where a = "[l]" and b = "[]"] a cl1(2) by (simp add: server_init_def)
  moreover have "talk_run set_send set_rmid [Handle login, Removed 100, Handle l, Handle logout] (server_init {9, 100} 3) =
      Some (Inl (stop_with ''msgsnd''))"
    using session[where a = "[]" and b = "[l]"] a cl1(2) by (simp add: server_init_def)
  ultimately show ?thesis using cl1(1) cl2 a(1) by blast
qed

theorem client_exit_stops_server_witness:
  "\<exists>cl'. client_main (demo_calls (insert 100)) set_send set_rmid 7 (-1) 0 [] (demo_client {9})
      = Inl (stop_with ''fork'', cl') \<and> cworld cl' = {9} \<and>
    server_loop set_send set_rmid [hd (arrivals (sent cl')), Received \<lparr>mtype = TEXT_MSG, msg_pid = 8, mtext = []\<rparr> 516]
      (server_init {9} 3) = Some (Inl (stop_with ''msgsnd''))"
proof -
  let ?m = "\<lparr>mtype = TEXT_MSG, msg_pid = 8, mtext = []\<rparr>"
  obtain cl' where cl': "client_main (demo_calls (insert 100)) set_send set_rmid 7 (-1) 0 [] (demo_client {9})
      = Inl (stop_with ''fork'', cl')" "sent cl' \<noteq> []" "cworld cl' = {9}" "clientId cl' = 100"
    unfolding client_main_def demo_start rbind_simps
    by (simp add: client_login_def send_to_def set_send_def quit_def client_clear_msq_def
        set_rmid_def demo_client_def Let_def insert_Diff_if)
  have "LOGOUT_MSG \<notin> (\<lambda>(q, m, len). mtype m) ` set (sent cl') \<and>
      server_loop set_send set_rmid [hd (arrivals (sent cl')), Received ?m 516] (server_init {9} 3)
        = Some (Inl (stop_with ''msgsnd''))"
    by (rule client_exit_stops_server[OF _ _ _ cl'(1,2) _ _ _ _ server_init_holds, where gone = "\<lambda>w. 100 \<notin> w"])
       (simp_all add: cl'(3,4) demo_client_def set_rmid_def set_send_def server_init_def)
  then show ?thesis using cl' by auto
qed
end
