(* ===== verification/Transition_System.thy ===== *)
theory Transition_System
  imports Tlpi_Prelude
begin

text \<open>
  The two interfaces under which the step relations of the concurrent programs are used: a system with an
  invariant, and one in which every step also does a piece of a finite amount of work.
\<close>

locale invariant_system =
  fixes step :: "'s \<Rightarrow> 's \<Rightarrow> bool"
    and start :: 's
    and inv :: "'s \<Rightarrow> bool"
  assumes start_inv: "inv start"
    and step_inv: "step s s' \<Longrightarrow> inv s \<Longrightarrow> inv s'"
begin

lemma reach_inv: "step\<^sup>*\<^sup>* start s \<Longrightarrow> inv s"
  by (induction rule: rtranclp_induct) (auto intro: start_inv step_inv)

lemma steps_inv: "(step ^^ n) start s \<Longrightarrow> inv s"
  by (rule reach_inv, rule relpowp_imp_rtranclp)

end

locale terminating_system = invariant_system step start inv
  for step :: "'s \<Rightarrow> 's \<Rightarrow> bool" and start :: 's and inv :: "'s \<Rightarrow> bool" +
  fixes work :: "'s \<Rightarrow> nat"
    and final :: "'s \<Rightarrow> bool"
  assumes step_work: "step s s' \<Longrightarrow> work s = Suc (work s')"
    and final_work: "final s \<longleftrightarrow> work s = 0"
    and progress: "inv s \<Longrightarrow> \<not> final s \<Longrightarrow> \<exists>s'. step s s'"
begin

lemma steps_work: "(step ^^ n) start s \<Longrightarrow> n + work s = work start"
proof (induction n arbitrary: s)
  case (Suc n)
  then obtain s1 where "(step ^^ n) start s1" "step s1 s" by auto
  then show ?case using Suc.IH[of s1] step_work[of s1 s] by simp
qed simp

text \<open>Every run can be continued until it is final, which takes as many steps as there is work.\<close>

lemma run_ends:
  assumes "(step ^^ n) start s"
  shows "n \<le> work start \<and> (final s \<longleftrightarrow> n = work start) \<and> (n < work start \<longrightarrow> (\<exists>s'. step s s'))"
  using steps_work[OF assms] final_work[of s] progress[OF steps_inv[OF assms]] by auto

end

end
