(* ===== verification/Semaphores.thy ===== *)
theory Semaphores
  imports Error_Functions Transition_System
begin

text \<open>
  \<open>47-4-reserverSemNB.c\<close>, binary semaphores on top of System V semaphores, and \<open>47-6-binary_sem_fifo.c\<close>,
  the same interface on top of a FIFO.  A system call is the function of its outcome; several
  processes that use one semaphore are a step relation, in which the value of the semaphore changes
  as \<open>semop\<close> documents it.
\<close>

section \<open>The operations on one semaphore\<close>

record sembuf =
  sem_num :: nat
  sem_op :: int
  sem_undo :: bool     \<comment> \<open>\<open>SEM_UNDO\<close> in \<open>sem_flg\<close>\<close>
  sem_nowait :: bool   \<comment> \<open>\<open>IPC_NOWAIT\<close> in \<open>sem_flg\<close>\<close>

definition EINTR :: int where "EINTR = 4"
definition EAGAIN :: int where "EAGAIN = 11"

definition initSemAvailable :: "(nat \<Rightarrow> int \<Rightarrow> 'w \<Rightarrow> int \<times> 'w) \<Rightarrow> nat \<Rightarrow> 'w \<Rightarrow> int \<times> 'w" where
  "initSemAvailable semctl_setval semNum w = semctl_setval semNum 1 w"

definition initSemInUse :: "(nat \<Rightarrow> int \<Rightarrow> 'w \<Rightarrow> int \<times> 'w) \<Rightarrow> nat \<Rightarrow> 'w \<Rightarrow> int \<times> 'w" where
  "initSemInUse semctl_setval semNum w = semctl_setval semNum 0 w"

definition reserve_buf :: "bool \<Rightarrow> nat \<Rightarrow> sembuf" where
  "reserve_buf undo semNum = \<lparr>sem_num = semNum, sem_op = -1, sem_undo = undo, sem_nowait = False\<rparr>"

definition reserve_nb_buf :: "nat \<Rightarrow> sembuf" where
  "reserve_nb_buf semNum = \<lparr>sem_num = semNum, sem_op = -1, sem_undo = False, sem_nowait = True\<rparr>"

definition release_buf :: "bool \<Rightarrow> nat \<Rightarrow> sembuf" where
  "release_buf undo semNum = \<lparr>sem_num = semNum, sem_op = 1, sem_undo = undo, sem_nowait = False\<rparr>"

text \<open>What \<open>reserveSem\<close> does after a \<open>semop\<close>, given by the error number, 0 for success: the value it returns, or
  \<open>None\<close> when it calls \<open>semop\<close> again.\<close>

definition reserve_after :: "bool \<Rightarrow> int \<Rightarrow> int option" where
  "reserve_after bsRetryOnEintr e =
     (if e = 0 then Some 0 else if e \<noteq> EINTR \<or> \<not> bsRetryOnEintr then Some (-1) else None)"

type_synonym 'w semop = "sembuf \<Rightarrow> 'w \<Rightarrow> int \<times> 'w"

partial_function (option) reserveSem :: "'w semop \<Rightarrow> bool \<Rightarrow> bool \<Rightarrow> nat \<Rightarrow> 'w \<Rightarrow> (int \<times> 'w) option" where
  "reserveSem semop undo retry semNum w =
     (case semop (reserve_buf undo semNum) w of (e, w') \<Rightarrow>
        (case reserve_after retry e of Some v \<Rightarrow> Some (v, w') | None \<Rightarrow> reserveSem semop undo retry semNum w'))"

definition nb_after :: "int \<Rightarrow> int" where
  "nb_after e = (if e \<noteq> 0 then -1 else 0)"

definition reserveSemNB :: "'w semop \<Rightarrow> nat \<Rightarrow> 'w \<Rightarrow> int \<times> 'w" where
  "reserveSemNB semop semNum w = apfst nb_after (semop (reserve_nb_buf semNum) w)"

definition releaseSem :: "'w semop \<Rightarrow> bool \<Rightarrow> nat \<Rightarrow> 'w \<Rightarrow> int \<times> 'w" where
  "releaseSem semop undo semNum w = apfst (\<lambda>e. if e = 0 then 0 else -1) (semop (release_buf undo semNum) w)"

text \<open>\<open>reserveSem\<close> returns as soon as one \<open>semop\<close> does something else than being interrupted; without the retry
  it always returns.\<close>

lemma reserveSem_retries:
  assumes "\<forall>i<n. fst (semop (reserve_buf undo k) (((\<lambda>w. snd (semop (reserve_buf undo k) w)) ^^ i) w)) = EINTR"
    and "semop (reserve_buf undo k) (((\<lambda>w. snd (semop (reserve_buf undo k) w)) ^^ n) w) = (e, w')" and "e \<noteq> EINTR"
  shows "reserveSem semop undo True k w = Some (if e = 0 then 0 else -1, w')"
  using assms
proof (induction n arbitrary: w)
  case 0
  then show ?case by (subst reserveSem.simps) (auto simp: reserve_after_def)
next
  case (Suc n)
  let ?next = "\<lambda>w. snd (semop (reserve_buf undo k) w)"
  have "fst (semop (reserve_buf undo k) w) = EINTR" using Suc.prems(1) by force
  then have "reserveSem semop undo True k w = reserveSem semop undo True k (?next w)"
    by (subst reserveSem.simps) (auto simp: reserve_after_def EINTR_def split: prod.split)
  moreover have "\<forall>i<n. fst (semop (reserve_buf undo k) ((?next ^^ i) (?next w))) = EINTR"
  proof (intro allI impI)
    fix i assume "i < n"
    then have "fst (semop (reserve_buf undo k) ((?next ^^ Suc i) w)) = EINTR" using Suc.prems(1) by blast
    then show "fst (semop (reserve_buf undo k) ((?next ^^ i) (?next w))) = EINTR"
      by (simp only: funpow_Suc_right comp_apply)
  qed
  moreover have "semop (reserve_buf undo k) ((?next ^^ n) (?next w)) = (e, w')"
    using Suc.prems(2) by (simp only: funpow_Suc_right comp_apply)
  ultimately show ?case using Suc.IH[of "?next w"] Suc.prems(3) by simp
qed

section \<open>Processes that share a semaphore\<close>

datatype place = Idle | Reserving | Holding

record sem_state =
  semval :: int
  at :: "nat \<Rightarrow> place"

text \<open>\<open>semop\<close> as documented: an operation that would make the value negative waits, or fails with \<open>EAGAIN\<close> if it
  must not wait; a signal ends the wait with \<open>EINTR\<close>.\<close>

definition semop_ready :: "sembuf \<Rightarrow> int \<Rightarrow> bool" where
  "semop_ready b v \<longleftrightarrow> 0 \<le> v + sem_op b"

text \<open>Where a process is after a call returned 0 or -1.\<close>

definition after_reserve :: "int option \<Rightarrow> place" where
  "after_reserve r = (case r of None \<Rightarrow> Reserving | Some v \<Rightarrow> if v = 0 then Holding else Idle)"

inductive sem_step :: "bool \<Rightarrow> bool \<Rightarrow> nat \<Rightarrow> sem_state \<Rightarrow> sem_state \<Rightarrow> bool"
  for undo :: bool and retry :: bool and k :: nat
where
  call: "at s p = Idle \<Longrightarrow> sem_step undo retry k s (s\<lparr>at := (at s)(p := Reserving)\<rparr>)"
| semop: "at s p = Reserving \<Longrightarrow> semop_ready (reserve_buf undo k) (semval s) \<Longrightarrow>
    sem_step undo retry k s (s\<lparr>semval := semval s + sem_op (reserve_buf undo k),
      at := (at s)(p := after_reserve (reserve_after retry 0))\<rparr>)"
| signal: "at s p = Reserving \<Longrightarrow> \<not> semop_ready (reserve_buf undo k) (semval s) \<Longrightarrow>
    sem_step undo retry k s (s\<lparr>at := (at s)(p := after_reserve (reserve_after retry EINTR))\<rparr>)"
| nb_done: "at s p = Idle \<Longrightarrow> semop_ready (reserve_nb_buf k) (semval s) \<Longrightarrow>
    sem_step undo retry k s (s\<lparr>semval := semval s + sem_op (reserve_nb_buf k),
      at := (at s)(p := after_reserve (Some (nb_after 0)))\<rparr>)"
| nb_busy: "at s p = Idle \<Longrightarrow> \<not> semop_ready (reserve_nb_buf k) (semval s) \<Longrightarrow>
    sem_step undo retry k s (s\<lparr>at := (at s)(p := after_reserve (Some (nb_after EAGAIN)))\<rparr>)"
| release: "at s p = Holding \<Longrightarrow> semop_ready (release_buf undo k) (semval s) \<Longrightarrow>
    sem_step undo retry k s (s\<lparr>semval := semval s + sem_op (release_buf undo k), at := (at s)(p := Idle)\<rparr>)"

inductive_cases sem_stepE: "sem_step undo retry k s s'"

lemmas sem_eval = semop_ready_def reserve_buf_def reserve_nb_buf_def release_buf_def reserve_after_def nb_after_def
  after_reserve_def EINTR_def EAGAIN_def

text \<open>The state after \<open>initSemAvailable\<close> or \<open>initSemInUse\<close>.\<close>

definition sem_start :: "int \<Rightarrow> sem_state" where
  "sem_start v = \<lparr>semval = v, at = (\<lambda>p. Idle)\<rparr>"

definition holders :: "sem_state \<Rightarrow> nat set" where
  "holders s = {p. at s p = Holding}"

definition sem_inv :: "int \<Rightarrow> sem_state \<Rightarrow> bool" where
  "sem_inv v s \<longleftrightarrow> finite (holders s) \<and> 0 \<le> semval s \<and> semval s + int (card (holders s)) = v"

lemma holders_upd:
  "holders (s\<lparr>at := (at s)(p := x)\<rparr>) = (if x = Holding then insert p (holders s) else holders s - {p})"
  "holders (s\<lparr>semval := v, at := (at s)(p := x)\<rparr>) = (if x = Holding then insert p (holders s) else holders s - {p})"
  by (auto simp: holders_def)

lemma holders_iff: "p \<in> holders s \<longleftrightarrow> at s p = Holding"
  by (simp add: holders_def)

lemma sem_step_inv: "sem_step undo retry k s s' \<Longrightarrow> sem_inv v s \<Longrightarrow> sem_inv v s'"
proof (induction rule: sem_step.induct)
  case (release s p)
  then have "0 < card (holders s)" by (auto simp: sem_inv_def card_gt_0_iff holders_iff)
  then show ?case using release
    by (auto simp: sem_inv_def holders_upd holders_iff sem_eval of_nat_diff)
qed (auto simp: sem_inv_def holders_upd holders_iff sem_eval card_insert_if)

interpretation sem: invariant_system "sem_step undo retry k" "sem_start (int v)" "sem_inv (int v)" for undo retry k v
proof
  show "sem_inv (int v) (sem_start (int v))" by (simp add: sem_inv_def sem_start_def holders_def)
qed (fact sem_step_inv)

lemma sem_reach: "(sem_step undo retry k)\<^sup>*\<^sup>* (sem_start v) s \<Longrightarrow> v \<in> {0, 1} \<Longrightarrow> sem_inv v s"
  using sem.reach_inv[of undo retry k 0 s] sem.reach_inv[of undo retry k 1 s] by auto

text \<open>A state in which process 3 holds the semaphore and process 2 waits for it.\<close>

lemma sem_held:
  "\<exists>s. (sem_step False True 0)\<^sup>*\<^sup>* (sem_start 1) s \<and> at s 3 = Holding \<and> at s 2 = Reserving"
proof -
  let ?s1 = "(sem_start 1)\<lparr>semval := 0, at := (at (sem_start 1))(3 := Holding)\<rparr>"
  have "sem_step False True 0 (sem_start 1) ?s1"
    using sem_step.nb_done[of "sem_start 1" 3 0 False True] by (simp add: sem_eval sem_start_def)
  moreover have "sem_step False True 0 ?s1 (?s1\<lparr>at := (at ?s1)(2 := Reserving)\<rparr>)"
    by (rule sem_step.call) (simp add: sem_start_def)
  ultimately have "(sem_step False True 0)\<^sup>*\<^sup>* (sem_start 1) (?s1\<lparr>at := (at ?s1)(2 := Reserving)\<rparr>)"
    using rtranclp.rtrancl_into_rtrancl[OF r_into_rtranclp[of "sem_step False True 0"]] by blast
  moreover have "at (?s1\<lparr>at := (at ?s1)(2 := Reserving)\<rparr>) 3 = Holding \<and>
      at (?s1\<lparr>at := (at ?s1)(2 := Reserving)\<rparr>) 2 = Reserving" by simp
  ultimately show ?thesis by blast
qed

text \<open>C8: processes that reserve a semaphore, with or without waiting, do what they like while signals
  arrive, and release it only when they hold it never hold it together when it was made available
  once, and never hold it at all when it was made in use.\<close>

theorem sem_mutual_exclusion:
  assumes "(sem_step undo retry k)\<^sup>*\<^sup>* (sem_start v) s" and "v \<in> {0, 1}"
  shows "(at s p = Holding \<longrightarrow> v = 1 \<and> semval s = 0) \<and> (at s p = Holding \<and> at s q = Holding \<longrightarrow> p = q)"
proof -
  have inv: "sem_inv v s" by (rule sem_reach[OF assms])
  then have c: "int (card (holders s)) \<le> 1" "finite (holders s)" using assms(2) by (auto simp: sem_inv_def)
  have "at s p = Holding \<Longrightarrow> 0 < card (holders s)" using c(2) by (auto simp: card_gt_0_iff holders_iff)
  then have "at s p = Holding \<longrightarrow> v = 1 \<and> semval s = 0" using inv assms(2) by (auto simp: sem_inv_def)
  moreover have "at s p = Holding \<and> at s q = Holding \<longrightarrow> p = q"
    using c card_le_Suc0_iff_eq[of "holders s"] by (auto simp: holders_iff)
  ultimately show ?thesis ..
qed

theorem sem_mutual_exclusion_witness:
  "\<exists>s. (sem_step False True 0)\<^sup>*\<^sup>* (sem_start 1) s \<and> at s 3 = Holding \<and> at s 2 = Reserving \<and> semval s = 0 \<and>
     at s 5 \<noteq> Holding"
proof -
  obtain s where s: "(sem_step False True 0)\<^sup>*\<^sup>* (sem_start 1) s" "at s 3 = Holding" "at s 2 = Reserving"
    using sem_held by blast
  then show ?thesis using sem_mutual_exclusion[OF s(1), of 3 5] by auto
qed

text \<open>C21: with the retry after \<open>EINTR\<close>, no process that waits in \<open>reserveSem\<close> is ever shut out: from every state that
  can be reached, the semaphore can become free for it in at most two steps; and a \<open>reserveSem\<close> never
  returns -1 on a signal.\<close>

theorem sem_never_stuck:
  assumes "(sem_step undo True k)\<^sup>*\<^sup>* (sem_start 1) s" and "at s p = Reserving"
  shows "\<exists>s'. (sem_step undo True k)\<^sup>*\<^sup>* s s' \<and> at s' p = Holding \<and> (\<forall>q. q \<noteq> p \<longrightarrow> at s' q = (if at s q = Holding then Idle else at s q))
    \<and> (\<forall>s1. sem_step undo True k s s1 \<longrightarrow> at s1 p \<noteq> Idle)"
proof -
  have inv: "sem_inv 1 s" using sem_reach[OF assms(1)] by simp
  have stay: "\<forall>s1. sem_step undo True k s s1 \<longrightarrow> at s1 p \<noteq> Idle"
    using assms(2) by (auto elim!: sem_stepE simp: sem_eval split: if_splits)
  have enter: "\<exists>s2. sem_step undo True k s1 s2 \<and> at s2 = (at s1)(p := Holding)"
    if "semval s1 = 1" "at s1 p = Reserving" for s1
    using sem_step.semop[of s1 p undo k True] that by (auto simp: sem_eval)
  show ?thesis
  proof (cases "semval s = 1")
    case True
    then have "holders s = {}" using inv by (auto simp: sem_inv_def)
    then have "\<forall>q. at s q \<noteq> Holding" by (auto simp: holders_def)
    then have idle: "\<forall>q. q \<noteq> p \<longrightarrow> ((at s)(p := Holding)) q = (if at s q = Holding then Idle else at s q)" by simp
    obtain s2 where s2: "sem_step undo True k s s2" "at s2 = (at s)(p := Holding)" using enter[OF True assms(2)] by blast
    have "at s2 p = Holding \<and> (\<forall>q. q \<noteq> p \<longrightarrow> at s2 q = (if at s q = Holding then Idle else at s q))"
      using s2(2) idle by simp
    then show ?thesis using r_into_rtranclp[of "sem_step undo True k", OF s2(1)] stay by blast
  next
    case False
    then have "semval s = 0" "card (holders s) = 1" using inv by (auto simp: sem_inv_def)
    then obtain q where q: "holders s = {q}" by (auto simp: card_1_singleton_iff)
    then have qh: "at s q = Holding" "\<forall>r. at s r = Holding \<longrightarrow> r = q" by (auto simp: holders_def)
    let ?s1 = "s\<lparr>semval := semval s + sem_op (release_buf undo k), at := (at s)(q := Idle)\<rparr>"
    have "sem_step undo True k s ?s1"
      by (rule sem_step.release) (use qh(1) \<open>semval s = 0\<close> in \<open>simp_all add: sem_eval\<close>)
    moreover have "semval ?s1 = 1" using \<open>semval s = 0\<close> by (simp add: sem_eval)
    moreover have "p \<noteq> q" using assms(2) qh(1) by auto
    then have "at ?s1 p = Reserving" using assms(2) by simp
    ultimately have s1: "sem_step undo True k s ?s1" "semval ?s1 = 1" "at ?s1 p = Reserving" by blast+
    obtain s2 where s2: "sem_step undo True k ?s1 s2" "at s2 = (at ?s1)(p := Holding)"
      using enter[OF s1(2,3)] by blast
    have reach: "(sem_step undo True k)\<^sup>*\<^sup>* s s2"
      by (rule rtranclp.rtrancl_into_rtrancl[OF r_into_rtranclp[of "sem_step undo True k", OF s1(1)] s2(1)])
    have "at s2 r = (if at s r = Holding then Idle else at s r)" if "r \<noteq> p" for r
    proof (cases "r = q")
      case False
      then have "at s r \<noteq> Holding" using qh(2) by blast
      then show ?thesis using that False by (simp add: s2(2))
    qed (use that qh(1) in \<open>simp add: s2(2)\<close>)
    moreover have "at s2 p = Holding" unfolding s2(2) by simp
    ultimately show ?thesis using stay reach by blast
  qed
qed

theorem sem_never_stuck_witness:
  "\<exists>s s'. (sem_step False True 0)\<^sup>*\<^sup>* (sem_start 1) s \<and> at s 3 = Holding \<and> at s 2 = Reserving \<and>
     (sem_step False True 0)\<^sup>*\<^sup>* s s' \<and> at s' 2 = Holding \<and> at s' 3 = Idle"
proof -
  obtain s where s: "(sem_step False True 0)\<^sup>*\<^sup>* (sem_start 1) s" "at s 3 = Holding" "at s 2 = Reserving"
    using sem_held by blast
  obtain s' where "(sem_step False True 0)\<^sup>*\<^sup>* s s'" "at s' 2 = Holding"
    "\<forall>q. q \<noteq> 2 \<longrightarrow> at s' q = (if at s q = Holding then Idle else at s q)"
    using sem_never_stuck[OF s(1,3)] by blast
  then show ?thesis using s by (intro exI[of _ s] exI[of _ s']) simp
qed

section \<open>A semaphore in a FIFO\<close>

text \<open>\<open>mkfifo\<close> and the calls that write and read one byte are functions of the name or the descriptor.\<close>

record bin_sem =
  fifo :: int
  sem_file :: string

text \<open>The template \<open>/tmp/semXXXXXX\<close> is copied first and then overwritten by the number.\<close>

definition sem_file_name :: "nat \<Rightarrow> string" where
  "sem_file_name now = dec_nat (now mod 1000000)"

definition initUsed :: "(string \<Rightarrow> int) \<Rightarrow> nat \<Rightarrow> int \<times> bin_sem" where
  "initUsed mkfifo now =
     (let sem = \<lparr>fifo = mkfifo (sem_file_name now), sem_file = sem_file_name now\<rparr>
      in (if fifo sem = -1 then -1 else 0, sem))"

definition initAvail :: "(string \<Rightarrow> int) \<Rightarrow> (int \<Rightarrow> 'w \<Rightarrow> int \<times> 'w) \<Rightarrow> nat \<Rightarrow> 'w \<Rightarrow> int \<times> bin_sem \<times> 'w" where
  "initAvail mkfifo write_x now w =
     (let sem = \<lparr>fifo = mkfifo (sem_file_name now), sem_file = sem_file_name now\<rparr>
      in if fifo sem = -1 then (-1, sem, w)
         else case write_x (fifo sem) w of (n, w') \<Rightarrow> if n = -1 then (-1, sem, w') else (0, sem, w'))"

text \<open>The result of a \<open>read\<close> comes with \<open>errno\<close> after it.\<close>

partial_function (option) fifo_reserveSem ::
    "(int \<Rightarrow> 'w \<Rightarrow> int \<times> int \<times> 'w) \<Rightarrow> bin_sem \<Rightarrow> 'w \<Rightarrow> (int \<times> 'w) option" where
  "fifo_reserveSem read1 sem w = (case read1 (fifo sem) w of (n, err, w') \<Rightarrow>
     if n = 1 then Some (0, w') else if err \<noteq> EINTR then Some (-1, w') else fifo_reserveSem read1 sem w')"

definition fifo_releaseSem :: "(int \<Rightarrow> 'w \<Rightarrow> int \<times> 'w) \<Rightarrow> bin_sem \<Rightarrow> 'w \<Rightarrow> int \<times> 'w" where
  "fifo_releaseSem write_x sem w = (case write_x (fifo sem) w of (n, w') \<Rightarrow> if n = -1 then (-1, w') else (0, w'))"

text \<open>\<open>mkfifo\<close> returns 0, not a descriptor, and the FIFO is never opened: every semaphore that is initialised
  with success reads and writes the standard input, and its file is a number in the working
  directory.\<close>

lemma fifo_semaphore_is_stdin:
  assumes "\<And>name. mkfifo name \<in> {0, -1}"
  shows "initUsed mkfifo now = (0, sem) \<Longrightarrow> fifo sem = 0 \<and> sem_file sem = dec_nat (now mod 1000000)"
    and "initAvail mkfifo write_x now w = (0, sem, w') \<Longrightarrow> fifo sem = 0 \<and> sem_file sem = dec_nat (now mod 1000000) \<and>
      snd (write_x 0 w) = w'"
  using assms[of "dec_nat (now mod 1000000)"]
  by (auto simp: initUsed_def initAvail_def sem_file_name_def Let_def split: if_splits prod.splits)

end
