(* ===== verification/Interleavings.thy ===== *)
theory Interleavings
  imports Error_Functions Transition_System
begin

text \<open>
  Three small programs whose subject is the order of the steps of several threads or processes, as step
  relations: the double-checked initialisation of \<open>31-1-one_time_init.c\<close>, the two processes of
  \<open>55-2-flock_dead_lock.c\<close> with their file locks and their semaphore, and the unprotected counter of
  \<open>30-1-changed_simple_thread.c\<close>.  Every access to a shared variable is a step of its own.
\<close>

section \<open>One-time initialisation\<close>

text \<open>Where a thread is in \<open>one_time_init\<close>: before the first test, before the lock, before the second test,
  in front of \<open>init()\<close>, in front of \<open>inited = 1\<close>, in front of the unlock, returned.\<close>

datatype init_pc = At_test | At_lock | At_retest | At_init | At_set | At_unlock | Returned

record control =
  inited :: bool
  lock :: "nat option"         \<comment> \<open>the thread that owns the mutex\<close>
  calls :: nat                 \<comment> \<open>how often \<open>init\<close> was called\<close>
  pc :: "nat \<Rightarrow> init_pc"
  sees :: "nat \<Rightarrow> bool"       \<comment> \<open>whether what \<open>init\<close> did is ordered before the next step of the thread\<close>

definition goto :: "nat \<Rightarrow> init_pc \<Rightarrow> control \<Rightarrow> control" where
  "goto t l c = c\<lparr>pc := (pc c)(t := l)\<rparr>"

text \<open>The first test reads the plain \<open>int\<close> without the mutex and so races with the assignment: C leaves the program undefined there.  The
  relation has what a machine does with such a read: until the thread is synchronised with the one that called \<open>init\<close>, it may still
  give 0, and when it gives 1, the thread need not see what \<open>init\<close> stored.  A thread is synchronised when it has run \<open>init\<close> itself or
  taken the mutex after it.  A thread that has returned may call again.\<close>

inductive one_time_init :: "control \<Rightarrow> control \<Rightarrow> bool" where
  test: "pc c t = At_test \<Longrightarrow> v \<longrightarrow> inited c \<Longrightarrow> inited c \<and> sees c t \<longrightarrow> v \<Longrightarrow>
    one_time_init c (goto t (if v then Returned else At_lock) c)"
| acquire: "pc c t = At_lock \<Longrightarrow> lock c = None \<Longrightarrow>
    one_time_init c (goto t At_retest (c\<lparr>lock := Some t, sees := (sees c)(t := sees c t \<or> inited c)\<rparr>))"
| retest: "pc c t = At_retest \<Longrightarrow> one_time_init c (goto t (if inited c then At_unlock else At_init) c)"
| run: "pc c t = At_init \<Longrightarrow> one_time_init c (goto t At_set (c\<lparr>calls := calls c + 1, sees := (sees c)(t := True)\<rparr>))"
| set: "pc c t = At_set \<Longrightarrow> one_time_init c (goto t At_unlock (c\<lparr>inited := True\<rparr>))"
| unlock: "pc c t = At_unlock \<Longrightarrow> one_time_init c (goto t Returned (c\<lparr>lock := None\<rparr>))"
| again: "pc c t = Returned \<Longrightarrow> one_time_init c (goto t At_test c)"

inductive_cases one_time_initE: "one_time_init c c'"

definition control0 :: control where
  "control0 = \<lparr>inited = False, lock = None, calls = 0, pc = (\<lambda>t. At_test), sees = (\<lambda>t. False)\<rparr>"

definition in_zone :: "init_pc \<Rightarrow> bool" where
  "in_zone l \<longleftrightarrow> l \<in> {At_retest, At_init, At_set, At_unlock}"

lemma in_zone_simps [simp]:
  "\<not> in_zone At_test" "\<not> in_zone At_lock" "in_zone At_retest" "in_zone At_init" "in_zone At_set" "in_zone At_unlock"
  "\<not> in_zone Returned"
  by (simp_all add: in_zone_def)

text \<open>The mutex is owned exactly by the thread in the zone; the flag is clear before \<open>init\<close> has returned and set
  before anybody leaves; the number of calls follows from where the owner of the mutex is; who holds the mutex with the flag set
  is synchronised.\<close>

definition thread_ok :: "control \<Rightarrow> nat \<Rightarrow> bool" where
  "thread_ok c t \<longleftrightarrow> (in_zone (pc c t) \<longleftrightarrow> lock c = Some t) \<and>
     (pc c t \<in> {At_init, At_set} \<longrightarrow> \<not> inited c) \<and> (pc c t \<in> {At_unlock, Returned} \<longrightarrow> inited c) \<and>
     (pc c t \<in> {At_set, At_unlock} \<or> pc c t = At_retest \<and> inited c \<longrightarrow> sees c t)"

definition init_inv :: "control \<Rightarrow> bool" where
  "init_inv c \<longleftrightarrow> (\<forall>t. thread_ok c t) \<and>
     calls c = (if inited c then 1 else case lock c of None \<Rightarrow> 0 | Some u \<Rightarrow> if pc c u = At_set then 1 else 0)"

lemma pc_goto [simp]:
  "pc (goto t l c) u = (if u = t then l else pc c u)" "inited (goto t l c) = inited c" "lock (goto t l c) = lock c"
  "calls (goto t l c) = calls c" "sees (goto t l c) = sees c"
  by (auto simp: goto_def)

text \<open>A thread that does not move stays fine if the flag and the mutex change only in its absence from the zone.\<close>

lemma thread_ok_other:
  assumes "thread_ok c u" and "pc c' u = pc c u" and "sees c' u = sees c u" and "lock c' = Some u \<longleftrightarrow> lock c = Some u"
    and "inited c' = inited c \<or> inited c' \<and> lock c \<noteq> Some u"
  shows "thread_ok c' u"
  using assms unfolding thread_ok_def by (cases "pc c u") auto

lemma one_time_init_inv:
  assumes "one_time_init c c'" and inv: "init_inv c"
  shows "init_inv c'"
proof -
  have ok: "thread_ok c t" for t using inv by (simp add: init_inv_def)
  have n: "calls c = (if inited c then 1 else case lock c of None \<Rightarrow> 0 | Some u \<Rightarrow> if pc c u = At_set then 1 else 0)"
    using inv by (simp add: init_inv_def)
  obtain t where t: "\<forall>u. u \<noteq> t \<longrightarrow> pc c' u = pc c u \<and> sees c' u = sees c u \<and> (lock c' = Some u \<longleftrightarrow> lock c = Some u) \<and>
      (inited c' = inited c \<or> inited c' \<and> lock c \<noteq> Some u)" "thread_ok c' t"
    "calls c' = (if inited c' then 1 else case lock c' of None \<Rightarrow> 0 | Some u \<Rightarrow> if pc c' u = At_set then 1 else 0)"
    using assms(1)
  proof cases
    case (test t v)
    have "thread_ok c' t" using ok[of t] test by (cases v) (auto simp: thread_ok_def)
    moreover have "u \<noteq> t \<Longrightarrow> pc c' u = pc c u" for u using test(1) by simp
    moreover have "inited c' = inited c" "lock c' = lock c" "calls c' = calls c" "sees c' = sees c" using test(1) by simp_all
    moreover have "pc c' u = At_set \<longleftrightarrow> pc c u = At_set" for u using test(1,2) by simp
    ultimately show ?thesis using that[of t] n by (simp split: option.splits)
  next
    case (acquire t)
    show ?thesis using that[of t] ok[of t] n acquire by (auto simp: thread_ok_def split: option.splits)
  next
    case (retest t)
    show ?thesis using that[of t] ok[of t] n retest by (auto simp: thread_ok_def split: option.splits)
  next
    case (run t)
    show ?thesis using that[of t] ok[of t] n run by (auto simp: thread_ok_def split: option.splits)
  next
    case (set t)
    show ?thesis using that[of t] ok[of t] n set by (auto simp: thread_ok_def split: option.splits)
  next
    case (unlock t)
    show ?thesis using that[of t] ok[of t] n unlock by (auto simp: thread_ok_def split: option.splits)
  next
    case (again t)
    show ?thesis using that[of t] ok[of t] n again by (auto simp: thread_ok_def split: option.splits)
  qed
  have "thread_ok c' u" for u
    using t(1,2) thread_ok_other[OF ok, of c' u] by (cases "u = t") auto
  then show ?thesis using t(3) by (simp add: init_inv_def)
qed

lemma control0_inv: "init_inv control0"
  by (simp add: init_inv_def control0_def thread_ok_def)

interpretation once: invariant_system one_time_init control0 init_inv
  by unfold_locales (fact control0_inv, fact one_time_init_inv)

text \<open>One thread initialises, and another that has not taken the mutex reads the flag.\<close>

definition set_by :: "nat \<Rightarrow> control \<Rightarrow> control" where
  "set_by t c = goto t At_unlock (c\<lparr>lock := Some t, calls := 1, sees := (sees c)(t := True), inited := True\<rparr>)"

lemma set_by_reach:
  assumes "one_time_init\<^sup>*\<^sup>* control0 c" and "pc c t = At_test" and "lock c = None" and "\<not> inited c" and "calls c = 0"
  shows "one_time_init\<^sup>*\<^sup>* control0 (set_by t c)"
proof -
  let ?c1 = "goto t At_lock c"
  let ?c2 = "goto t At_retest (?c1\<lparr>lock := Some t, sees := (sees ?c1)(t := sees ?c1 t \<or> inited ?c1)\<rparr>)"
  let ?c3 = "goto t At_init ?c2"
  let ?c4 = "goto t At_set (?c3\<lparr>calls := calls ?c3 + 1, sees := (sees ?c3)(t := True)\<rparr>)"
  have "one_time_init c ?c1" using one_time_init.test[of c t False] assms by simp
  moreover have "one_time_init ?c1 ?c2" by (rule one_time_init.acquire) (simp_all add: assms)
  moreover have "one_time_init ?c2 ?c3" using one_time_init.retest[of ?c2 t] assms(4) by (simp add: goto_def)
  moreover have "one_time_init ?c3 ?c4" by (rule one_time_init.run) simp
  moreover have "one_time_init ?c4 (set_by t c)"
    using one_time_init.set[of ?c4 t] assms(5) by (simp add: set_by_def goto_def)
  ultimately show ?thesis using assms(1) by (meson rtranclp.rtrancl_into_rtrancl)
qed

lemma unordered_return: "one_time_init\<^sup>*\<^sup>* control0 (goto 1 Returned (set_by 0 control0))"
proof -
  have "one_time_init\<^sup>*\<^sup>* control0 (set_by 0 control0)" by (rule set_by_reach) (simp_all add: control0_def)
  moreover have "one_time_init (set_by 0 control0) (goto 1 Returned (set_by 0 control0))"
    using one_time_init.test[of "set_by 0 control0" 1 True] by (simp add: set_by_def control0_def goto_def)
  ultimately show ?thesis by simp
qed

text \<open>C9: any number of threads call \<open>one_time_init\<close> any number of times, in whatever order their steps are taken and whatever the
  unlocked test reads, old values included.  \<open>init\<close> is called at most once, no call of \<open>one_time_init\<close> returns before it has run,
  and one that leaves through the mutex sees what it did.  But the test without the mutex is a data race: a thread that it
  lets through can return without seeing what \<open>init\<close> did.\<close>

theorem init_runs_once:
  "(\<forall>c t. one_time_init\<^sup>*\<^sup>* control0 c \<longrightarrow>
      calls c \<le> 1 \<and> (pc c t = Returned \<longrightarrow> calls c = 1) \<and> (pc c t = At_unlock \<longrightarrow> sees c t)) \<and>
   (\<exists>c t. one_time_init\<^sup>*\<^sup>* control0 c \<and> pc c t = Returned \<and> \<not> sees c t)"
proof (intro conjI allI impI)
  fix c t assume "one_time_init\<^sup>*\<^sup>* control0 c"
  then have inv: "init_inv c" by (rule once.reach_inv)
  show "calls c \<le> 1" using inv by (auto simp: init_inv_def split: option.splits)
  show "calls c = 1" if "pc c t = Returned" using inv that by (auto simp: init_inv_def thread_ok_def)
  show "sees c t" if "pc c t = At_unlock" using inv that by (auto simp: init_inv_def thread_ok_def)
next
  show "\<exists>c t. one_time_init\<^sup>*\<^sup>* control0 c \<and> pc c t = Returned \<and> \<not> sees c t"
    using unordered_return by (intro exI[of _ "goto 1 Returned (set_by 0 control0)"] exI[of _ 1])
      (simp add: set_by_def control0_def goto_def)
qed

text \<open>While thread 0 holds the mutex with the flag set, thread 1 still reads 0 and goes on to the mutex.\<close>

theorem init_runs_once_witness:
  "\<exists>c. one_time_init\<^sup>*\<^sup>* control0 c \<and> inited c \<and> pc c 1 = At_lock \<and> pc c 0 = At_unlock \<and> sees c 0 \<and> calls c \<le> 1"
proof -
  let ?c = "goto 1 At_lock (set_by 0 control0)"
  have "one_time_init\<^sup>*\<^sup>* control0 (set_by 0 control0)" by (rule set_by_reach) (simp_all add: control0_def)
  moreover have "one_time_init (set_by 0 control0) ?c"
    using one_time_init.test[of "set_by 0 control0" 1 False] by (simp add: set_by_def control0_def goto_def)
  ultimately have reach: "one_time_init\<^sup>*\<^sup>* control0 ?c" by simp
  have c: "inited ?c" "pc ?c 1 = At_lock" "pc ?c 0 = At_unlock" by (simp_all add: set_by_def goto_def)
  then show ?thesis using init_runs_once[THEN conjunct1, rule_format, OF reach, of 0] reach by blast
qed

section \<open>Two processes, two file locks and a semaphore\<close>

text \<open>What \<open>main\<close> does before \<open>fork\<close>; the check after the second \<open>open\<close> tests \<open>fd1\<close> again.\<close>

definition flock_startup :: "int \<Rightarrow> int \<Rightarrow> bool \<Rightarrow> bool \<Rightarrow> int \<Rightarrow> (int \<times> int) result" where
  "flock_startup open_f1 open_f2 sem_open_ok sem_unlink_ok fork_result =
     (let fd1 = open_f1 in
      if fd1 = -1 then Inl (stop_with ''open'')
      else let fd2 = open_f2 in
      if fd1 = -1 then Inl (stop_with ''open'')
      else if \<not> sem_open_ok then Inl (stop_with ''sem_open'')
      else if \<not> sem_unlink_ok then Inl (stop_with ''sem_unlink'')
      else if fork_result = -1 then Inl (stop_with ''fork'')
      else Inr (fd1, fd2))"

lemma flock_startup_fd2_unchecked:
  "open_f1 \<noteq> -1 \<Longrightarrow> fork_result \<noteq> -1 \<Longrightarrow> flock_startup open_f1 (-1) True True fork_result = Inr (open_f1, -1)"
  by (simp add: flock_startup_def)

datatype proc_id = Child | Parent
datatype lock_file = F1 | F2

text \<open>In front of the first \<open>flock\<close>, of \<open>sem_wait\<close>, of \<open>sem_post\<close>, of the second \<open>flock\<close>, in \<open>pause\<close>.\<close>

datatype flock_pc = First | Wait | Post | Second | Pausing

fun first_file :: "proc_id \<Rightarrow> lock_file" where
  "first_file Child = F1"
| "first_file Parent = F2"

fun second_file :: "proc_id \<Rightarrow> lock_file" where
  "second_file Child = F2"
| "second_file Parent = F1"

text \<open>A lock belongs to the open file description through which it was taken.  \<open>ofd p f\<close> is the description
  behind the descriptor of process \<open>p\<close> for the file \<open>f\<close>.\<close>

record 'd flock_state =
  owner :: "lock_file \<Rightarrow> 'd option"
  sem_count :: nat
  at_pc :: "proc_id \<Rightarrow> flock_pc"

definition can_lock :: "(proc_id \<Rightarrow> lock_file \<Rightarrow> 'd) \<Rightarrow> 'd flock_state \<Rightarrow> proc_id \<Rightarrow> lock_file \<Rightarrow> bool" where
  "can_lock ofd s p f \<longleftrightarrow> owner s f = None \<or> owner s f = Some (ofd p f)"

definition take_lock ::
    "(proc_id \<Rightarrow> lock_file \<Rightarrow> 'd) \<Rightarrow> proc_id \<Rightarrow> lock_file \<Rightarrow> 'd flock_state \<Rightarrow> 'd flock_state" where
  "take_lock ofd p f s = s\<lparr>owner := (owner s)(f := Some (ofd p f))\<rparr>"

definition advance :: "proc_id \<Rightarrow> flock_pc \<Rightarrow> 'd flock_state \<Rightarrow> 'd flock_state" where
  "advance p l s = s\<lparr>at_pc := (at_pc s)(p := l)\<rparr>"

inductive flock_step :: "(proc_id \<Rightarrow> lock_file \<Rightarrow> 'd) \<Rightarrow> 'd flock_state \<Rightarrow> 'd flock_state \<Rightarrow> bool"
  for ofd :: "proc_id \<Rightarrow> lock_file \<Rightarrow> 'd"
where
  first: "at_pc s p = First \<Longrightarrow> can_lock ofd s p (first_file p) \<Longrightarrow>
    flock_step ofd s (advance p Wait (take_lock ofd p (first_file p) s))"
| wait: "at_pc s p = Wait \<Longrightarrow> 0 < sem_count s \<Longrightarrow>
    flock_step ofd s (advance p Post (s\<lparr>sem_count := sem_count s - 1\<rparr>))"
| post: "at_pc s p = Post \<Longrightarrow> flock_step ofd s (advance p Second (s\<lparr>sem_count := sem_count s + 1\<rparr>))"
| second: "at_pc s p = Second \<Longrightarrow> can_lock ofd s p (second_file p) \<Longrightarrow>
    flock_step ofd s (advance p Pausing (take_lock ofd p (second_file p) s))"

inductive_simps flock_step_iff: "flock_step ofd s s'"

definition flock_start :: "'d flock_state" where
  "flock_start = \<lparr>owner = (\<lambda>f. None), sem_count = 1, at_pc = (\<lambda>p. First)\<rparr>"

text \<open>Both files are opened before \<open>fork\<close>, so that parent and child share the description of each.\<close>

definition shared_ofd :: "proc_id \<Rightarrow> lock_file \<Rightarrow> lock_file" where
  "shared_ofd p f = f"

definition in_pause :: "'d flock_state \<Rightarrow> bool" where
  "in_pause s \<longleftrightarrow> at_pc s Child = Pausing \<and> at_pc s Parent = Pausing"

fun steps_left :: "flock_pc \<Rightarrow> nat" where
  "steps_left First = 4" | "steps_left Wait = 3" | "steps_left Post = 2" | "steps_left Second = 1"
| "steps_left Pausing = 0"

definition work :: "'d flock_state \<Rightarrow> nat" where
  "work s = steps_left (at_pc s Child) + steps_left (at_pc s Parent)"

definition flock_inv :: "lock_file flock_state \<Rightarrow> bool" where
  "flock_inv s \<longleftrightarrow> (\<forall>f. owner s f = None \<or> owner s f = Some f) \<and>
     (at_pc s Child = Post \<or> at_pc s Parent = Post \<or> 0 < sem_count s)"

lemma advance_fields [simp]:
  "at_pc (advance p l s) = (at_pc s)(p := l)" "owner (advance p l s) = owner s" "sem_count (advance p l s) = sem_count s"
  "at_pc (take_lock ofd p f s) = at_pc s" "sem_count (take_lock ofd p f s) = sem_count s"
  "owner (take_lock ofd p f s) = (owner s)(f := Some (ofd p f))"
  by (simp_all add: advance_def take_lock_def)

lemma flock_step_work: "flock_step ofd s s' \<Longrightarrow> work s = Suc (work s')"
proof (induction rule: flock_step.induct)
  case (first s p) then show ?case by (cases p) (simp_all add: work_def)
next
  case (wait s p) then show ?case by (cases p) (simp_all add: work_def)
next
  case (post s p) then show ?case by (cases p) (simp_all add: work_def)
next
  case (second s p) then show ?case by (cases p) (simp_all add: work_def)
qed

lemma flock_step_inv: "flock_step shared_ofd s s' \<Longrightarrow> flock_inv s \<Longrightarrow> flock_inv s'"
proof (induction rule: flock_step.induct)
  case (first s p) then show ?case by (cases p) (auto simp: flock_inv_def shared_ofd_def)
next
  case (wait s p) then show ?case by (cases p) (auto simp: flock_inv_def)
next
  case (post s p) then show ?case by (cases p) (auto simp: flock_inv_def)
next
  case (second s p) then show ?case by (cases p) (auto simp: flock_inv_def shared_ofd_def)
qed

lemma flock_progress:
  assumes "flock_inv s" and "\<not> in_pause s"
  shows "\<exists>s'. flock_step shared_ofd s s'"
proof (cases "\<exists>p. at_pc s p \<notin> {Wait, Pausing}")
  case True
  then obtain p where p: "at_pc s p \<notin> {Wait, Pausing}" by blast
  have c: "can_lock shared_ofd s p f" for f using assms(1) by (auto simp: can_lock_def shared_ofd_def flock_inv_def)
  show ?thesis
  proof (cases "at_pc s p")
    case First then show ?thesis using flock_step.first c by blast
  next
    case Post then show ?thesis using flock_step.post by blast
  next
    case Second then show ?thesis using flock_step.second c by blast
  qed (use p in auto)
next
  case False
  then have "at_pc s p = Wait \<or> at_pc s p = Pausing" for p by blast
  then obtain p where "at_pc s p = Wait" and "0 < sem_count s"
    using assms by (auto simp: flock_inv_def in_pause_def) (metis flock_pc.distinct)+
  then show ?thesis using flock_step.wait by blast
qed

text \<open>The places of a process in the order in which it reaches them.\<close>

instantiation flock_pc :: linorder
begin

definition less_eq_flock_pc :: "flock_pc \<Rightarrow> flock_pc \<Rightarrow> bool" where
  "less_eq_flock_pc l m \<longleftrightarrow> steps_left m \<le> steps_left l"

definition less_flock_pc :: "flock_pc \<Rightarrow> flock_pc \<Rightarrow> bool" where
  "less_flock_pc l m \<longleftrightarrow> steps_left m < steps_left l"

instance
proof
  fix l m :: flock_pc
  show "l \<le> m \<Longrightarrow> m \<le> l \<Longrightarrow> l = m" by (cases l; cases m) (simp_all add: less_eq_flock_pc_def)
qed (auto simp: less_eq_flock_pc_def less_flock_pc_def)

end

lemma flock_step_forward: "flock_step ofd s s' \<Longrightarrow> at_pc s p \<le> at_pc s' p"
  by (induction rule: flock_step.induct) (auto simp: less_eq_flock_pc_def)

lemma in_pause_work: "in_pause s \<longleftrightarrow> work s = 0"
  unfolding in_pause_def work_def by (cases "at_pc s Child"; cases "at_pc s Parent") simp_all

interpretation shared: terminating_system "flock_step shared_ofd" flock_start flock_inv work in_pause
proof
  show "flock_inv flock_start" by (simp add: flock_inv_def flock_start_def)
qed (fact flock_step_inv flock_step_work in_pause_work flock_progress)+

text \<open>C10: the two processes never deadlock on the locks they take in opposite order, since they share the open
  file descriptions: every run goes on until both processes are in \<open>pause\<close>, which takes exactly eight
  steps, however the steps are interleaved.\<close>

theorem flock_always_ends:
  assumes "(flock_step shared_ofd ^^ n) flock_start s"
  shows "n \<le> 8 \<and> (in_pause s \<longleftrightarrow> n = 8) \<and> (n < 8 \<longrightarrow> (\<exists>s'. flock_step shared_ofd s s'))"
  using shared.run_ends[OF assms] by (simp add: work_def flock_start_def)

text \<open>The state in which each process has its first lock and has passed the semaphore.\<close>

definition crossed :: "(proc_id \<Rightarrow> lock_file \<Rightarrow> 'd) \<Rightarrow> 'd flock_state" where
  "crossed ofd = \<lparr>owner = (\<lambda>f. Some (case f of F1 \<Rightarrow> ofd Child F1 | F2 \<Rightarrow> ofd Parent F2)), sem_count = 1,
     at_pc = (\<lambda>p. Second)\<rparr>"

lemma crossed_eq: "at_pc s = (\<lambda>p. Second) \<Longrightarrow> sem_count s = 1 \<Longrightarrow> owner s F1 = Some (ofd Child F1) \<Longrightarrow>
    owner s F2 = Some (ofd Parent F2) \<Longrightarrow> s = crossed ofd"
  by (cases s) (auto simp: crossed_def fun_eq_iff split: lock_file.split)

lemma crossed_reachable: "(flock_step ofd ^^ 6) flock_start (crossed ofd)"
proof -
  let ?a = "advance Child Wait (take_lock ofd Child F1 flock_start)"
  let ?b = "advance Parent Wait (take_lock ofd Parent F2 ?a)"
  let ?c = "advance Child Post (?b\<lparr>sem_count := sem_count ?b - 1\<rparr>)"
  let ?d = "advance Child Second (?c\<lparr>sem_count := sem_count ?c + 1\<rparr>)"
  let ?e = "advance Parent Post (?d\<lparr>sem_count := sem_count ?d - 1\<rparr>)"
  let ?f = "advance Parent Second (?e\<lparr>sem_count := sem_count ?e + 1\<rparr>)"
  have 1: "flock_step ofd flock_start ?a" using flock_step.first[of flock_start Child ofd] by (simp add: flock_start_def can_lock_def)
  have 2: "flock_step ofd ?a ?b" using flock_step.first[of ?a Parent ofd] by (simp add: flock_start_def can_lock_def)
  have 3: "flock_step ofd ?b ?c" by (rule flock_step.wait) (simp_all add: flock_start_def)
  have 4: "flock_step ofd ?c ?d" by (rule flock_step.post) simp
  have 5: "flock_step ofd ?d ?e" by (rule flock_step.wait) (simp_all add: flock_start_def advance_def)
  have 6: "flock_step ofd ?e ?f" by (rule flock_step.post) simp
  have "at_pc ?f p = Second" for p by (cases p) (simp_all add: advance_def take_lock_def flock_start_def)
  then have "at_pc ?f = (\<lambda>p. Second)" by (rule ext)
  then have "?f = crossed ofd" by (rule crossed_eq) (simp_all add: advance_def take_lock_def flock_start_def)
  moreover have "(flock_step ofd ^^ Suc (Suc (Suc (Suc (Suc (Suc 0)))))) flock_start ?f"
    by (intro relpowp_Suc_I) (rule relpowp_0_I 1 2 3 4 5 6)+
  ultimately show ?thesis by (simp add: eval_nat_numeral)
qed

text \<open>With descriptions of their own, as if each process had opened the files itself, this state is a deadlock.\<close>

definition own_ofd :: "proc_id \<Rightarrow> lock_file \<Rightarrow> proc_id \<times> lock_file" where
  "own_ofd p f = (p, f)"

lemma own_ofd_deadlock: "(flock_step own_ofd ^^ 6) flock_start (crossed own_ofd) \<and> \<not> flock_step own_ofd (crossed own_ofd) s'"
proof
  show "(flock_step own_ofd ^^ 6) flock_start (crossed own_ofd)" by (rule crossed_reachable)
  have "\<not> can_lock own_ofd (crossed own_ofd) p (second_file p)" for p
    by (cases p) (simp_all add: can_lock_def crossed_def own_ofd_def)
  then show "\<not> flock_step own_ofd (crossed own_ofd) s'"
    by (auto simp: flock_step_iff crossed_def)
qed

theorem flock_always_ends_witness: "\<exists>s'. flock_step shared_ofd (crossed shared_ofd) s'"
  using flock_always_ends[OF crossed_reachable] by simp

section \<open>An unprotected counter\<close>

text \<open>In front of the read of \<open>glob\<close>, of the write, of the \<open>printf\<close>.\<close>

datatype thread_pc = At_read | At_write | At_print

record thrd =
  tpc :: thread_pc
  loc :: int
  j :: nat

datatype thread_id = T1 | T2     \<comment> \<open>with \<open>symbol\<close> 1 and 2\<close>

record counter =
  glob :: int
  thread :: "thread_id \<Rightarrow> thrd"
  printed :: "(thread_id \<times> int) list"

text \<open>The number of loops: \<open>n\<close> is what \<open>getInt\<close> returned for the argument.\<close>

definition thread_loops :: "nat option \<Rightarrow> nat" where
  "thread_loops n = (case n of None \<Rightarrow> 10000000 | Some k \<Rightarrow> k)"

definition set_thread :: "thread_id \<Rightarrow> thrd \<Rightarrow> counter \<Rightarrow> counter" where
  "set_thread t th c = c\<lparr>thread := (thread c)(t := th)\<rparr>"

inductive threadFunc :: "nat \<Rightarrow> counter \<Rightarrow> counter \<Rightarrow> bool" for loops :: nat where
  do_read: "thread c t = \<lparr>tpc = At_read, loc = l, j = i\<rparr> \<Longrightarrow> i < loops \<Longrightarrow>
    threadFunc loops c (set_thread t \<lparr>tpc = At_write, loc = glob c + 1, j = i\<rparr> c)"
| do_write: "thread c t = \<lparr>tpc = At_write, loc = l, j = i\<rparr> \<Longrightarrow>
    threadFunc loops c (set_thread t \<lparr>tpc = At_print, loc = l, j = i\<rparr> (c\<lparr>glob := l\<rparr>))"
| do_print: "thread c t = \<lparr>tpc = At_print, loc = l, j = i\<rparr> \<Longrightarrow>
    threadFunc loops c (set_thread t \<lparr>tpc = At_read, loc = l, j = i + 1\<rparr> (c\<lparr>printed := printed c @ [(t, glob c)]\<rparr>))"

text \<open>A state in which both threads have finished \<open>i\<close> rounds.\<close>

definition counter_at :: "nat \<Rightarrow> int \<Rightarrow> counter \<Rightarrow> bool" where
  "counter_at i g c \<longleftrightarrow> glob c = g \<and> (\<forall>t. tpc (thread c t) = At_read \<and> j (thread c t) = i)"

definition counter0 :: counter where
  "counter0 = \<lparr>glob = 0, thread = (\<lambda>t. \<lparr>tpc = At_read, loc = 0, j = 0\<rparr>), printed = []\<rparr>"

text \<open>The writes that a thread has made.\<close>

definition writes :: "thrd \<Rightarrow> int" where
  "writes th = int (j th) + (if tpc th = At_print then 1 else 0)"

definition thrd_ok :: "nat \<Rightarrow> int \<Rightarrow> thrd \<Rightarrow> bool" where
  "thrd_ok loops w th \<longleftrightarrow> j th \<le> loops \<and> (tpc th \<noteq> At_read \<longrightarrow> j th < loops) \<and>
     (tpc th = At_write \<longrightarrow> 0 < loc th \<and> loc th \<le> w + 1)"

definition counter_inv :: "nat \<Rightarrow> counter \<Rightarrow> bool" where
  "counter_inv loops c \<longleftrightarrow> (let w = writes (thread c T1) + writes (thread c T2) in
     0 \<le> glob c \<and> glob c \<le> w \<and> (0 < w \<longrightarrow> 0 < glob c) \<and>
     thrd_ok loops w (thread c T1) \<and> thrd_ok loops w (thread c T2))"

lemma set_thread_fields [simp]:
  "glob (set_thread t th c) = glob c" "thread (set_thread t th c) = (thread c)(t := th)"
  by (simp_all add: set_thread_def)

lemma thrd_ok_mono: "thrd_ok loops w th \<Longrightarrow> w \<le> w' \<Longrightarrow> thrd_ok loops w' th"
  by (auto simp: thrd_ok_def)

lemma writes_simps [simp]:
  "writes \<lparr>tpc = At_read, loc = l, j = i\<rparr> = int i" "writes \<lparr>tpc = At_write, loc = l, j = i\<rparr> = int i"
  "writes \<lparr>tpc = At_print, loc = l, j = i\<rparr> = int i + 1" "0 \<le> writes th"
  by (simp_all add: writes_def)

lemma threadFunc_inv: "threadFunc loops c c' \<Longrightarrow> counter_inv loops c \<Longrightarrow> counter_inv loops c'"
proof (induction rule: threadFunc.induct)
  case (do_read c t l i)
  then show ?case by (cases t) (simp_all add: counter_inv_def Let_def thrd_ok_def)
next
  case (do_write c t l i)
  let ?w = "writes (thread c T1) + writes (thread c T2)"
  have m: "thrd_ok loops ?w (thread c u) \<Longrightarrow> thrd_ok loops (?w + 1) (thread c u)" for u by (rule thrd_ok_mono) auto
  show ?case
  proof (cases t)
    case T1
    then show ?thesis using do_write m[of T2] by (simp add: counter_inv_def Let_def thrd_ok_def algebra_simps)
  next
    case T2
    then show ?thesis using do_write m[of T1] by (simp add: counter_inv_def Let_def thrd_ok_def algebra_simps)
  qed
next
  case (do_print c t l i)
  then show ?case by (cases t) (simp_all add: counter_inv_def Let_def thrd_ok_def algebra_simps)
qed

interpretation counting: invariant_system "threadFunc loops" counter0 "counter_inv loops" for loops
proof
  show "counter_inv loops counter0" by (simp add: counter_inv_def counter0_def thrd_ok_def)
qed (fact threadFunc_inv)

text \<open>The final value is at most twice the number of loops and at least one.\<close>

lemma counter_bounds:
  assumes "(threadFunc loops)\<^sup>*\<^sup>* counter0 c" and "counter_at loops g c" and "0 < loops"
  shows "1 \<le> g \<and> g \<le> 2 * int loops"
proof -
  have "counter_inv loops c" using assms(1) by (rule counting.reach_inv)
  then show ?thesis using assms(2,3) by (simp add: counter_inv_def counter_at_def writes_def Let_def)
qed

text \<open>A round in which both threads read before either writes counts one for two increments.\<close>

lemma counter_lost_round:
  assumes "counter_at i g c" and "i < loops"
  shows "\<exists>c'. (threadFunc loops)\<^sup>*\<^sup>* c c' \<and> counter_at (i + 1) (g + 1) c'"
proof -
  obtain l1 l2 where c: "glob c = g" "thread c T1 = \<lparr>tpc = At_read, loc = l1, j = i\<rparr>" "thread c T2 = \<lparr>tpc = At_read, loc = l2, j = i\<rparr>"
    using assms(1) that[of "loc (thread c T1)" "loc (thread c T2)"] unfolding counter_at_def by simp
  let ?th = "\<lambda>p i. \<lparr>tpc = p, loc = g + 1, j = i\<rparr>"
  let ?c1 = "set_thread T1 (?th At_write i) c"
  let ?c2 = "set_thread T2 (?th At_write i) ?c1"
  let ?c3 = "set_thread T1 (?th At_print i) (?c2\<lparr>glob := g + 1\<rparr>)"
  let ?c4 = "set_thread T2 (?th At_print i) (?c3\<lparr>glob := g + 1\<rparr>)"
  let ?c5 = "set_thread T1 (?th At_read (i + 1)) (?c4\<lparr>printed := printed ?c4 @ [(T1, glob ?c4)]\<rparr>)"
  let ?c6 = "set_thread T2 (?th At_read (i + 1)) (?c5\<lparr>printed := printed ?c5 @ [(T2, glob ?c5)]\<rparr>)"
  have 1: "threadFunc loops c ?c1" using threadFunc.do_read[of c T1 l1 i loops] c assms(2) by simp
  have 2: "threadFunc loops ?c1 ?c2" using threadFunc.do_read[of ?c1 T2 l2 i loops] c assms(2) by simp
  have 3: "threadFunc loops ?c2 ?c3" by (rule threadFunc.do_write) (simp_all add: set_thread_def)
  have 4: "threadFunc loops ?c3 ?c4" by (rule threadFunc.do_write) (simp_all add: set_thread_def)
  have 5: "threadFunc loops ?c4 ?c5" by (rule threadFunc.do_print) (simp_all add: set_thread_def)
  have 6: "threadFunc loops ?c5 ?c6" by (rule threadFunc.do_print) (simp_all add: set_thread_def)
  have "(threadFunc loops)\<^sup>*\<^sup>* c ?c6"
    by (rule converse_rtranclp_into_rtranclp, rule 1, rule converse_rtranclp_into_rtranclp, rule 2,
        rule converse_rtranclp_into_rtranclp, rule 3, rule converse_rtranclp_into_rtranclp, rule 4,
        rule converse_rtranclp_into_rtranclp, rule 5, rule converse_rtranclp_into_rtranclp, rule 6,
        rule rtranclp.rtrancl_refl)
  moreover have "tpc (thread ?c6 t) = At_read \<and> j (thread ?c6 t) = i + 1" for t by (cases t) simp_all
  then have "counter_at (i + 1) (g + 1) ?c6" unfolding counter_at_def by simp
  ultimately show ?thesis by blast
qed

lemma counter_lost_updates: "i \<le> loops \<Longrightarrow> \<exists>c. (threadFunc loops)\<^sup>*\<^sup>* counter0 c \<and> counter_at i (int i) c"
proof (induction i)
  case 0
  then show ?case by (intro exI[of _ counter0]) (simp add: counter_at_def counter0_def)
next
  case (Suc i)
  then obtain c where c: "(threadFunc loops)\<^sup>*\<^sup>* counter0 c" "counter_at i (int i) c" by auto
  have "i < loops" using Suc.prems by simp
  from counter_lost_round[OF c(2) this] obtain c' where c': "(threadFunc loops)\<^sup>*\<^sup>* c c'" "counter_at (i + 1) (int i + 1) c'"
    by blast
  have "int (Suc i) = int i + 1" by simp
  then have "counter_at (Suc i) (int (Suc i)) c'" using c'(2) by (metis Suc_eq_plus1)
  then show ?case using rtranclp_trans[OF c(1) c'(1)] by blast
qed


text \<open>\<open>main\<close>: the number of loops, the results of the four calls on the threads, and \<open>c\<close> as the state when both threads have been
  joined.\<close>

definition counter_main :: "int \<Rightarrow> int \<Rightarrow> int \<Rightarrow> int \<Rightarrow> counter \<Rightarrow> string list \<Rightarrow> (nat \<times> string) result" where
  "counter_main create1 create2 join1 join2 c argv =
     rbind (if length argv > 1 then rbind (getInt (Some (argv ! 1)) GN_GT_0 (Some ''num-loops'')) (\<lambda>n. Inr (thread_loops (Some (nat n))))
        else Inr (thread_loops None)) (\<lambda>loops.
       if create1 \<noteq> 0 \<or> create2 \<noteq> 0 then Inl (stop_with ''pthread_create'')
       else if join1 \<noteq> 0 \<or> join2 \<noteq> 0 then Inl (stop_with ''pthread_join'')
       else Inr (loops, ''glob = '' @ dec_int (glob c) @ [newline]))"

lemma counter_main_output:
  assumes "counter_main 0 0 0 0 c argv = Inr (loops, out)" and "(threadFunc loops)\<^sup>*\<^sup>* counter0 c" and "counter_at loops (glob c) c"
    and "0 < loops"
  shows "\<exists>g. out = ''glob = '' @ dec_int g @ [newline] \<and> 1 \<le> g \<and> g \<le> 2 * int loops"
  using assms(1) counter_bounds[OF assms(2-4)] by (auto simp: counter_main_def)

end
