(* ===== verification/File_Monitor.thy ===== *)
theory File_Monitor
  imports Linked_Heap Error_Functions
begin

text \<open>
  \<open>19-1-file_monitor.c\<close>: watch every file of a tree and print the events.  The tree walk gives the list of
  paths, \<open>inotify_add_watch\<close> is a function of the path, and the outcomes of \<open>read\<close> are a list.  The
  list of watched paths is in the heap; the event buffer is a list of bytes, and events are read out
  of it at byte offsets.
\<close>

section \<open>Adding watches\<close>

record watch =
  watch_wd :: int
  fpath :: string

record monitor_env =
  add_watch :: "string \<Rightarrow> int"
  strdup_ok :: "string \<Rightarrow> bool"

definition inotify_adder :: "monitor_env \<Rightarrow> string \<Rightarrow> addr \<Rightarrow> watch store \<Rightarrow> watch store result" where
  "inotify_adder env path header s =
     (let wd = add_watch env path in
      if wd = -1 then Inl (stop_with ''inotify_add_watch'')
      else case malloc_node s (Some \<lparr>watch_wd = wd, fpath = path\<rparr>) of None \<Rightarrow> Inl (stop_with ''malloc'')
      | Some (tmp, s1) \<Rightarrow>
          if \<not> strdup_ok env path then Inl (stop_with ''strdup'') else link_after s1 header tmp)"

fun nftw :: "monitor_env \<Rightarrow> string list \<Rightarrow> addr \<Rightarrow> watch store \<Rightarrow> watch store result" where
  "nftw env [] header s = Inr s"
| "nftw env (path # paths) header s = rbind (inotify_adder env path header s) (nftw env paths header)"

section \<open>Showing an event\<close>

definition BUF_LEN :: nat where "BUF_LEN = 10 * (16 + 255 + 1)"

record inotify_event =
  wd :: "32 word"
  mask :: "32 word"
  cookie :: "32 word"
  len :: "32 word"

definition event_at :: "8 word list \<Rightarrow> nat \<Rightarrow> inotify_event result" where
  "event_at buffer p =
     (if length buffer < p + 16 then Inl (Undefined OutOfBounds)
      else Inr \<lparr>wd = of_le_bytes (take 4 (drop p buffer)), mask = of_le_bytes (take 4 (drop (p + 4) buffer)),
         cookie = of_le_bytes (take 4 (drop (p + 8) buffer)), len = of_le_bytes (take 4 (drop (p + 12) buffer))\<rparr>)"

definition text_of :: "8 word list \<Rightarrow> string" where
  "text_of bs = map (\<lambda>b. char_of (unat b)) bs"

text \<open>The string \<open>i->name\<close>, up to the first null byte of the buffer.\<close>

definition name_at :: "8 word list \<Rightarrow> nat \<Rightarrow> string result" where
  "name_at buffer p =
     (if 0 \<notin> set (drop (p + 16) buffer) then Inl (Undefined OutOfBounds)
      else Inr (text_of (takeWhile (\<lambda>b. b \<noteq> 0) (drop (p + 16) buffer))))"

text \<open>\<open>%2d\<close> and \<open>%4d\<close>.\<close>

definition pad_left :: "nat \<Rightarrow> string \<Rightarrow> string" where
  "pad_left n s = replicate (n - length s) CHR '' '' @ s"

definition mask_text :: "32 word \<Rightarrow> string" where
  "mask_text m =
     (if m AND 0x1 \<noteq> 0 then ''IN_ACCESS '' else []) @
     (if m AND 0x4 \<noteq> 0 then ''IN_ATTRIB '' else []) @
     (if m AND 0x10 \<noteq> 0 then ''IN_CLOSE_NOWRITE '' else []) @
     (if m AND 0x8 \<noteq> 0 then ''IN_CLOSE_WRITE '' else []) @
     (if m AND 0x100 \<noteq> 0 then ''IN_CREATE '' else []) @
     (if m AND 0x200 \<noteq> 0 then ''IN_DELETE '' else []) @
     (if m AND 0x400 \<noteq> 0 then ''IN_DELETE_SELF '' else []) @
     (if m AND 0x8000 \<noteq> 0 then ''IN_IGNORED '' else []) @
     (if m AND 0x40000000 \<noteq> 0 then ''IN_ISDIR '' else []) @
     (if m AND 0x2 \<noteq> 0 then ''IN_MODIFY '' else []) @
     (if m AND 0x800 \<noteq> 0 then ''IN_MOVE_SELF '' else []) @
     (if m AND 0x40 \<noteq> 0 then ''IN_MOVED_FROM '' else []) @
     (if m AND 0x80 \<noteq> 0 then ''IN_MOVED_TO '' else []) @
     (if m AND 0x20 \<noteq> 0 then ''IN_OPEN '' else []) @
     (if m AND 0x4000 \<noteq> 0 then ''IN_Q_OVERFLOW '' else []) @
     (if m AND 0x2000 \<noteq> 0 then ''IN_UNMOUNT '' else [])"

definition event_line :: "inotify_event \<Rightarrow> string" where
  "event_line i = ''    wd ='' @ pad_left 2 (dec_int (sint (wd i))) @ ''; '' @
     (if 0 < cookie i then ''cookie ='' @ pad_left 4 (dec_int (sint (cookie i))) @ ''; '' else []) @
     ''mask = '' @ mask_text (mask i) @ [newline]"

definition name_line :: "string \<Rightarrow> string" where
  "name_line name = ''        name = '' @ name @ [newline]"

definition displayInotifyEvent :: "8 word list \<Rightarrow> nat \<Rightarrow> inotify_event \<Rightarrow> string result" where
  "displayInotifyEvent buffer p i =
     (if 0 < len i then rbind (name_at buffer p) (\<lambda>name. Inr (event_line i @ name_line name))
      else Inr (event_line i))"

section \<open>The loops of \<open>main\<close>\<close>

function event_loop :: "8 word list \<Rightarrow> nat \<Rightarrow> nat \<Rightarrow> string result" where
  "event_loop buffer read_num p =
     (if read_num \<le> p then Inr []
      else rbind (event_at buffer p) (\<lambda>event. rbind (displayInotifyEvent buffer p event) (\<lambda>out.
        rbind (event_loop buffer read_num (p + 16 + unat (len event))) (\<lambda>rest. Inr (out @ rest)))))"
  by pat_completeness auto
termination by (relation "measure (\<lambda>(buffer, read_num, p). read_num - p)") auto

declare event_loop.simps [simp del]

text \<open>The endless loop over \<open>read\<close>, for a list of its outcomes; \<open>None\<close> stands for -1.\<close>

fun monitor_loop :: "8 word list \<Rightarrow> 8 word list option list \<Rightarrow> string result" where
  "monitor_loop buffer [] = Inr []"
| "monitor_loop buffer (None # rs) = Inl (stop_with ''read'')"
| "monitor_loop buffer (Some bs # rs) =
     (let buffer = bs @ drop (length bs) buffer in
      rbind (event_loop buffer (length bs) 0) (\<lambda>out. rbind (monitor_loop buffer rs) (\<lambda>rest. Inr (out @ rest))))"

definition monitor_main ::
    "monitor_env \<Rightarrow> (string \<Rightarrow> bool option) \<Rightarrow> bool \<Rightarrow> nat \<Rightarrow> (string \<Rightarrow> string list option) \<Rightarrow> string list
     \<Rightarrow> 8 word list option list \<Rightarrow> string result" where
  "monitor_main env stat_isdir init_ok q walk argv reads =
     (if length argv \<noteq> 2 \<or> strcmp (argv ! 1) ''--help'' = 0 then Inl (stop_with (argv ! 0 @ '' dir'' @ [newline]))
      else case stat_isdir (argv ! 1) of None \<Rightarrow> Inl (stop_with ''stat'')
      | Some isdir \<Rightarrow>
          if \<not> isdir then Inl (stop_with (argv ! 0 @ '' dir''))
          else if \<not> init_ok then Inl (stop_with ''inofity_init'')
          else case walk (argv ! 1) of None \<Rightarrow> Inl (stop_with ''nftw'')
          | Some paths \<Rightarrow>
              rbind (nftw env paths 1 \<lparr>cells = [1 \<mapsto> Node None NULL], fresh = 2, quota = q\<rparr>) (\<lambda>s.
                monitor_loop (replicate BUF_LEN 0) reads))"

section \<open>The watches\<close>

lemma nftw_headed:
  assumes "\<forall>path\<in>set paths. add_watch env path \<noteq> -1 \<and> strdup_ok env path"
  shows "headed s h y L \<Longrightarrow> length paths \<le> quota s \<Longrightarrow>
    \<exists>s' N. nftw env paths h s = Inr s' \<and> headed s' h y (N @ L) \<and>
      map prod.snd N = rev (map (\<lambda>p. \<lparr>watch_wd = add_watch env p, fpath = p\<rparr>) paths)"
  using assms
proof (induction paths arbitrary: s L)
  case (Cons p paths)
  let ?w = "\<lparr>watch_wd = add_watch env p, fpath = p\<rparr>"
  obtain s1 s2 where s: "malloc_node s (Some ?w) = Some (fresh s, s1)" "link_after s1 h (fresh s) = Inr s2"
    "headed s2 h y ((fresh s, ?w) # L)" "quota s2 = quota s - 1"
    using link_after_headed[of s h y "[]" L ?w] Cons.prems(1,2) by auto
  then have "inotify_adder env p h s = Inr s2" using Cons.prems(3) by (simp add: inotify_adder_def)
  moreover have "length paths \<le> quota s2" using s(4) Cons.prems(2) by simp
  then obtain s' N where "nftw env paths h s2 = Inr s'" "headed s' h y (N @ (fresh s, ?w) # L)"
    "map prod.snd N = rev (map (\<lambda>p. \<lparr>watch_wd = add_watch env p, fpath = p\<rparr>) paths)"
    using Cons.IH[OF s(3)] Cons.prems(3) by auto
  ultimately show ?case by (intro exI[of _ s'] exI[of _ "N @ [(fresh s, ?w)]"]) simp
qed (auto intro: exI[of _ "[]"])

section \<open>What is printed\<close>

text \<open>An event as the kernel writes it: the four numbers and, if there is a name, the name with at least one null
  byte behind it.\<close>

record event =
  ev_wd :: "32 word"
  ev_mask :: "32 word"
  ev_cookie :: "32 word"
  ev_name :: "8 word list"
  ev_nulls :: nat

definition event_ok :: "event \<Rightarrow> bool" where
  "event_ok e \<longleftrightarrow> 0 \<notin> set (ev_name e) \<and> (ev_name e \<noteq> [] \<longrightarrow> 0 < ev_nulls e)"

definition name_field :: "event \<Rightarrow> 8 word list" where
  "name_field e = ev_name e @ replicate (ev_nulls e) 0"

definition encode_event :: "event \<Rightarrow> 8 word list" where
  "encode_event e = le_bytes (ev_wd e) @ le_bytes (ev_mask e) @ le_bytes (ev_cookie e)
     @ le_bytes (of_nat (length (name_field e))) @ name_field e"

definition event_text :: "event \<Rightarrow> string" where
  "event_text e = ''    wd ='' @ pad_left 2 (dec_int (sint (ev_wd e))) @ ''; '' @
     (if ev_cookie e \<noteq> 0 then ''cookie ='' @ pad_left 4 (dec_int (sint (ev_cookie e))) @ ''; '' else []) @
     ''mask = '' @ mask_text (ev_mask e) @ [newline] @
     (if ev_nulls e = 0 then [] else ''        name = '' @ text_of (ev_name e) @ [newline])"

lemma event_at_encoded:
  "event_at (pre @ encode_event e @ post) (length pre) =
     Inr \<lparr>wd = ev_wd e, mask = ev_mask e, cookie = ev_cookie e, len = of_nat (length (name_field e))\<rparr>"
  by (simp add: event_at_def encode_event_def)

lemma name_at_encoded:
  assumes "event_ok e" and "0 < ev_nulls e"
  shows "name_at (pre @ encode_event e @ post) (length pre) = Inr (text_of (ev_name e))"
proof -
  obtain k where k: "ev_nulls e = Suc k" using assms(2) by (cases "ev_nulls e") auto
  have d: "drop (length pre + 16) (pre @ encode_event e @ post) = ev_name e @ 0 # replicate k 0 @ post"
    by (simp add: encode_event_def name_field_def k)
  have "\<forall>b\<in>set (ev_name e). b \<noteq> 0" using assms(1) by (auto simp: event_ok_def)
  then have "takeWhile (\<lambda>b. b \<noteq> 0) (ev_name e @ 0 # replicate k 0 @ post) = ev_name e"
    using takeWhile_dropWhile_append[of "ev_name e" "\<lambda>b. b \<noteq> 0" "0 # replicate k 0 @ post"] by simp
  then show ?thesis by (simp only: name_at_def d) simp
qed

lemma unat_len: "n < 2 ^ 32 \<Longrightarrow> unat (of_nat n :: 32 word) = n"
  by (simp add: unat_of_nat take_bit_eq_mod)

lemma display_encoded:
  assumes "event_ok e" and "length (name_field e) < 2 ^ 32"
  shows "displayInotifyEvent (pre @ encode_event e @ post) (length pre)
      \<lparr>wd = ev_wd e, mask = ev_mask e, cookie = ev_cookie e, len = of_nat (length (name_field e))\<rparr> = Inr (event_text e)"
proof -
  have "0 < length (name_field e) \<longleftrightarrow> 0 < ev_nulls e" using assms(1) by (auto simp: name_field_def event_ok_def)
  then have l: "0 < (of_nat (length (name_field e)) :: 32 word) \<longleftrightarrow> 0 < ev_nulls e"
    by (simp only: word_less_nat_alt unat_len[OF assms(2)] unat_0)
  have c: "0 < ev_cookie e \<longleftrightarrow> ev_cookie e \<noteq> 0" by (simp add: word_neq_0_conv)
  show ?thesis
  proof (cases "0 < ev_nulls e")
    case True
    then show ?thesis using name_at_encoded[OF assms(1)] l
      by (simp add: displayInotifyEvent_def event_line_def name_line_def event_text_def c)
  next
    case False
    then show ?thesis using l
      by (simp add: displayInotifyEvent_def event_line_def event_text_def c)
  qed
qed

lemma event_loop_encoded:
  "\<forall>e\<in>set es. event_ok e \<and> length (name_field e) < 2 ^ 32 \<Longrightarrow>
   event_loop (pre @ concat (map encode_event es) @ post) (length pre + length (concat (map encode_event es))) (length pre)
     = Inr (concat (map event_text es))"
proof (induction es arbitrary: pre)
  case Nil
  then show ?case by (subst event_loop.simps) simp
next
  case (Cons e es)
  let ?buf = "pre @ encode_event e @ concat (map encode_event es) @ post"
  let ?n = "length pre + length (encode_event e) + length (concat (map encode_event es))"
  have l: "length (encode_event e) = 16 + length (name_field e)" by (simp add: encode_event_def)
  have u: "unat (of_nat (length (name_field e)) :: 32 word) = length (name_field e)"
    using Cons.prems unat_len by auto
  have rec: "event_loop ?buf ?n (length pre + 16 + length (name_field e)) = Inr (concat (map event_text es))"
    using Cons.IH[of "pre @ encode_event e"] Cons.prems by (simp add: l add.assoc)
  have "event_loop ?buf ?n (length pre) = Inr (event_text e @ concat (map event_text es))"
    using Cons.prems rec
    by (subst event_loop.simps) (simp add: event_at_encoded display_encoded u l)
  then show ?case by (simp add: add.assoc)
qed

text \<open>C12: for any sequence of reads that each deliver whole events and fit into the buffer, the program shows every
  event exactly once, in order and with its name, and never reads outside the buffer, whatever the
  earlier reads left in it.\<close>

theorem monitor_shows_all:
  assumes "\<forall>es\<in>set reads. (\<forall>e\<in>set es. event_ok e) \<and> length (concat (map encode_event es)) \<le> length buffer"
    and "length buffer = BUF_LEN"
  shows "monitor_loop buffer (map (\<lambda>es. Some (concat (map encode_event es))) reads)
     = Inr (concat (map event_text (concat reads)))"
  using assms
proof (induction reads arbitrary: buffer)
  case (Cons es reads)
  let ?bs = "concat (map encode_event es)"
  have len: "length ?bs \<le> BUF_LEN" using Cons.prems by simp
  have small: "length (name_field e) < 2 ^ 32" if "e \<in> set es" for e
  proof -
    have "length (name_field e) \<le> length (encode_event e)" by (simp add: encode_event_def)
    also have "\<dots> \<le> length ?bs"
      using that member_le_sum_list[of "length (encode_event e)" "map (length \<circ> encode_event) es"]
      by (simp add: length_concat comp_def)
    finally show ?thesis using len by (simp add: BUF_LEN_def)
  qed
  have "event_loop (?bs @ drop (length ?bs) buffer) (length ?bs) 0 = Inr (concat (map event_text es))"
    using event_loop_encoded[of es "[]" "drop (length ?bs) buffer"] Cons.prems(1) small by simp
  moreover have "monitor_loop (?bs @ drop (length ?bs) buffer) (map (\<lambda>es. Some (concat (map encode_event es))) reads)
      = Inr (concat (map event_text (concat reads)))"
    using Cons.IH[of "?bs @ drop (length ?bs) buffer"] Cons.prems len by simp
  ultimately show ?case by (simp add: Let_def)
qed simp

theorem monitor_shows_all_witness:
  "monitor_loop (replicate BUF_LEN 7)
     [Some (encode_event \<lparr>ev_wd = 1, ev_mask = 0x100, ev_cookie = 0, ev_name = [97], ev_nulls = 15\<rparr>
        @ encode_event \<lparr>ev_wd = 1, ev_mask = 0x400, ev_cookie = 0, ev_name = [], ev_nulls = 0\<rparr>)]
     = Inr (''    wd = 1; mask = IN_CREATE '' @ [newline] @ ''        name = a'' @ [newline]
        @ ''    wd = 1; mask = IN_DELETE_SELF '' @ [newline])"
  using monitor_shows_all[of "[[\<lparr>ev_wd = 1, ev_mask = 0x100, ev_cookie = 0, ev_name = [97], ev_nulls = 15\<rparr>,
      \<lparr>ev_wd = 1, ev_mask = 0x400, ev_cookie = 0, ev_name = [], ev_nulls = 0\<rparr>]]" "replicate BUF_LEN 7"]
  by (simp add: event_ok_def encode_event_def name_field_def BUF_LEN_def event_text_def mask_text_def text_of_def
      pad_left_def dec_int_def dec_nat.simps char_of_def bit_0)

end
