(* ===== verification/Get_Cwd.thy ===== *)
theory Get_Cwd
  imports Error_Functions
begin

text \<open>
  \<open>18-5-my_getcwd.c\<close>: find the path of the working directory by climbing to the root and looking in every
  directory for the entry one came from.  A directory is a value of a type \<open>'d\<close>; what \<open>stat\<close>, \<open>chdir\<close>
  and \<open>readdir\<close> give there are the fields of a record.  The list of names, always extended in front
  and then taken apart from the front, is a list.
\<close>

type_synonym file_id = "nat \<times> nat"     \<comment> \<open>\<open>st_dev\<close> and \<open>st_ino\<close>\<close>

record 'd directories =
  stat_dot :: "'d \<Rightarrow> file_id option"
  stat_dotdot :: "'d \<Rightarrow> file_id option"
  chdir_dotdot :: "'d \<Rightarrow> 'd option"
  opendir_dot :: "'d \<Rightarrow> bool"
  dir_entries :: "'d \<Rightarrow> (string \<times> file_id option) list"   \<comment> \<open>the entries, each with what \<open>lstat\<close> gives\<close>
  readdir_errno :: "'d \<Rightarrow> int"                          \<comment> \<open>\<open>errno\<close> after the last entry\<close>

section \<open>The code\<close>

fun find_entry :: "file_id \<Rightarrow> (string \<times> file_id option) list \<Rightarrow> int \<Rightarrow> string result" where
  "find_entry i [] err =
     (if err = 0 then Inl (stop_with (''unable to find the ent before looking all through the upper directory'' @ [newline]))
      else Inl (stop_with ''readdir''))"
| "find_entry i ((name, None) # es) err = Inl (stop_with ''lstat'')"
| "find_entry i ((name, Some k) # es) err = (if k = i then Inr name else find_entry i es err)"

text \<open>The loop; its result is the list of names and the directory in which it ends.\<close>

partial_function (option) climb :: "'d directories \<Rightarrow> 'd \<Rightarrow> string list \<Rightarrow> (string list \<times> 'd) result option" where
  "climb env d names =
     (case stat_dot env d of None \<Rightarrow> Some (Inl (stop_with ''stat''))
      | Some local \<Rightarrow> (case stat_dotdot env d of None \<Rightarrow> Some (Inl (stop_with ''stat''))
      | Some upper \<Rightarrow>
          if local = upper then Some (Inr (names, d))
          else (case chdir_dotdot env d of None \<Rightarrow> Some (Inl (stop_with ''chdir''))
          | Some u \<Rightarrow>
              if \<not> opendir_dot env u then Some (Inl (Undefined NullDeref))
              else obind (Some (find_entry local (dir_entries env u) (readdir_errno env u)))
                (\<lambda>name. climb env u (name # names)))))"

text \<open>The second loop, with the part of the buffer that is filled; \<open>None\<close> is the null pointer that is returned
  with \<open>ERANGE\<close>.\<close>

fun fill_buffer :: "nat \<Rightarrow> string list \<Rightarrow> string \<Rightarrow> string option" where
  "fill_buffer siz [] buf = Some buf"
| "fill_buffer siz (p # ps) buf =
     (if siz \<le> length buf + length p + 1 then None else fill_buffer siz ps (buf @ ''/'' @ p))"

datatype cwd_result =
    Cwd_null
  | Cwd_untouched        \<comment> \<open>the buffer as it was passed or allocated\<close>
  | Cwd_path string

text \<open>\<open>buf_ok\<close>: a buffer was passed or could be allocated.  The directory in which the process is left is part of
  the result.\<close>

definition m_getcwd :: "'d directories \<Rightarrow> bool \<Rightarrow> nat \<Rightarrow> 'd \<Rightarrow> (cwd_result \<times> 'd) result option" where
  "m_getcwd env buf_ok siz d = obind (climb env d []) (\<lambda>(names, top).
     Some (if names = [] then Inr (if buf_ok then Cwd_untouched else Cwd_null, top)
       else if siz \<le> length (hd names) + 1 then Inr (Cwd_null, top)
       else if \<not> buf_ok then Inl (Undefined NullDeref)
       else Inr (case fill_buffer siz names [] of None \<Rightarrow> Cwd_null | Some path \<Rightarrow> Cwd_path path, top)))"

definition PATH_MAX :: nat where "PATH_MAX = 4096"

definition getcwd_main :: "'d directories \<Rightarrow> bool \<Rightarrow> 'd \<Rightarrow> string result option" where
  "getcwd_main env malloc_ok d = obind (m_getcwd env malloc_ok PATH_MAX d) (\<lambda>(r, top).
     Some (case r of Cwd_null \<Rightarrow> Inl (Undefined NullDeref) | Cwd_untouched \<Rightarrow> Inl (Undefined Uninitialised)
       | Cwd_path path \<Rightarrow> Inr (path @ [newline])))"

section \<open>What it returns\<close>

text \<open>The way from a directory to the root: each element is the name by which the directory is known and the
  directory above.  The identity of a directory occurs once among the entries of the directory above.\<close>

fun way_up :: "'d directories \<Rightarrow> 'd \<Rightarrow> (string \<times> 'd) list \<Rightarrow> bool" where
  "way_up env d [] \<longleftrightarrow> stat_dot env d \<noteq> None \<and> stat_dotdot env d = stat_dot env d"
| "way_up env d ((s, u) # ws) \<longleftrightarrow>
     (\<exists>i. stat_dot env d = Some i \<and> stat_dotdot env d = stat_dot env u \<and> stat_dot env u \<noteq> None \<and>
        stat_dot env u \<noteq> Some i \<and> (\<forall>(s', k)\<in>set (dir_entries env u). k \<noteq> None \<and> (k = Some i \<longleftrightarrow> s' = s)) \<and>
        s \<in> prod.fst ` set (dir_entries env u)) \<and>
     chdir_dotdot env d = Some u \<and> opendir_dot env u \<and> way_up env u ws"

definition path_of :: "(string \<times> 'd) list \<Rightarrow> string" where
  "path_of ws = concat (map (\<lambda>(s, u). ''/'' @ s) (rev ws))"

lemma find_entry_unique:
  "\<forall>(s', k)\<in>set es. k \<noteq> None \<and> (k = Some i \<longleftrightarrow> s' = s) \<Longrightarrow> s \<in> prod.fst ` set es \<Longrightarrow> find_entry i es err = Inr s"
proof (induction es)
  case (Cons e es)
  obtain s' k where e: "e = (s', Some k)" using Cons.prems(1) by (cases e) auto
  show ?case
  proof (cases "k = i")
    case False
    then have "s' \<noteq> s" using Cons.prems(1) e by auto
    then have "s \<in> prod.fst ` set es" using Cons.prems(2) e by auto
    then show ?thesis using Cons.IH Cons.prems(1) e False by auto
  qed (use Cons.prems(1) e in auto)
qed simp

lemma climb_way_up:
  "way_up env d ws \<Longrightarrow> climb env d names =
     Some (Inr (rev (map prod.fst ws) @ names, if ws = [] then d else prod.snd (last ws)))"
proof (induction ws arbitrary: d names)
  case Nil
  then show ?case by (subst climb.simps) (auto split: option.splits)
next
  case (Cons w ws)
  obtain s u where w: "w = (s, u)" by fastforce
  obtain i where i: "stat_dot env d = Some i" "stat_dotdot env d = stat_dot env u" "stat_dot env u \<noteq> None"
    "stat_dot env u \<noteq> Some i" "\<forall>(s', k)\<in>set (dir_entries env u). k \<noteq> None \<and> (k = Some i \<longleftrightarrow> s' = s)"
    "s \<in> prod.fst ` set (dir_entries env u)" "chdir_dotdot env d = Some u" "opendir_dot env u" "way_up env u ws"
    using Cons.prems[unfolded w way_up.simps] by blast
  obtain k where k: "stat_dot env u = Some k" "k \<noteq> i" using i(3,4) by blast
  have "climb env d names = climb env u (s # names)"
    using i(1,2,7,8) k find_entry_unique[OF i(5,6)] by (subst climb.simps) simp
  then show ?case using Cons.IH[OF i(9), of "s # names"] w by auto
qed

lemma fill_buffer_path:
  "fill_buffer n ps buf = (if ps = [] \<or> length (buf @ concat (map (\<lambda>s. ''/'' @ s) ps)) < n
     then Some (buf @ concat (map (\<lambda>s. ''/'' @ s) ps)) else None)"
  by (induction ps arbitrary: buf) auto

lemma path_of_eq: "concat (map (\<lambda>s. ''/'' @ s) (rev (map prod.fst ws))) = path_of ws"
  by (simp add: path_of_def rev_map comp_def case_prod_unfold)

text \<open>C28: in a directory below the root, on any file system in which every directory is found once in the one above,
  the function ends and returns the path, each name preceded by a slash, if the path and its null
  byte fit into the buffer, and the null pointer otherwise; in the root itself it returns the buffer
  without writing to it.  In every case the process is left in the root directory.\<close>

theorem getcwd_path:
  assumes "way_up env d ws"
  shows "m_getcwd env True n d = Some (Inr
     (if ws = [] then Cwd_untouched else if length (path_of ws) < n then Cwd_path (path_of ws) else Cwd_null,
      if ws = [] then d else prod.snd (last ws)))"
proof -
  let ?names = "rev (map prod.fst ws)"
  have c: "climb env d [] = Some (Inr (?names, if ws = [] then d else prod.snd (last ws)))"
    using climb_way_up[OF assms, of "[]"] by simp
  have f: "fill_buffer n ?names [] = (if ?names = [] \<or> length (path_of ws) < n then Some (path_of ws) else None)"
    using fill_buffer_path[of n ?names "[]"] unfolding path_of_eq by simp
  show ?thesis
  proof (cases "ws = []")
    case False
    then obtain p ps where p: "?names = p # ps" by (cases ?names) auto
    have "length (path_of ws) = length (concat (map (\<lambda>s. ''/'' @ s) (p # ps)))"
      using path_of_eq[of ws] unfolding p by simp
    then have "length p + 1 \<le> length (path_of ws)" by simp
    then show ?thesis using c f False p by (auto simp: m_getcwd_def)
  qed (use c in \<open>simp add: m_getcwd_def\<close>)
qed

definition demo_dirs :: "nat directories" where
  "demo_dirs = \<lparr>stat_dot = (\<lambda>d. Some (1, d)), stat_dotdot = (\<lambda>d. Some (1, d - 1)), chdir_dotdot = (\<lambda>d. Some (d - 1)),
     opendir_dot = (\<lambda>d. True), dir_entries = (\<lambda>d. [(''a'', Some (1, 9)), (''usr'', Some (1, d + 1))]),
     readdir_errno = (\<lambda>d. 0)\<rparr>"

theorem getcwd_path_witness:
  "m_getcwd demo_dirs True 9 2 = Some (Inr (Cwd_path ''/usr/usr'', 0)) \<and>
   m_getcwd demo_dirs True 8 2 = Some (Inr (Cwd_null, 0)) \<and> m_getcwd demo_dirs True 8 0 = Some (Inr (Cwd_untouched, 0))"
proof -
  have "way_up demo_dirs 2 [(''usr'', 1), (''usr'', 0)]" and "way_up demo_dirs 0 []" by (simp_all add: demo_dirs_def)
  from getcwd_path[OF this(1), of 9] getcwd_path[OF this(1), of 8] getcwd_path[OF this(2), of 8]
  show ?thesis by (simp add: path_of_def)
qed

end
