(* ===== verification/Library_Routines.thy ===== *)
theory Library_Routines
  imports Error_Functions
begin

text \<open>
  Library functions that the exercises write anew: \<open>62-2-do_ttyname.c\<close>, \<open>62-1-do_isatty.c\<close>, \<open>6-3-environ.c\<close>,
  \<open>8-2-realize_getpwnam.c\<close>, \<open>9-3-do_initgroups.c\<close>, \<open>45-2-my_ftok.c\<close> and \<open>23-1-my_alarm.c\<close>.  The system calls and the data
  bases they read are arguments; \<open>environ\<close> is a list of strings.
\<close>

section \<open>The name of a terminal\<close>

definition my_isatty :: "int \<Rightarrow> int" where
  "my_isatty tcgetattr_result = (if tcgetattr_result \<noteq> -1 then 1 else 0)"

text \<open>\<open>strcpy(dst + n, s)\<close> in an array of bytes.\<close>

definition strcpy_at :: "nat \<Rightarrow> string \<Rightarrow> string \<Rightarrow> string result" where
  "strcpy_at n s dst = (if length dst < n + length s + 1 then Inl (Undefined OutOfBounds)
     else Inr (take n dst @ s @ nul # drop (n + length s + 1) dst))"

record tty_env =
  isatty :: bool
  fstat_rdev :: "nat option"
  opendir_dev :: "string \<Rightarrow> bool"
  entries_of :: "string \<Rightarrow> string list"
  readdir_ok :: "string \<Rightarrow> bool"              \<comment> \<open>\<open>errno\<close> is 0 after the last entry\<close>
  stat_rdev :: "string \<Rightarrow> nat option"

text \<open>What the search of a directory leads to: a name, the end of the directory, or a return of the null pointer.\<close>

datatype search = Found string | Not_here | Give_up

fun search_dir :: "tty_env \<Rightarrow> string \<Rightarrow> nat \<Rightarrow> string list \<Rightarrow> bool \<Rightarrow> search" where
  "search_dir env dir rdev [] ok = (if ok then Not_here else Give_up)"
| "search_dir env dir rdev (name # names) ok = (case stat_rdev env (dir @ name) of None \<Rightarrow> Give_up
     | Some r \<Rightarrow> if r = rdev then Found name else search_dir env dir rdev names ok)"

definition TTY_MAX :: nat where "TTY_MAX = 4096"

text \<open>The result is the static array, or \<open>None\<close> for the null pointer.\<close>

definition my_ttyname :: "tty_env \<Rightarrow> string option result" where
  "my_ttyname env =
     rbind (strcpy_at 0 ''/dev/'' (replicate TTY_MAX nul)) (\<lambda>res.
       if \<not> isatty env then Inr None
       else case fstat_rdev env of None \<Rightarrow> Inr None
       | Some rdev \<Rightarrow>
           if \<not> opendir_dev env ''/dev'' then Inr None
           else (case search_dir env ''/dev/'' rdev (entries_of env ''/dev'') (readdir_ok env ''/dev'') of
              Give_up \<Rightarrow> Inr None
            | Found name \<Rightarrow> rbind (strcpy_at 5 name res) (\<lambda>r. Inr (Some r))
            | Not_here \<Rightarrow>
                rbind (strcpy_at 4 ''/pts'' res) (\<lambda>res1.
                  if \<not> opendir_dev env ''/dev/pts'' then Inl (Undefined NullDeref)
                  else (case search_dir env ''/dev/pts/'' rdev (entries_of env ''/dev/pts'') (readdir_ok env ''/dev/pts'') of
                     Found name \<Rightarrow> rbind (strcpy_at 9 name res1) (\<lambda>r. Inr (Some r))
                   | _ \<Rightarrow> Inr None))))"

text \<open>The first entry that is the terminal, if everything before it can be looked at.\<close>

definition first_match :: "tty_env \<Rightarrow> string \<Rightarrow> string list \<Rightarrow> string \<Rightarrow> bool" where
  "first_match env dir names name \<longleftrightarrow> (\<exists>xs ys. names = xs @ name # ys \<and> stat_rdev env (dir @ name) = fstat_rdev env \<and>
     (\<forall>x\<in>set xs. stat_rdev env (dir @ x) \<noteq> None \<and> stat_rdev env (dir @ x) \<noteq> fstat_rdev env))"

lemma search_dir_match:
  "fstat_rdev env = Some rdev \<Longrightarrow> first_match env dir names name \<Longrightarrow> search_dir env dir rdev names ok = Found name"
proof (induction names)
  case (Cons n names)
  then obtain xs ys where xs: "n # names = xs @ name # ys" "stat_rdev env (dir @ name) = Some rdev"
    "\<forall>x\<in>set xs. stat_rdev env (dir @ x) \<noteq> None \<and> stat_rdev env (dir @ x) \<noteq> Some rdev"
    by (auto simp: first_match_def)
  show ?case
  proof (cases xs)
    case Nil
    then show ?thesis using xs(1,2) by simp
  next
    case (Cons x xs')
    then have "first_match env dir names name" using xs Cons.prems(1) by (auto simp: first_match_def)
    moreover obtain r where "stat_rdev env (dir @ n) = Some r" "r \<noteq> rdev" using Cons xs by auto
    ultimately show ?thesis using Cons.IH Cons.prems(1) by simp
  qed
qed (simp add: first_match_def)

lemma search_dir_none:
  "fstat_rdev env = Some rdev \<Longrightarrow> \<forall>x\<in>set names. stat_rdev env (dir @ x) \<noteq> None \<and> stat_rdev env (dir @ x) \<noteq> fstat_rdev env \<Longrightarrow>
   search_dir env dir rdev names True = Not_here"
  by (induction names) auto

lemma strcpy_dev: "strcpy_at 0 ''/dev/'' (replicate TTY_MAX nul) = Inr (''/dev/'' @ replicate 4091 nul)"
proof -
  have "nul # replicate 4090 nul = replicate (Suc 4090) nul" by (simp only: replicate_Suc)
  then show ?thesis by (simp add: strcpy_at_def TTY_MAX_def)
qed

lemma strcpy_pts: "strcpy_at 4 ''/pts'' (''/dev/'' @ replicate 4091 nul) = Inr (''/dev/pts'' @ replicate 4088 nul)"
proof -
  have "nul # replicate 4087 nul = replicate (Suc 4087) nul" by (simp only: replicate_Suc)
  then show ?thesis by (simp add: strcpy_at_def)
qed

lemma strcpy_at_append:
  "n = length a \<Longrightarrow> length s < length b \<Longrightarrow> strcpy_at n s (a @ b) = Inr (a @ s @ nul # drop (length s + 1) b)"
  by (simp add: strcpy_at_def)

text \<open>C37: a terminal whose entry is found in \<open>/dev\<close> gets its name there; for one that is found in \<open>/dev/pts\<close> only,
  after every entry of \<open>/dev\<close> could be looked at, the function returns the name of the directory: the
  name of the terminal is stored behind the null byte that ends it.\<close>

theorem ttyname_result:
  assumes "isatty env" and "fstat_rdev env = Some rdev" and "opendir_dev env ''/dev''" and "cstring name" and "length name \<le> 255"
  shows "(first_match env ''/dev/'' (entries_of env ''/dev'') name \<longrightarrow>
      (\<exists>r. my_ttyname env = Inr (Some r) \<and> c_str r = ''/dev/'' @ name)) \<and>
    (readdir_ok env ''/dev'' \<and> opendir_dev env ''/dev/pts'' \<and>
     (\<forall>x\<in>set (entries_of env ''/dev''). stat_rdev env (''/dev/'' @ x) \<noteq> None \<and> stat_rdev env (''/dev/'' @ x) \<noteq> Some rdev) \<and>
     first_match env ''/dev/pts/'' (entries_of env ''/dev/pts'') name \<longrightarrow>
      (\<exists>r. my_ttyname env = Inr (Some r) \<and> c_str r = ''/dev/pts'' \<and> take (length name) (drop 9 r) = name))"
proof (intro conjI impI)
  assume m: "first_match env ''/dev/'' (entries_of env ''/dev'') name"
  have "my_ttyname env = rbind (strcpy_at 5 name (''/dev/'' @ replicate 4091 nul)) (\<lambda>r. Inr (Some r))"
    using assms(1-3) search_dir_match[OF assms(2) m] by (simp add: my_ttyname_def strcpy_dev)
  moreover have "strcpy_at 5 name (''/dev/'' @ replicate 4091 nul)
      = Inr ((''/dev/'' @ name) @ nul # drop (length name + 1) (replicate 4091 nul))"
    using assms(5) strcpy_at_append[of 5 "''/dev/''" name "replicate 4091 nul"] by simp
  moreover have "c_str ((''/dev/'' @ name) @ nul # drop (length name + 1) (replicate 4091 nul)) = ''/dev/'' @ name"
    by (rule c_str_terminated) (use assms(4) in simp)
  ultimately show "\<exists>r. my_ttyname env = Inr (Some r) \<and> c_str r = ''/dev/'' @ name" by auto
next
  assume p: "readdir_ok env ''/dev'' \<and> opendir_dev env ''/dev/pts'' \<and>
     (\<forall>x\<in>set (entries_of env ''/dev''). stat_rdev env (''/dev/'' @ x) \<noteq> None \<and> stat_rdev env (''/dev/'' @ x) \<noteq> Some rdev) \<and>
     first_match env ''/dev/pts/'' (entries_of env ''/dev/pts'') name"
  have n: "search_dir env ''/dev/'' rdev (entries_of env ''/dev'') True = Not_here"
    using search_dir_none[OF assms(2), of "entries_of env ''/dev''" "''/dev/''"] p assms(2) by simp
  have m: "search_dir env ''/dev/pts/'' rdev (entries_of env ''/dev/pts'') ok = Found name" for ok
    using search_dir_match[OF assms(2)] p by blast
  have "my_ttyname env = rbind (strcpy_at 9 name (''/dev/pts'' @ replicate 4088 nul)) (\<lambda>r. Inr (Some r))"
    using assms(1-3) p n m by (simp add: my_ttyname_def strcpy_dev strcpy_pts[simplified])
  moreover have "strcpy_at 9 name (''/dev/pts'' @ replicate 4088 nul)
      = Inr (''/dev/pts'' @ nul # name @ nul # drop (length name + 1) (replicate 4087 nul))"
  proof -
    have "replicate 4088 nul = nul # replicate 4087 nul" by (simp only: replicate_Suc[symmetric]) simp
    then show ?thesis
      using assms(5) strcpy_at_append[of 9 "''/dev/pts'' @ [nul]" name "replicate 4087 nul"] by simp
  qed
  moreover have "c_str (''/dev/pts'' @ nul # name @ nul # drop (length name + 1) (replicate 4087 nul)) = ''/dev/pts''"
    by (rule c_str_terminated) simp
  ultimately show "\<exists>r. my_ttyname env = Inr (Some r) \<and> c_str r = ''/dev/pts'' \<and> take (length name) (drop 9 r) = name"
    by auto
qed

definition demo_tty :: tty_env where
  "demo_tty = \<lparr>isatty = True, fstat_rdev = Some 34816, opendir_dev = (\<lambda>d. True),
     entries_of = (\<lambda>d. if d = ''/dev'' then [''null''] else [''0'']), readdir_ok = (\<lambda>d. True),
     stat_rdev = (\<lambda>f. Some (if f = ''/dev/pts/0'' then 34816 else 259))\<rparr>"

theorem ttyname_result_witness: "\<exists>r. my_ttyname demo_tty = Inr (Some r) \<and> c_str r = ''/dev/pts''"
proof -
  have "first_match demo_tty ''/dev/pts/'' (entries_of demo_tty ''/dev/pts'') ''0''"
    unfolding first_match_def by (intro exI[of _ "[]"]) (simp add: demo_tty_def)
  then show ?thesis using ttyname_result[of demo_tty 34816 "''0''"] by (auto simp: demo_tty_def)
qed

section \<open>The environment\<close>

text \<open>\<open>getenv\<close> and \<open>putenv\<close> of the C library: an entry belongs to the name before its first equals sign.\<close>

definition names_entry :: "string \<Rightarrow> string \<Rightarrow> bool" where
  "names_entry name e \<longleftrightarrow> take (length name + 1) e = name @ ''=''"

definition getenv :: "string list \<Rightarrow> string \<Rightarrow> string option" where
  "getenv env name = map_option (drop (length name + 1)) (List.find (names_entry name) env)"

fun putenv :: "string \<Rightarrow> string \<Rightarrow> string list \<Rightarrow> string list" where
  "putenv name entry [] = [entry]"
| "putenv name entry (e # es) = (if names_entry name e then entry # es else e # putenv name entry es)"

definition m_setenv :: "bool \<Rightarrow> string \<Rightarrow> string \<Rightarrow> bool \<Rightarrow> string list \<Rightarrow> (int \<times> string list) result" where
  "m_setenv malloc_ok name value overwrite env =
     (if getenv env name = None \<and> \<not> overwrite then Inr (0, env)
      else if \<not> malloc_ok then Inl (Undefined NullDeref)
      else Inr (0, putenv name (name @ ''='' @ value) env))"

text \<open>\<open>while (i < j) environ[i] = NULL;\<close> does not advance \<open>i\<close>.\<close>

partial_function (option) clear_tail :: "nat \<Rightarrow> nat \<Rightarrow> string option list \<Rightarrow> string option list option" where
  "clear_tail i j slots = (if i < j then clear_tail i j (slots[i := None]) else Some slots)"

definition m_unsetenv :: "string \<Rightarrow> string list \<Rightarrow> (int \<times> string option list) option" where
  "m_unsetenv name env =
     (let kept = filter (\<lambda>e. strstr e name = None) env; i = length kept; j = length env
      in map_option (\<lambda>slots. (0, slots)) (clear_tail i j (map Some (kept @ drop i env) @ [None])))"

lemma getenv_none: "getenv env name = None \<longleftrightarrow> (\<forall>e\<in>set env. \<not> names_entry name e)"
  by (auto simp: getenv_def find_None_iff)

lemma getenv_putenv: "getenv (putenv name (name @ ''='' @ value) env) name = Some value"
  by (induction env) (auto simp: getenv_def names_entry_def)

text \<open>With \<open>overwrite\<close> the value can be read back.  Without it, a new name is not stored and an old one is changed: the
  test is the wrong way round.\<close>

lemma setenv_effect:
  "m_setenv True name value overwrite env = Inr (r, env') \<Longrightarrow>
   r = 0 \<and> getenv env' name = (if overwrite \<or> getenv env name \<noteq> None then Some value else None)"
  using getenv_putenv[of name "value" env] by (auto simp: m_setenv_def split: if_splits)

lemma clear_tail_stuck: "i < j \<Longrightarrow> clear_tail i j slots = None"
proof -
  have "clear_tail i j slots = Some r \<Longrightarrow> \<not> i < j" for r
  proof (rule clear_tail.raw_induct [where P = "\<lambda>i j slots r. \<not> i < j"], goal_cases)
    case (1 rec i j slots r)
    then show ?case by (auto split: if_splits)
  qed
  then show "i < j \<Longrightarrow> clear_tail i j slots = None" by (cases "clear_tail i j slots") auto
qed

text \<open>C38: \<open>unsetenv\<close> ends exactly when no entry contains the name anywhere, be it in another name or in a value, and
  then it leaves the environment as it was; in all other cases it runs for ever.\<close>

theorem unsetenv_ends_iff:
  "m_unsetenv name env = (if \<forall>e\<in>set env. strstr e name = None then Some (0, map Some env @ [None]) else None)"
proof (cases "\<forall>e\<in>set env. strstr e name = None")
  case True
  then have "filter (\<lambda>e. strstr e name = None) env = env" by (rule filter_True)
  then show ?thesis using True by (simp add: m_unsetenv_def Let_def) (subst clear_tail.simps, simp)
next
  case False
  then have "length (filter (\<lambda>e. strstr e name = None) env) < length env" by (auto intro!: length_filter_less)
  then show ?thesis using False clear_tail_stuck by (simp add: m_unsetenv_def Let_def)
qed

theorem unsetenv_ends_iff_witness:
  "m_unsetenv ''A'' [''X=A''] = None \<and> m_unsetenv ''A'' [''X=1''] = Some (0, [Some ''X=1'', None])"
  using unsetenv_ends_iff[of "''A''" "[''X=A'']"] unsetenv_ends_iff[of "''A''" "[''X=1'']"] by simp

section \<open>The password and group data bases\<close>

text \<open>\<open>m_getpwnam\<close> reads on from the current position; a failed search falls off the end of the function.\<close>

record 'a passwd_db =
  passwds :: "(string \<times> 'a) list"
  position :: nat

fun pw_search :: "string \<Rightarrow> (string \<times> 'a) list \<Rightarrow> (string \<times> 'a) option" where
  "pw_search name [] = None"
| "pw_search name ((n, pw) # ps) = (if strcmp n name = 0 then Some (n, pw) else pw_search name ps)"

definition m_getpwnam :: "string \<Rightarrow> 'a passwd_db \<Rightarrow> (string \<times> 'a) result \<times> 'a passwd_db" where
  "m_getpwnam name db = (case pw_search name (drop (position db) (passwds db)) of
     Some p \<Rightarrow> (Inr p, db\<lparr>position := 0\<rparr>)
   | None \<Rightarrow> (Inl (Undefined NoReturnValue), db\<lparr>position := length (passwds db)\<rparr>))"

lemma pw_search_first:
  "cstring name \<Longrightarrow> \<forall>(n, pw)\<in>set ps. cstring n \<Longrightarrow> pw_search name ps = List.find (\<lambda>(n, pw). n = name) ps"
  by (induction ps) (auto simp: strcmp_eq_0_iff)

lemma getpwnam_again:
  assumes "fst (m_getpwnam name db) = Inl e"
  shows "fst (m_getpwnam other (snd (m_getpwnam name db))) = Inl (Undefined NoReturnValue)"
  using assms by (auto simp: m_getpwnam_def split: option.splits)

text \<open>\<open>initgroups\<close>: the list of members of a group ends in a null pointer, which the loop passes to \<open>strcmp\<close>.\<close>

fun find_member :: "string \<Rightarrow> string list \<Rightarrow> unit result" where
  "find_member user [] = Inl (Undefined NullDeref)"
| "find_member user (m # ms) = (if strcmp m user \<noteq> 0 then find_member user ms else Inr ())"

definition NGROUPS_MAX :: nat where "NGROUPS_MAX = 65536"

fun collect_groups :: "string \<Rightarrow> (int \<times> string list) list \<Rightarrow> int list \<Rightarrow> int list result" where
  "collect_groups user [] grouplist = Inr grouplist"
| "collect_groups user ((gid, mem) # gs) grouplist =
     rbind (find_member user mem) (\<lambda>_.
       if NGROUPS_MAX < length grouplist then Inl (Undefined OutOfBounds)
       else collect_groups user gs (grouplist @ [gid]))"

definition initgroups ::
    "bool \<Rightarrow> (int list \<Rightarrow> int) \<Rightarrow> string \<Rightarrow> int \<Rightarrow> (int \<times> string list) list \<Rightarrow> int result" where
  "initgroups malloc_ok setgroups user base_gid db =
     (if \<not> malloc_ok then Inl (Undefined NullDeref)
      else rbind (collect_groups user db [base_gid]) (\<lambda>grouplist. Inr (setgroups grouplist)))"

lemma find_member_iff:
  "cstring user \<Longrightarrow> \<forall>m\<in>set mem. cstring m \<Longrightarrow>
   find_member user mem = (if user \<in> set mem then Inr () else Inl (Undefined NullDeref))"
  by (induction mem) (auto simp: strcmp_eq_0_iff)

lemma collect_groups_all:
  "cstring user \<Longrightarrow> \<forall>(g, mem)\<in>set db. \<forall>m\<in>set mem. cstring m \<Longrightarrow> length grouplist + length db \<le> NGROUPS_MAX + 1 \<Longrightarrow>
   collect_groups user db grouplist =
     (if \<forall>(g, mem)\<in>set db. user \<in> set mem then Inr (grouplist @ map fst db) else Inl (Undefined NullDeref))"
proof (induction db arbitrary: grouplist)
  case (Cons x db)
  obtain g mem where "x = (g, mem)" by fastforce
  then show ?case using Cons.IH[of "grouplist @ [g]"] Cons.prems by (auto simp: find_member_iff)
qed simp

text \<open>The call succeeds only for a user who is in every group of the data base.\<close>

lemma initgroups_effect:
  assumes "cstring user" and "\<forall>(g, mem)\<in>set db. \<forall>m\<in>set mem. cstring m" and "length db \<le> NGROUPS_MAX"
  shows "initgroups True setgroups user base_gid db =
    (if \<forall>(g, mem)\<in>set db. user \<in> set mem then Inr (setgroups (base_gid # map fst db)) else Inl (Undefined NullDeref))"
  using collect_groups_all[OF assms(1,2), of "[base_gid]"] assms(3) by (simp add: initgroups_def)

section \<open>Keys and alarms\<close>

text \<open>A shift of an \<open>int\<close> into its sign bit is undefined.\<close>

definition my_ftok :: "(64 word \<times> 64 word) option \<Rightarrow> 32 word \<Rightarrow> 32 word result" where
  "my_ftok st proj_id = (case st of None \<Rightarrow> Inr (-1)
     | Some (st_ino, st_dev) \<Rightarrow>
         let p = proj_id AND 0xFF in
         if bit p 7 then Inl (Undefined SignedOverflow)
         else Inr (ucast (scast (push_bit 24 p) OR push_bit 8 (st_ino AND 0xFFFF) OR (st_dev AND 0xFF))))"

lemma bit_mask_word:
  "bit (w AND 0xFF) n \<longleftrightarrow> n < 8 \<and> bit w n" "bit (v AND 0xFFFF) n \<longleftrightarrow> n < 16 \<and> bit v n" for w v :: "'a::len word"
proof -
  have a: "(0xFF :: 'a word) = mask 8" "(0xFFFF :: 'a word) = mask 16" by (simp_all add: mask_eq_exp_minus_1)
  show "bit (w AND 0xFF) n \<longleftrightarrow> n < 8 \<and> bit w n" "bit (v AND 0xFFFF) n \<longleftrightarrow> n < 16 \<and> bit v n"
    unfolding a by (auto simp: bit_and_iff bit_mask_iff dest: bit_imp_le_length)
qed

text \<open>The key holds the low eight bits of the device, the low sixteen of the inode and the project number.\<close>

lemma ftok_bits:
  assumes "my_ftok (Some (st_ino, st_dev)) proj_id = Inr k" and "n < 32"
  shows "bit k n \<longleftrightarrow> (if n < 8 then bit st_dev n else if n < 24 then bit st_ino (n - 8) else bit proj_id (n - 24))"
proof -
  define p q r where "p = proj_id AND 0xFF" and "q = st_ino AND 0xFFFF" and "r = st_dev AND 0xFF"
  have "k = ucast (scast (push_bit 24 p) OR push_bit 8 q OR r)"
    using assms(1) unfolding p_def q_def r_def by (auto simp: my_ftok_def Let_def split: if_splits)
  moreover have p: "bit p m \<longleftrightarrow> m < 8 \<and> bit proj_id m" and "bit q m \<longleftrightarrow> m < 16 \<and> bit st_ino m" and "bit r m \<longleftrightarrow> m < 8 \<and> bit st_dev m" for m
    unfolding p_def q_def r_def by (rule bit_mask_word)+
  ultimately have k: "bit k n \<longleftrightarrow> bit (push_bit 24 p) (if n < 31 then n else 31) \<or> 8 \<le> n \<and> n < 24 \<and> bit st_ino (n - 8) \<or> n < 8 \<and> bit st_dev n"
    using assms(2) by (simp add: bit_ucast_iff bit_or_iff bit_push_bit_iff bit_signed_iff min_def) linarith
  consider "n < 24" | "24 \<le> n" "n < 31" | "n = 31" using assms(2) by linarith
  then show ?thesis
  proof cases
    case 2
    then have "n - 24 < 8" by linarith
    then show ?thesis using 2 k by (simp add: bit_push_bit_iff p)
  next
    case 3
    show ?thesis using k unfolding 3 by (simp add: bit_push_bit_iff p)
  qed (use k in \<open>auto simp: bit_push_bit_iff p\<close>)
qed

record itimer =
  value_sec :: nat
  value_usec :: nat
  interval_sec :: nat
  interval_usec :: "nat option"      \<comment> \<open>\<open>None\<close>: not initialised\<close>

definition alarm_timer :: "nat \<Rightarrow> itimer" where
  "alarm_timer seconds = \<lparr>value_sec = seconds, value_usec = 0, interval_sec = 0, interval_usec = None\<rparr>"

text \<open>\<open>setitimer\<close> gives the value of the timer so far.\<close>

definition my_alarm :: "(itimer \<Rightarrow> nat \<times> nat) \<Rightarrow> nat \<Rightarrow> nat" where
  "my_alarm setitimer seconds = (case setitimer (alarm_timer seconds) of (sec, usec) \<Rightarrow> sec + (usec + 999999) div 1000000)"

text \<open>The rest of the former alarm is rounded up to whole seconds.\<close>

lemma my_alarm_ceiling:
  assumes "setitimer (alarm_timer seconds) = (sec, usec)" and "usec < 1000000"
  shows "my_alarm setitimer seconds = (if usec = 0 then sec else sec + 1)"
  using assms by (auto simp: my_alarm_def)

end
