(* ===== verification/Thread_Tree.thy ===== *)
theory Thread_Tree
  imports Error_Functions
begin

text \<open>
  \<open>30-2-thread-safe_binary-tree.c\<close>: a binary tree with a mutex in every node.  A call that waits for a mutex nobody
  will release is \<open>None\<close>; \<open>malloc\<close> and \<open>strdup\<close> succeed.  Only the thread that runs is modelled, so that
  a locked node is one that an earlier call left locked.
\<close>

datatype 'v tree = Empty | Node (key: string) (val: "'v option") (left: "'v tree") (right: "'v tree") (locked: bool)

text \<open>\<open>initialize\<close> fills a node and stores its address in its own parameter: the caller's pointer stays as it was.\<close>

definition initialize :: "'v tree \<Rightarrow> 'v tree" where
  "initialize t = (let own = Node [] None Empty Empty False in t)"

definition new_leaf :: "string \<Rightarrow> 'v \<Rightarrow> 'v tree" where
  "new_leaf k v = Node k (Some v) Empty Empty False"

text \<open>The node below which the new one is put keeps its mutex locked: \<open>break\<close> leaves the loop before the unlock.\<close>

fun add :: "string \<Rightarrow> 'v \<Rightarrow> 'v tree \<Rightarrow> 'v tree result option" where
  "add k v Empty = Some (Inl (Undefined NullDeref))"
| "add k v (Node nk x l r lk) =
     (if lk then None
      else if strcmp nk k < 0
      then (if l \<noteq> Empty then obind (add k v l) (\<lambda>l'. Some (Inr (Node nk x l' r False)))
            else Some (Inr (Node nk x (new_leaf k v) r True)))
      else (if r \<noteq> Empty then obind (add k v r) (\<lambda>r'. Some (Inr (Node nk x l r' False)))
            else Some (Inr (Node nk x l (new_leaf k v) True))))"

text \<open>\<open>delete\<close> locks the root and then the right child again and again.\<close>

definition delete :: "string \<Rightarrow> 'v tree \<Rightarrow> 'v tree result option" where
  "delete k t = (case t of Empty \<Rightarrow> Some (Inl (Undefined NullDeref))
     | Node nk x l r lk \<Rightarrow> if lk then None else if r = Empty then Some (Inr (Node nk x l r True)) else None)"

section \<open>The order of the keys\<close>

fun keys :: "'v tree \<Rightarrow> string list" where
  "keys Empty = []"
| "keys (Node k x l r lk) = keys r @ k # keys l"

text \<open>Greater keys are on the left, so that the keys from right to left are sorted.\<close>

lemma add_keys: "add k v t = Some (Inr t') \<Longrightarrow> set (keys t') = insert k (set (keys t))"
  by (induction t arbitrary: t') (auto simp: new_leaf_def split: if_splits)

lemma add_sorted:
  assumes "cstring k"
  shows "add k v t = Some (Inr t') \<Longrightarrow> \<forall>x\<in>set (keys t). cstring x \<Longrightarrow> sorted (keys t) \<Longrightarrow> sorted (keys t')"
proof (induction t arbitrary: t')
  case (Node nk x l r lk)
  have less: "strcmp nk k < 0 \<longleftrightarrow> nk < k" using Node.prems(2) assms by (simp add: strcmp_less_iff)
  show ?case
  proof (cases "strcmp nk k < 0")
    case True
    show ?thesis
    proof (cases "l = Empty")
      case l: False
      then obtain l' where l': "add k v l = Some (Inr l')" "t' = Node nk x l' r False"
        using Node.prems(1) True by (auto split: if_splits)
      then have "sorted (keys l')" "set (keys l') = insert k (set (keys l))"
        using Node.IH(1)[OF l'(1)] Node.prems(2,3) add_keys[OF l'(1)] by (auto simp: sorted_append)
      then show ?thesis using Node.prems(3) True less l'(2) by (auto simp: sorted_append)
    next
      case l: True
      then have "t' = Node nk x (new_leaf k v) r True" using Node.prems(1) True by (auto split: if_splits)
      moreover have "nk \<le> k" using True less by (simp add: less_imp_le)
      ultimately show ?thesis using Node.prems(3) l by (auto simp: sorted_append new_leaf_def intro: order_trans)
    qed
  next
    case False
    show ?thesis
    proof (cases "r = Empty")
      case r: False
      then obtain r' where r': "add k v r = Some (Inr r')" "t' = Node nk x l r' False"
        using Node.prems(1) False by (auto split: if_splits)
      then have "sorted (keys r')" "set (keys r') = insert k (set (keys r))"
        using Node.IH(2)[OF r'(1)] Node.prems(2,3) add_keys[OF r'(1)] by (auto simp: sorted_append)
      then show ?thesis using Node.prems(3) False less r'(2) by (force simp: sorted_append)
    next
      case r: True
      then have "t' = Node nk x l (new_leaf k v) True" using Node.prems(1) False by (auto split: if_splits)
      moreover have "k \<le> nk" using False less by (simp add: not_less)
      ultimately show ?thesis using Node.prems(3) r by (auto simp: sorted_append new_leaf_def intro: order_trans)
    qed
  qed
qed simp

section \<open>The mutex that stays locked\<close>

lemma add_nonempty: "add k v t = Some (Inr t') \<Longrightarrow> t \<noteq> Empty \<and> t' \<noteq> Empty"
  by (cases t) (auto split: if_splits)

text \<open>A call that descends through the node to which the last new node was attached never returns; the same key
  takes that way.\<close>

lemma add_again_blocks: "add k v t = Some (Inr t') \<Longrightarrow> add k w t' = None"
proof (induction t arbitrary: t')
  case (Node nk x l r lk)
  show ?case
  proof (cases "strcmp nk k < 0")
    case True
    show ?thesis
    proof (cases "l = Empty")
      case False
      then obtain l' where l': "add k v l = Some (Inr l')" "t' = Node nk x l' r False"
        using Node.prems True by (auto split: if_splits)
      then show ?thesis using Node.IH(1)[OF l'(1)] add_nonempty[OF l'(1)] True by simp
    qed (use Node.prems True in \<open>auto split: if_splits\<close>)
  next
    case False
    show ?thesis
    proof (cases "r = Empty")
      case r: False
      then obtain r' where r': "add k v r = Some (Inr r')" "t' = Node nk x l r' False"
        using Node.prems False by (auto split: if_splits)
      then show ?thesis using Node.IH(2)[OF r'(1)] add_nonempty[OF r'(1)] False by simp
    qed (use Node.prems False in \<open>auto split: if_splits\<close>)
  qed
qed simp

text \<open>\<open>delete\<close> returns only for a tree without keys smaller than or equal to the root's, and then the root stays locked.\<close>

lemma delete_ends: "delete k t = Some (Inr t') \<Longrightarrow> right t = Empty \<and> locked t' \<and> add j v t' = None"
  by (auto simp: delete_def split: tree.splits if_splits)

text \<open>C33: an \<open>add\<close> that returns keeps the tree ordered, greater keys on the left, and puts exactly the new key into it;
  but it leaves a mutex locked, so that a second call with the same key never returns.\<close>

theorem add_keeps_order:
  assumes "add k v t = Some (Inr t')" and "cstring k" and "\<forall>x\<in>set (keys t). cstring x" and "sorted (keys t)"
  shows "sorted (keys t') \<and> set (keys t') = insert k (set (keys t)) \<and> (\<forall>x\<in>set (keys t'). cstring x) \<and> add k w t' = None"
  using add_sorted[OF assms(2,1,3,4)] add_keys[OF assms(1)] add_again_blocks[OF assms(1)] assms(2,3) by auto

theorem add_keeps_order_witness:
  "\<exists>t'. add ''b'' (2::int) (Node ''m'' None Empty (Node ''c'' (Some 1) Empty Empty False) False) = Some (Inr t') \<and>
     keys t' = [''b'', ''c'', ''m''] \<and> sorted (keys t') \<and> add ''b'' 3 t' = None"
  using add_keeps_order[of "''b''" "2::int" "Node ''m'' None Empty (Node ''c'' (Some 1) Empty Empty False) False"
      "Node ''m'' None Empty (Node ''c'' (Some 1) Empty (Node ''b'' (Some 2) Empty Empty False) True) False" 3]
  by (simp add: new_leaf_def)

end
