(* ===== verification/SysV_Signals.thy ===== *)
theory SysV_Signals
  imports Error_Functions
begin

text \<open>
  \<open>22-4-systemV_signal_api.c\<close>: the old signal interface on top of \<open>sigaction\<close> and \<open>sigprocmask\<close>.  The state is the signal
  mask and the actions of the process; \<open>sigaction\<close> fails for the signals for which it is told to.
\<close>

datatype handler = SIG_DFL | SIG_IGN | SIG_HOLD | SIG_ERR | Function nat

record signals =
  blocked :: "int set"
  action :: "int \<Rightarrow> handler"
  action_mask :: "int \<Rightarrow> int set"

definition sig_block :: "int set \<Rightarrow> signals \<Rightarrow> signals" where
  "sig_block S st = st\<lparr>blocked := blocked st \<union> S\<rparr>"

definition sig_unblock :: "int set \<Rightarrow> signals \<Rightarrow> signals" where
  "sig_unblock S st = st\<lparr>blocked := blocked st - S\<rparr>"

definition set_action :: "int \<Rightarrow> handler \<Rightarrow> int set \<Rightarrow> signals \<Rightarrow> signals" where
  "set_action sig h S st = st\<lparr>action := (action st)(sig := h), action_mask := (action_mask st)(sig := S)\<rparr>"

section \<open>The functions\<close>

text \<open>\<open>origin\<close> is filled by \<open>sigaction\<close> only; \<open>mask\<close> is the mask before the call.\<close>

definition sigset :: "(int \<Rightarrow> bool) \<Rightarrow> int \<Rightarrow> handler \<Rightarrow> signals \<Rightarrow> (handler \<times> signals) result" where
  "sigset sigaction_ok sig h st =
     (let mask = blocked st;
          st1 = (if h = SIG_HOLD then sig_block {sig} st else st) in
      if h \<noteq> SIG_HOLD \<and> \<not> sigaction_ok sig then Inr (SIG_ERR, st1)
      else let origin = (if h \<noteq> SIG_HOLD then Some (action st1 sig) else None);
               st2 = (if h \<noteq> SIG_HOLD then set_action sig h {} st1 else st1) in
        if sig \<in> mask then Inr (SIG_HOLD, st2)
        else case origin of None \<Rightarrow> Inl (Undefined Uninitialised) | Some old \<Rightarrow> Inr (old, st2))"

definition sighold :: "int \<Rightarrow> signals \<Rightarrow> int \<times> signals" where
  "sighold sig st = (0, sig_block {} st)"

definition sigrelse :: "int \<Rightarrow> signals \<Rightarrow> int \<times> signals" where
  "sigrelse sig st = (0, sig_unblock {} st)"

definition sigignore :: "(int \<Rightarrow> bool) \<Rightarrow> int \<Rightarrow> signals \<Rightarrow> int \<times> signals" where
  "sigignore sigaction_ok sig st = (if sigaction_ok sig then (0, set_action sig SIG_IGN UNIV st) else (-1, st))"

text \<open>The mask with which \<open>sigsuspend\<close> waits: it blocks the very signal that is waited for.\<close>

definition sigpause_mask :: "int \<Rightarrow> signals \<Rightarrow> int set" where
  "sigpause_mask sig st = {sig}"

section \<open>What they do\<close>

text \<open>The manual wants \<open>sigset\<close> with a handler to unblock the signal, and with \<open>SIG_HOLD\<close> to return the old action.  The
  first never happens, and the second reads an uninitialised structure unless the signal was blocked.\<close>

lemma sigset_effect:
  "sigset ok sig h st = Inr (r, st') \<Longrightarrow>
     blocked st' = (if h = SIG_HOLD then insert sig (blocked st) else blocked st) \<and>
     (r \<noteq> SIG_ERR \<and> h \<noteq> SIG_HOLD \<longrightarrow> action st' sig = h) \<and> (sig \<in> blocked st \<and> r \<noteq> SIG_ERR \<longrightarrow> r = SIG_HOLD)"
  "sig \<notin> blocked st \<Longrightarrow> sigset ok sig SIG_HOLD st = Inl (Undefined Uninitialised)"
  by (auto simp: sigset_def sig_block_def set_action_def Let_def split: if_splits)

text \<open>\<open>sighold\<close> and \<open>sigrelse\<close> pass an empty set and change nothing.\<close>

lemma hold_release_nothing: "sighold sig st = (0, st)" "sigrelse sig st = (0, st)"
  by (simp_all add: sighold_def sigrelse_def sig_block_def sig_unblock_def)

end
