(* ===== verification/Read_Line.thy ===== *)
theory Read_Line
  imports Linked_Heap Error_Functions
begin

text \<open>
  \<open>59-1-readLine.c\<close>: read a line through a buffer that is kept for each descriptor in a linked list.  The list is in
  the heap of \<open>Linked_Heap\<close>, since nodes are freed while they are in use; \<open>read\<close> is a function on the state
  of the system.  The static header is node 1.  \<open>malloc\<close> fails when the quota of the store is used up.
\<close>

datatype read_result = Rd_data string | Rd_eof | Rd_intr | Rd_error

type_synonym 'w reader = "'w \<Rightarrow> int \<Rightarrow> 'w \<times> read_result"

definition RL_BUF_SIZE :: nat where "RL_BUF_SIZE = 4096"

record buf_node =
  fd :: int
  cur :: nat
  size :: int
  buf :: "char option list"     \<comment> \<open>\<open>None\<close>: a byte that was never stored\<close>

definition set_node :: "buf_node store \<Rightarrow> addr \<Rightarrow> buf_node \<Rightarrow> buf_node store result" where
  "set_node s p nd = rbind (load s p) (\<lambda>c. Inr (s\<lparr>cells := (cells s)(p \<mapsto> Node (Some nd) (link c))\<rparr>))"

text \<open>A \<open>read\<close> into the buffer.\<close>

definition store_bytes :: "string \<Rightarrow> char option list \<Rightarrow> char option list" where
  "store_bytes bs old = map Some bs @ drop (length bs) old"

section \<open>The parts of \<open>readLine\<close>\<close>

partial_function (option) find_fd :: "buf_node store \<Rightarrow> int \<Rightarrow> addr \<Rightarrow> addr \<Rightarrow> (addr \<times> addr) result option" where
  "find_fd s f pre p =
     (if p = NULL then Some (Inr (pre, p))
      else obind (Some (get_payload s p)) (\<lambda>nd. if fd nd = f then Some (Inr (pre, p))
        else obind (Some (get_next s p)) (\<lambda>p'. obind (Some (get_next s pre)) (\<lambda>pre'. find_fd s f pre' p'))))"

partial_function (option) first_read :: "'w reader \<Rightarrow> int \<Rightarrow> 'w \<Rightarrow> ('w \<times> read_result) option" where
  "first_read rd f w = (case rd w f of (w', r) \<Rightarrow> if r = Rd_intr then first_read rd f w' else Some (w', r))"

text \<open>A new node, or \<open>None\<close> where the function returns -1.\<close>

definition new_buffer ::
    "'w reader \<Rightarrow> int \<Rightarrow> addr \<Rightarrow> buf_node store \<Rightarrow> 'w \<Rightarrow> ((addr \<times> buf_node store) option \<times> 'w) result option" where
  "new_buffer rd f header s w = (case first_read rd f w of None \<Rightarrow> None
     | Some (w', Rd_data bs) \<Rightarrow>
         (case malloc_node s (Some \<lparr>fd = f, cur = 0, size = int (length bs),
              buf = store_bytes bs (replicate RL_BUF_SIZE None)\<rparr>) of
            None \<Rightarrow> Some (Inl (Undefined NullDeref))
          | Some (b, s1) \<Rightarrow> Some (rbind (link_after s1 header b) (\<lambda>s2. Inr (Some (b, s2), w'))))
     | Some (w', r) \<Rightarrow> Some (Inr (None, w')))"

definition byte_at :: "buf_node \<Rightarrow> nat \<Rightarrow> char result" where
  "byte_at nd i = (if length (buf nd) \<le> i then Inl (Undefined OutOfBounds)
     else case buf nd ! i of None \<Rightarrow> Inl (Undefined Uninitialised) | Some c \<Rightarrow> Inr c)"

text \<open>The second \<open>read\<close>: at end of file or on an error the node that \<open>pre\<close> points to is relinked and the buffer freed.\<close>

definition refill :: "'w reader \<Rightarrow> addr \<Rightarrow> addr \<Rightarrow> buf_node \<Rightarrow> buf_node store \<Rightarrow> 'w \<Rightarrow> (buf_node store \<times> 'w) result" where
  "refill rd pre b nd s w = (case rd w (fd nd) of
     (w', Rd_data bs) \<Rightarrow> rbind (set_node s b (nd\<lparr>size := int (length bs), buf := store_bytes bs (buf nd), cur := 0\<rparr>))
        (\<lambda>s'. Inr (s', w'))
   | (w', r) \<Rightarrow> rbind (get_next s b) (\<lambda>n. rbind (set_next s pre n) (\<lambda>s1. rbind (free_node s1 b) (\<lambda>s2. Inr (s2, w')))))"

text \<open>The loop; \<open>out\<close> is what is in the caller's buffer.\<close>

fun copy_loop :: "'w reader \<Rightarrow> addr \<Rightarrow> addr \<Rightarrow> nat \<Rightarrow> nat \<Rightarrow> string \<Rightarrow> buf_node store \<Rightarrow> 'w
    \<Rightarrow> (int \<times> string \<times> buf_node store \<times> 'w) result" where
  "copy_loop rd pre b 0 i out s w = Inr (int i, out, s, w)"
| "copy_loop rd pre b (Suc k) i out s w =
     rbind (get_payload s b) (\<lambda>nd. rbind (byte_at nd (cur nd + i)) (\<lambda>ch.
     rbind (if size nd \<le> int (cur nd + i + 1) then refill rd pre b nd s w else Inr (s, w)) (\<lambda>(s', w').
       if ch = newline then Inr (int i, out, s', w')
       else copy_loop rd pre b k (i + 1) (out @ [ch]) s' w')))"

definition readLine ::
    "'w reader \<Rightarrow> int \<Rightarrow> nat \<Rightarrow> addr \<Rightarrow> buf_node store \<Rightarrow> 'w \<Rightarrow> (int \<times> string \<times> buf_node store \<times> 'w) result option" where
  "readLine rd f n header s w =
     obind (Some (get_next s header)) (\<lambda>first. obind (find_fd s f header first) (\<lambda>(pre, b).
       if b \<noteq> NULL then Some (copy_loop rd pre b n 0 [] s w)
       else obind (new_buffer rd f header s w) (\<lambda>(r, w'). case r of
           None \<Rightarrow> Some (Inr (-1, [], s, w'))
         | Some (b', s') \<Rightarrow> Some (copy_loop rd pre b' n 0 [] s' w'))))"

section \<open>What it does\<close>

text \<open>A line that ends inside the buffer is returned and nothing changes: the position in the buffer is not moved on.\<close>

lemma copy_loop_line:
  assumes "get_payload s b = Inr nd" and "newline \<notin> set line" 
    and "\<forall>j<length line. cur nd + i + j < length (buf nd) \<and> buf nd ! (cur nd + i + j) = Some (line ! j)"
    and "cur nd + i + length line < length (buf nd)" and "buf nd ! (cur nd + i + length line) = Some newline"
    and "int (cur nd + i + length line + 1) < size nd" and "length line < k"
  shows "copy_loop rd pre b k i out s w = Inr (int (i + length line), out @ line, s, w)"
  using assms(2-7)
proof (induction line arbitrary: i out k)
  case Nil
  then obtain k' where "k = Suc k'" by (cases k) auto
  then show ?case using Nil assms(1) by (simp add: byte_at_def)
next
  case (Cons c line)
  then obtain k' where k: "k = Suc k'" by (cases k) auto
  have c: "cur nd + i < length (buf nd)" "buf nd ! (cur nd + i) = Some c" "c \<noteq> newline"
    using Cons.prems(1) Cons.prems(2)[rule_format, of 0] by auto
  have "copy_loop rd pre b k i out s w = copy_loop rd pre b k' (i + 1) (out @ [c]) s w"
    using c assms(1) k Cons.prems(5) by (simp add: byte_at_def)
  moreover have "\<forall>j<length line. cur nd + (i + 1) + j < length (buf nd) \<and> buf nd ! (cur nd + (i + 1) + j) = Some (line ! j)"
  proof (intro allI impI)
    fix j assume "j < length line"
    then show "cur nd + (i + 1) + j < length (buf nd) \<and> buf nd ! (cur nd + (i + 1) + j) = Some (line ! j)"
      using Cons.prems(2)[rule_format, of "Suc j"] by simp
  qed
  ultimately show ?case using Cons.IH[of "i + 1" k' "out @ [c]"] Cons.prems k by simp
qed

text \<open>So a second call gives the same line again.\<close>

lemma readLine_repeats:
  assumes "readLine rd f n header s w = Some (copy_loop rd pre b n 0 [] s w)" and "get_payload s b = Inr nd"
    and "newline \<notin> set line" and "\<forall>j<length line. cur nd + j < length (buf nd) \<and> buf nd ! (cur nd + j) = Some (line ! j)"
    and "cur nd + length line < length (buf nd)" and "buf nd ! (cur nd + length line) = Some newline"
    and "int (cur nd + length line + 1) < size nd" and "length line < n"
  shows "obind (readLine rd f n header s w) (\<lambda>(r, out, s', w'). readLine rd f n header s' w')
      = Some (Inr (int (length line), line, s, w))"
proof -
  have "copy_loop rd pre b n 0 [] s w = Inr (int (length line), line, s, w)"
    using copy_loop_line[OF assms(2,3), where i = 0 and k = n and out = "[]"] assms(4-8) by simp
  then show ?thesis unfolding assms(1) by (simp add: assms(1))
qed

text \<open>When the input ends without a newline and the caller's buffer has room, the freed node is read.\<close>

lemma copy_loop_eof:
  assumes "cells s b = Some (Node (Some nd) q)" and "cells s pre = Some (Node x r)" and "b \<noteq> NULL" and "pre \<noteq> NULL" and "pre \<noteq> b"
    and "byte_at nd (cur nd + i) = Inr ch" and "ch \<noteq> newline" and "size nd \<le> int (cur nd + i + 1)"
    and "rd w (fd nd) = (w', Rd_eof)"
  shows "copy_loop rd pre b (Suc (Suc k)) i out s w = Inl (Undefined UseAfterFree)"
  using assms by (simp add: refill_def get_payload_def get_next_def set_next_def free_node_def load_def)

end
