(* ===== verification/Seqnum_Server.thy ===== *)
theory Seqnum_Server
  imports Error_Functions
begin

text \<open>
  \<open>44-3-changed_server_with_conf.c\<close>: a server that hands out sequence numbers through FIFOs and keeps the next number in
  \<open>server.conf\<close>, so that it goes on where it was after a restart.  What is read from the server's FIFO is a
  list; the file is the list of its bytes, with the offset of the descriptor.  The template of the clients' names is in a
  header that is not in the repository.
\<close>

record seq_request =
  req_pid :: int
  seqLen :: int
  fifo_opens :: bool        \<comment> \<open>whether the client's FIFO can be opened\<close>
  resp_written :: bool      \<comment> \<open>whether the response is written in full\<close>
  seeks :: bool             \<comment> \<open>whether the \<open>lseek\<close> on the file succeeds\<close>
  stored :: nat             \<comment> \<open>how many bytes the \<open>write\<close> to the file writes, 0 if it fails\<close>

datatype seq_read = Short_read | Whole_read seq_request

record seq_state =
  seqNum :: int
  conf :: "8 word list"
  conf_at :: nat                       \<comment> \<open>the offset in the file\<close>
  responses :: "(int \<times> int) list"      \<comment> \<open>process id and number, in the order in which they were sent\<close>

text \<open>The \<open>read\<close> at the start puts what it gets over the bytes of a variable that is 0.\<close>

definition seq_load :: "8 word list \<Rightarrow> int" where
  "seq_load file = (let bs = take 4 file in sint (of_le_bytes (bs @ drop (length bs) (le_bytes 0))))"

definition put_bytes :: "nat \<Rightarrow> 8 word list \<Rightarrow> 8 word list \<Rightarrow> 8 word list" where
  "put_bytes k bs file = (if bs = [] then file
     else take k (file @ replicate (k - length file) 0) @ bs @ drop (k + length bs) file)"

text \<open>One round of the loop.  The results of \<open>lseek\<close> and \<open>write\<close> on the file are not looked at.\<close>

definition seq_step :: "seq_read \<Rightarrow> seq_state \<Rightarrow> seq_state result" where
  "seq_step r st = (case r of Short_read \<Rightarrow> Inr st
     | Whole_read req \<Rightarrow>
         if \<not> fifo_opens req then Inr st
         else let st1 = (if resp_written req then st\<lparr>responses := responses st @ [(req_pid req, seqNum st)]\<rparr> else st);
                  n = seqNum st + seqLen req;
                  k = (if seeks req then 0 else conf_at st);
                  bs = take (stored req) (le_bytes (word_of_int n)) in
           if n < INT_MIN \<or> INT_MAX < n then Inl (Undefined SignedOverflow)
           else Inr (st1\<lparr>seqNum := n, conf := put_bytes k bs (conf st), conf_at := k + length bs\<rparr>))"

fun seq_loop :: "seq_read list \<Rightarrow> seq_state \<Rightarrow> seq_state result" where
  "seq_loop [] st = Inr st"
| "seq_loop (r # rs) st = rbind (seq_step r st) (seq_loop rs)"

record seq_calls =
  conf_opens :: bool
  conf_reads :: bool
  mkfifo_ok :: bool          \<comment> \<open>it succeeds or fails with \<open>EEXIST\<close>\<close>
  server_opens :: bool
  dummy_opens :: bool
  signal_ok :: bool

definition seq_main :: "seq_calls \<Rightarrow> string \<Rightarrow> 8 word list \<Rightarrow> seq_read list \<Rightarrow> seq_state result" where
  "seq_main env fifo_name file rs =
     (if \<not> conf_opens env then Inl (Exit (-1) (''unable to open server.conf'' @ [newline]))
      else let st = (if conf_reads env then \<lparr>seqNum = seq_load file, conf = file, conf_at = min 4 (length file), responses = []\<rparr>
                     else \<lparr>seqNum = 0, conf = file, conf_at = 0, responses = []\<rparr>) in
      if \<not> mkfifo_ok env then Inl (stop_with (''mkfifo '' @ fifo_name))
      else if \<not> server_opens env then Inl (stop_with (''open '' @ fifo_name))
      else if \<not> dummy_opens env then Inl (stop_with (''open '' @ fifo_name))
      else if \<not> signal_ok env then Inl (stop_with ''signal'')
      else seq_loop rs st)"

section \<open>Numbers across restarts\<close>

definition calls_ok :: seq_calls where
  "calls_ok = \<lparr>conf_opens = True, conf_reads = True, mkfifo_ok = True, server_opens = True, dummy_opens = True,
     signal_ok = True\<rparr>"

text \<open>The file holds the number that the server has, and a server that starts on it has the same offset.\<close>

definition seq_saved :: "seq_state \<Rightarrow> bool" where
  "seq_saved st \<longleftrightarrow> seqNum st = seq_load (conf st) \<and> conf_at st = min 4 (length (conf st))"

text \<open>The requests that are answered, and those among them after which the number is stored whole.\<close>

fun handled :: "seq_read \<Rightarrow> bool" where
  "handled Short_read = False"
| "handled (Whole_read req) = fifo_opens req"

fun saves :: "seq_read \<Rightarrow> bool" where
  "saves Short_read = False"
| "saves (Whole_read req) = (seeks req \<and> stored req = 4)"

definition last_saved :: "seq_read list \<Rightarrow> bool" where
  "last_saved rs \<longleftrightarrow> (let hs = filter handled rs in hs = [] \<or> saves (last hs))"

lemma seq_load_stored: "INT_MIN \<le> n \<Longrightarrow> n \<le> INT_MAX \<Longrightarrow> seq_load (le_bytes (word_of_int n) @ rest) = n"
  by (simp add: seq_load_def sint_sbintrunc' signed_take_bit_int_eq_self)

lemma seq_step_unhandled: "\<not> handled r \<Longrightarrow> seq_step r st = Inr st"
  by (cases r) (simp_all add: seq_step_def)

lemma seq_step_saves: "handled r \<Longrightarrow> saves r \<Longrightarrow> seq_step r st = Inr st' \<Longrightarrow> seq_saved st'"
proof -
  assume h: "handled r" "saves r" "seq_step r st = Inr st'"
  obtain req where r: "r = Whole_read req" using h(1) by (cases r) simp_all
  let ?n = "seqNum st + seqLen req"
  have n: "INT_MIN \<le> ?n" "?n \<le> INT_MAX" using h r by (simp_all add: seq_step_def Let_def split: if_splits)
  have c: "seqNum st' = ?n" "conf st' = put_bytes 0 (le_bytes (word_of_int ?n)) (conf st)" "conf_at st' = 4"
    using h r by (auto simp: seq_step_def Let_def split: if_splits)
  have "le_bytes (word_of_int ?n) \<noteq> []" by (simp add: le_bytes_def)
  then have "conf st' = le_bytes (word_of_int ?n) @ drop 4 (conf st)" using c(2) by (simp add: put_bytes_def)
  then show ?thesis using c(1,3) seq_load_stored[OF n] by (simp add: seq_saved_def)
qed

lemma seq_loop_saved:
  "seq_loop rs st = Inr st' \<Longrightarrow> last_saved rs \<Longrightarrow> filter handled rs = [] \<longrightarrow> seq_saved st \<Longrightarrow> seq_saved st'"
proof (induction rs arbitrary: st)
  case (Cons r rs)
  obtain st1 where st1: "seq_step r st = Inr st1" "seq_loop rs st1 = Inr st'" using Cons.prems(1) by auto
  show ?case
  proof (cases "handled r")
    case True
    have "filter handled rs = [] \<longrightarrow> seq_saved st1"
      using seq_step_saves[OF True _ st1(1)] Cons.prems(2) True by (auto simp: last_saved_def)
    moreover have "last_saved rs" using Cons.prems(2) True by (auto simp: last_saved_def Let_def split: if_splits)
    ultimately show ?thesis using Cons.IH[OF st1(2)] by blast
  next
    case False
    then have "st1 = st" using st1(1) seq_step_unhandled by simp
    then show ?thesis using Cons.IH[OF st1(2)] Cons.prems(2,3) False by (simp add: last_saved_def)
  qed
qed simp

text \<open>The log of responses has no influence.\<close>

lemma seq_step_log:
  "seq_step r (st\<lparr>responses := log @ responses st\<rparr>) = rbind (seq_step r st) (\<lambda>st'. Inr (st'\<lparr>responses := log @ responses st'\<rparr>))"
  by (cases r) (auto simp: seq_step_def Let_def)

lemma seq_loop_log:
  "seq_loop rs (st\<lparr>responses := log @ responses st\<rparr>) = rbind (seq_loop rs st) (\<lambda>st'. Inr (st'\<lparr>responses := log @ responses st'\<rparr>))"
proof (induction rs arbitrary: st)
  case (Cons r rs)
  show ?case
  proof (cases "seq_step r st")
    case (Inr st1)
    then show ?thesis using seq_step_log[where r = r and st = st and log = log] Cons.IH[of st1] by simp
  qed (use seq_step_log[where r = r and st = st and log = log] in simp)
qed simp

lemma seq_loop_append: "seq_loop (xs @ ys) st = rbind (seq_loop xs st) (seq_loop ys)"
proof (induction xs arbitrary: st)
  case (Cons x xs)
  then show ?case by (cases "seq_step x st") auto
qed simp

text \<open>C16: a server is stopped between two requests and started again on the file it left.  If the number was stored whole after the
  last request that it answered, or it answered none, it answers the requests that
  follow with the numbers that it would have given had it gone on, and ends as it would have ended,
  an overflow of the number included.\<close>

theorem restart_continues:
  assumes "seq_main calls_ok name file xs = Inr st" and "last_saved xs"
  shows "rbind (seq_main calls_ok name (conf st) ys) (\<lambda>st'. Inr (st'\<lparr>responses := responses st @ responses st'\<rparr>))
      = seq_main calls_ok name file (xs @ ys)"
proof -
  let ?start = "\<lambda>file. \<lparr>seqNum = seq_load file, conf = file, conf_at = min 4 (length file), responses = []\<rparr>"
  have m: "seq_main calls_ok name f rs = seq_loop rs (?start f)" for f rs
    by (simp add: seq_main_def calls_ok_def)
  have x: "seq_loop xs (?start file) = Inr st" using assms(1) by (simp add: m)
  then have "seq_saved st" using seq_loop_saved[OF x assms(2)] by (simp add: seq_saved_def)
  then have st: "st = (?start (conf st))\<lparr>responses := responses st @ responses (?start (conf st))\<rparr>"
    by (simp add: seq_saved_def)
  show ?thesis unfolding m seq_loop_append x rbind_simps
    by (subst (3) st) (rule seq_loop_log[symmetric])
qed

definition demo_request :: "int \<Rightarrow> int \<Rightarrow> seq_read" where
  "demo_request p n = Whole_read \<lparr>req_pid = p, seqLen = n, fifo_opens = True, resp_written = True, seeks = True, stored = 4\<rparr>"

theorem restart_continues_witness:
  "rbind (seq_main calls_ok [] (le_bytes 40) [demo_request 9 1]) (\<lambda>st'. Inr (st'\<lparr>responses := [(7, 30)] @ responses st'\<rparr>))
     = Inr \<lparr>seqNum = 41, conf = le_bytes 41, conf_at = 4, responses = [(7, 30), (9, 40)]\<rparr>"
proof -
  have load: "seq_load (le_bytes 30) = 30" using seq_load_stored[of 30 "[]"] by simp
  have w: "le_bytes w \<noteq> []" for w by (simp add: le_bytes_def)
  have r: "seq_main calls_ok [] (le_bytes 30) [demo_request 7 10] =
      Inr \<lparr>seqNum = 40, conf = le_bytes 40, conf_at = 4, responses = [(7, 30)]\<rparr>"
    using w by (simp add: seq_main_def calls_ok_def load seq_step_def demo_request_def put_bytes_def Let_def)
  have "last_saved [demo_request 7 10]" by (simp add: last_saved_def demo_request_def)
  from restart_continues[OF r this, of "[demo_request 9 1]"]
  show ?thesis using w
    by (simp add: seq_main_def calls_ok_def load seq_step_def demo_request_def put_bytes_def Let_def)
qed

text \<open>When the last write fails, the server that is started again gives the number of the last answer once more.\<close>

lemma failed_save_repeats:
  assumes "seq_main calls_ok name file xs = Inr st" and "last_saved xs" and "fifo_opens req" and "resp_written req" and "stored req = 0"
    and "seq_step (Whole_read req) st = Inr st'"
  shows "responses st' = responses st @ [(req_pid req, seqNum st)] \<and> seqNum st' = seqNum st + seqLen req \<and>
    seq_load (conf st') = seqNum st"
proof -
  have "seq_loop xs \<lparr>seqNum = seq_load file, conf = file, conf_at = min 4 (length file), responses = []\<rparr> = Inr st"
    using assms(1) by (simp add: seq_main_def calls_ok_def)
  then have "seq_saved st" using seq_loop_saved assms(2) by (fastforce simp: seq_saved_def)
  then show ?thesis using assms(3-6) by (auto simp: seq_step_def seq_saved_def put_bytes_def Let_def split: if_splits)
qed

text \<open>Sequences handed out do not overlap: each number is the one before plus what was asked for in between.\<close>

lemma seq_loop_numbers:
  assumes "\<forall>r\<in>set rs. \<exists>req. r = Whole_read req \<and> fifo_opens req \<and> resp_written req \<and> 0 < seqLen req"
    and "seq_loop rs st = Inr st'"
  shows "\<exists>out. responses st' = responses st @ out \<and> length out = length rs \<and>
    sorted_wrt (<) (map snd out) \<and> (\<forall>(p, n)\<in>set out. seqNum st \<le> n \<and> n < seqNum st')"
  using assms
proof (induction rs arbitrary: st)
  case (Cons r rs)
  obtain req where r: "r = Whole_read req" "fifo_opens req" "resp_written req" "0 < seqLen req"
    using Cons.prems(1) by auto
  obtain st1 where st1: "seq_step r st = Inr st1" "seq_loop rs st1 = Inr st'" using Cons.prems(2) by auto
  then have s: "responses st1 = responses st @ [(req_pid req, seqNum st)]" "seqNum st1 = seqNum st + seqLen req"
    using r(1-3) by (auto simp: seq_step_def Let_def split: if_splits)
  obtain out where out: "responses st' = responses st1 @ out" "length out = length rs" "sorted_wrt (<) (map snd out)"
    "\<forall>(p, n)\<in>set out. seqNum st1 \<le> n \<and> n < seqNum st'"
    using Cons.IH[of st1] Cons.prems(1) st1(2) by auto
  have "seqNum st1 \<le> seqNum st'" if "rs = []" using st1(2) that by simp
  moreover have "seqNum st1 \<le> seqNum st'" if "rs \<noteq> []" using out(2,4) that by (cases out) auto
  ultimately have "seqNum st < seqNum st'" using s(2) r(4) by linarith
  then show ?case using out s r(4)
    by (intro exI[of _ "(req_pid req, seqNum st) # out"]) force
qed simp

end
