(* ===== verification/Path_Tools.thy ===== *)
theory Path_Tools
  imports Error_Functions
begin

text \<open>
  \<open>18-3-my_realpath.c\<close>, which resolves a path name, and \<open>12-3-check_fd_of_process.c\<close>, which looks in \<open>/proc\<close> for the processes that
  have a file open.  The file system is an argument.
\<close>

definition PATH_LIMIT :: nat where "PATH_LIMIT = 4096"     \<comment> \<open>\<open>PATH_MAX\<close>\<close>

section \<open>Resolving a path\<close>

record path_env =
  getcwd :: "string option"
  lstat_islnk :: "string \<Rightarrow> bool option"
  readlink :: "string \<Rightarrow> string option"        \<comment> \<open>at most \<open>PATH_MAX\<close> bytes\<close>

text \<open>The pieces between the slashes.\<close>

fun pieces :: "string \<Rightarrow> string list" where
  "pieces [] = [[]]"
| "pieces (c # cs) = (if c = CHR ''/'' then [] # pieces cs else (case pieces cs of p # ps \<Rightarrow> (c # p) # ps))"

text \<open>A string stored in \<open>resolve_path\<close>, which has \<open>PATH_MAX\<close> bytes when it was allocated.\<close>

definition fits :: "string \<Rightarrow> string result" where
  "fits s = (if length s < PATH_LIMIT then Inr s else Inl (Undefined OutOfBounds))"

definition resolve_piece :: "path_env \<Rightarrow> string \<Rightarrow> string \<Rightarrow> string result" where
  "resolve_piece env res p = rbind (fits (res @ ''/'' @ p)) (\<lambda>r. case lstat_islnk env r of
     None \<Rightarrow> Inl (stop_with ''lstat'')
   | Some False \<Rightarrow> Inr r
   | Some True \<Rightarrow> (case readlink env r of None \<Rightarrow> Inl (stop_with ''readlink'')
      | Some t \<Rightarrow> if PATH_LIMIT \<le> length t then Inl (Undefined OutOfBounds)
          else if t \<noteq> [] \<and> hd t = CHR ''/'' then fits t else fits (res @ ''/'' @ t)))"

text \<open>The loop stops at the first empty piece.  Behind the last piece there is another null byte only if the name did not
  fill the array.\<close>

fun resolve :: "path_env \<Rightarrow> bool \<Rightarrow> string list \<Rightarrow> string \<Rightarrow> string result" where
  "resolve env full [] res = (if full then Inl (Undefined OutOfBounds) else Inr res)"
| "resolve env full (p # ps) res = (if p = [] then Inr res else rbind (resolve_piece env res p) (resolve env full ps))"

definition m_realpath :: "path_env \<Rightarrow> bool \<Rightarrow> string \<Rightarrow> string result" where
  "m_realpath env calloc_ok path =
     (let local = take PATH_LIMIT path; full = (PATH_LIMIT \<le> length path) in
      if \<not> (local \<noteq> [] \<and> hd local = CHR ''/'')
      then (case getcwd env of None \<Rightarrow> Inl (stop_with ''getcwd'') | Some cwd \<Rightarrow>
          if calloc_ok then resolve env full (pieces local) cwd else Inl (Undefined NullDeref))
      else if calloc_ok then resolve env full (pieces local) [] else Inl (Undefined NullDeref))"

definition realpath_main :: "path_env \<Rightarrow> bool \<Rightarrow> string list \<Rightarrow> string result" where
  "realpath_main env calloc_ok argv =
     (if length argv \<noteq> 2 \<or> strcmp (argv ! 1) ''--help'' = 0 then Inl (stop_with (argv ! 0 @ '' file'' @ [newline]))
      else rbind (m_realpath env calloc_ok (argv ! 1)) (\<lambda>r. Inr (r @ [newline])))"

text \<open>Every absolute path is resolved to the empty string: its first piece is empty.\<close>

lemma realpath_absolute: "m_realpath env True (CHR ''/'' # path) = Inr []"
  by (simp add: m_realpath_def PATH_LIMIT_def Let_def take_Cons')

lemma pieces_plain: "CHR ''/'' \<notin> set p \<Longrightarrow> pieces p = [p]"
  by (induction p) auto

lemma pieces_append: "CHR ''/'' \<notin> set p \<Longrightarrow> pieces (p @ CHR ''/'' # s) = p # pieces s"
  by (induction p) auto

text \<open>A relative path without symbolic links is put behind the working directory.\<close>

lemma resolve_plain:
  assumes "\<forall>r. lstat_islnk env r = Some False"
  shows "\<forall>p\<in>set ps. p \<noteq> [] \<Longrightarrow> length (res @ concat (map (\<lambda>p. ''/'' @ p) ps)) < PATH_LIMIT \<Longrightarrow>
    resolve env False ps res = Inr (res @ concat (map (\<lambda>p. ''/'' @ p) ps))"
proof (induction ps arbitrary: res)
  case (Cons p ps)
  have "resolve_piece env res p = Inr (res @ ''/'' @ p)"
    using Cons.prems(2) assms by (simp add: resolve_piece_def fits_def)
  then show ?case using Cons.IH[of "res @ ''/'' @ p"] Cons.prems by simp
qed simp

fun join_path :: "string list \<Rightarrow> string" where
  "join_path [] = []"
| "join_path [p] = p"
| "join_path (p # ps) = p @ ''/'' @ join_path ps"

lemma pieces_join: "ps \<noteq> [] \<Longrightarrow> \<forall>p\<in>set ps. CHR ''/'' \<notin> set p \<Longrightarrow> pieces (join_path ps) = ps"
  by (induction ps rule: join_path.induct) (auto simp: pieces_plain pieces_append)

lemma length_join: "length (join_path ps) \<le> length (concat (map (\<lambda>p. ''/'' @ p) ps))"
  by (induction ps rule: join_path.induct) auto

lemma realpath_relative:
  assumes "getcwd env = Some cwd" and "\<forall>r. lstat_islnk env r = Some False"
    and "ps \<noteq> []" and "\<forall>p\<in>set ps. p \<noteq> [] \<and> CHR ''/'' \<notin> set p"
    and "length (cwd @ concat (map (\<lambda>p. ''/'' @ p) ps)) < PATH_LIMIT"
  shows "m_realpath env True (join_path ps) = Inr (cwd @ concat (map (\<lambda>p. ''/'' @ p) ps))"
proof -
  have len: "length (join_path ps) < PATH_LIMIT" using length_join[of ps] assms(5) by simp
  have "hd (join_path ps) \<noteq> CHR ''/''"
    using assms(3,4) by (cases ps rule: join_path.cases) (auto simp: hd_append dest: hd_in_set)
  moreover have "join_path ps \<noteq> []" using assms(3,4) by (cases ps rule: join_path.cases) auto
  moreover have "pieces (join_path ps) = ps" using assms(3,4) by (intro pieces_join) auto
  moreover have "resolve env False ps cwd = Inr (cwd @ concat (map (\<lambda>p. ''/'' @ p) ps))"
    using assms(4,5) by (intro resolve_plain[OF assms(2)]) auto
  ultimately show ?thesis using assms(1) len by (simp add: m_realpath_def Let_def)
qed

section \<open>Looking for open files\<close>

record proc_env =
  opendir_ok :: "string \<Rightarrow> bool"
  listing :: "string \<Rightarrow> string list"
  listing_ok :: "string \<Rightarrow> bool"                 \<comment> \<open>\<open>errno\<close> is 0 behind the last entry\<close>
  link_of :: "string \<Rightarrow> string option"

text \<open>The entries of one process: whether its number is printed.\<close>

fun fd_loop :: "proc_env \<Rightarrow> string \<Rightarrow> string \<Rightarrow> string list \<Rightarrow> bool result" where
  "fd_loop env target dir [] = (if listing_ok env dir then Inr False else Inl (stop_with ''readdir on /fd''))"
| "fd_loop env target dir (e # es) = (case link_of env (dir @ ''/fd/'' @ e) of None \<Rightarrow> Inl (stop_with ''readlink'')
     | Some l \<Rightarrow> if PATH_LIMIT \<le> length l then Inl (Undefined OutOfBounds)
         else if strcmp target l = 0 then Inr True else fd_loop env target dir es)"

text \<open>The test for digits continues the loop over the characters, not the loop over the processes: it has no effect.\<close>

fun proc_loop :: "proc_env \<Rightarrow> string \<Rightarrow> string list \<Rightarrow> string result" where
  "proc_loop env target [] = (if listing_ok env ''/proc'' then Inr [] else Inl (stop_with ''readdir on /proc''))"
| "proc_loop env target (p # ps) =
     (let dir = ''/proc/'' @ p in
      if \<not> opendir_ok env dir then Inl (stop_with (''opendir on '' @ dir))
      else rbind (fd_loop env target dir (listing env dir)) (\<lambda>found. rbind (proc_loop env target ps) (\<lambda>rest.
        Inr ((if found then p @ [newline] else []) @ rest))))"

definition check_fd_main :: "proc_env \<Rightarrow> string list \<Rightarrow> string result" where
  "check_fd_main env argv =
     (if length argv \<noteq> 2 \<or> strcmp (argv ! 1) ''--help'' = 0 then Inl (stop_with (argv ! 0 @ '' filepath'' @ [newline]))
      else if \<not> opendir_ok env ''/proc'' then Inl (stop_with ''opendir on /proc'')
      else proc_loop env (argv ! 1) (listing env ''/proc''))"

text \<open>The directory that is listed is \<open>/proc/PID\<close>, not \<open>/proc/PID/fd\<close>.  Its first entry is \<open>.\<close>, which is no link, so that the
  program fails on the first process whatever the file is.\<close>

lemma check_fd_fails:
  assumes "opendir_ok env ''/proc''" and "listing env ''/proc'' = p # ps" and "opendir_ok env (''/proc/'' @ p)"
    and "listing env (''/proc/'' @ p) = ''.'' # es" and "link_of env (''/proc/'' @ p @ ''/fd/.'') = None"
    and "strcmp file ''--help'' \<noteq> 0"
  shows "check_fd_main env [prog, file] = Inl (stop_with ''readlink'')"
  using assms by (simp add: check_fd_main_def Let_def)

end
