(* ===== verification/Pipe_Echo.thy ===== *)
theory Pipe_Echo
  imports Error_Functions
begin

text \<open>
  \<open>44-1-pipe_echo.c\<close>: a parent sends lines to its child through a pipe and shows what comes back through another, in
  capital letters.  A pipe is the list of what its reads deliver; the buffer of 4096 bytes keeps its old
  content behind what is read.
\<close>

definition ECHO_BUF :: nat where "ECHO_BUF = 4096"

definition read_into :: "string \<Rightarrow> string \<Rightarrow> string" where
  "read_into bs buf = bs @ drop (length bs) buf"

text \<open>The child's loop over the bytes: up to the first null byte.\<close>

fun upper_bytes :: "string \<Rightarrow> string" where
  "upper_bytes [] = []"
| "upper_bytes (c # cs) = (if c = nul then c # cs else toupper c # upper_bytes cs)"

text \<open>What the child writes for each read, until the end of its input; \<open>None\<close> is a failed read.  The loop looks at
  \<open>buf[i]\<close> before it compares \<open>i\<close>: a full buffer without a null byte is read one byte too far.\<close>

fun echo_child :: "(nat \<Rightarrow> bool) \<Rightarrow> nat \<Rightarrow> string option list \<Rightarrow> string list \<Rightarrow> string list result" where
  "echo_child write_ok k [] out = Inr out"
| "echo_child write_ok k (None # rs) out = Inl (stop_with ''child read'')"
| "echo_child write_ok k (Some bs # rs) out =
     (if bs = [] then Inr out
      else if length bs = ECHO_BUF \<and> nul \<notin> set bs then Inl (Undefined OutOfBounds)
      else if \<not> write_ok k then Inl (stop_with ''write'')
      else echo_child write_ok (k + 1) rs (out @ [upper_bytes bs]))"

text \<open>The parent: the buffer keeps the last line when \<open>fgets\<close> is at the end of the input (\<open>None\<close>); each line is sent with its null
  byte.  \<open>reply\<close> is what the next read of the other pipe gives for what was sent.\<close>

datatype reply = Reply string | Reply_end | Reply_error

fun echo_parent :: "(nat \<Rightarrow> bool) \<Rightarrow> (nat \<Rightarrow> string \<Rightarrow> reply) \<Rightarrow> nat \<Rightarrow> string option list \<Rightarrow> string \<Rightarrow> string \<Rightarrow> string result" where
  "echo_parent write_ok reply k [] buf shown = Inr shown"
| "echo_parent write_ok reply k (l # ls) buf shown =
     (let buf1 = (case l of None \<Rightarrow> buf | Some line \<Rightarrow> read_into (line @ [nul]) buf);
          msg = c_str buf1 @ [nul] in
      if nul \<notin> set buf1 then Inl (Undefined OutOfBounds)
      else if \<not> write_ok k then Inl (stop_with ''write'')
      else case reply k msg of Reply_error \<Rightarrow> Inl (stop_with ''read'') | Reply_end \<Rightarrow> Inr shown
      | Reply bs \<Rightarrow>
          let buf2 = read_into bs buf1 in
          if nul \<notin> set buf2 then Inl (Undefined OutOfBounds)
          else echo_parent write_ok reply (k + 1) ls buf2 (shown @ c_str buf2))"

text \<open>\<open>main\<close> in the parent or, for \<open>fork_result\<close> 0, in the child, which goes on into the parent's code when its input ends: there
  both calls of \<open>close\<close> succeed and the first write goes to a descriptor that is closed.\<close>

definition echo_main ::
    "bool \<Rightarrow> bool \<Rightarrow> int \<Rightarrow> bool \<Rightarrow> (nat \<Rightarrow> bool) \<Rightarrow> string option list \<Rightarrow> (nat \<Rightarrow> string \<Rightarrow> reply) \<Rightarrow> string option list \<Rightarrow> string \<Rightarrow>
     string result" where
  "echo_main pipe1_ok pipe2_ok fork_result close_ok write_ok reads reply ls buf =
     (if \<not> pipe1_ok \<or> \<not> pipe2_ok then Inl (stop_with ''pipe'')
      else if fork_result = -1 then Inl (stop_with ''fork'')
      else if \<not> close_ok then Inl (stop_with ''close'')
      else if fork_result = 0
      then rbind (echo_child write_ok 0 reads []) (\<lambda>out. echo_parent (\<lambda>k. False) reply 0 ls buf [])
      else echo_parent write_ok reply 0 ls buf [])"

text \<open>The child does not end with its input: it reads a line of the standard input itself and fails.\<close>

lemma echo_child_falls_through:
  assumes "echo_child write_ok 0 reads [] = Inr out" and "length line < ECHO_BUF" and "cstring line"
  shows "echo_main True True 0 True write_ok reads reply (Some line # ls) buf = Inl (stop_with ''write'')"
  using assms by (simp add: echo_main_def read_into_def Let_def)

text \<open>When \<open>fgets\<close> is at the end of the input nobody looks: the parent sends the old line again.\<close>

lemma echo_repeats_at_end:
  assumes "cstring line"
  shows "echo_parent (\<lambda>k. True) (\<lambda>k m. Reply m) k (replicate n None) (line @ nul # rest) shown
      = Inr (shown @ concat (replicate n line))"
proof (induction n arbitrary: k shown rest)
  case (Suc n)
  have b: "read_into (line @ [nul]) (line @ nul # rest) = line @ nul # rest" by (simp add: read_into_def)
  show ?case using Suc.IH assms by (simp add: Let_def b)
qed simp

section \<open>Parent and child together\<close>

lemma upper_bytes_line: "cstring line \<Longrightarrow> upper_bytes (line @ nul # rest) = map toupper line @ nul # rest"
  by (induction line) auto

lemma toupper_not_nul: "c \<noteq> nul \<Longrightarrow> toupper c \<noteq> nul"
proof (cases "97 \<le> (of_char c :: nat) \<and> (of_char c :: nat) \<le> 122")
  case True
  then have "(of_char c :: nat) - 32 < 256" and "(of_char c :: nat) - 32 \<noteq> 0" by auto
  then have "(of_char (toupper c) :: nat) \<noteq> 0" using True by (simp add: toupper_def)
  then show ?thesis by (metis nul_of_char)
qed (auto simp: toupper_def)

lemma cstring_upper: "cstring line \<Longrightarrow> cstring (map toupper line)"
  by (induction line) (auto simp: toupper_not_nul)

text \<open>With a child that gets each message in one read, every line is shown once, in capital letters.\<close>

lemma echo_shows_upper:
  assumes "\<forall>l\<in>set ls. cstring l" and "\<forall>i<length ls. rep (k + i) (ls ! i @ [nul]) = Reply (upper_bytes (ls ! i @ [nul]))"
  shows "echo_parent (\<lambda>k. True) rep k (map Some ls) buf shown = Inr (shown @ concat (map (map toupper) ls))"
  using assms
proof (induction ls arbitrary: k buf shown)
  case (Cons l ls)
  have c: "c_str (read_into (l @ [nul]) buf) = l" using Cons.prems by (simp add: read_into_def)
  have u: "upper_bytes (l @ [nul]) = map toupper l @ [nul]" using upper_bytes_line[of l "[]"] Cons.prems by simp
  have c2: "c_str (read_into (map toupper l @ [nul]) b) = map toupper l" for b
    using Cons.prems by (simp add: read_into_def cstring_upper)
  have n: "nul \<in> set (read_into (x @ [nul]) b)" for x b by (simp add: read_into_def)
  have r: "rep k (l @ [nul]) = Reply (map toupper l @ [nul])" using Cons.prems(2) u by force
  have "\<forall>i<length ls. rep (Suc k + i) (ls ! i @ [nul]) = Reply (upper_bytes (ls ! i @ [nul]))" using Cons.prems(2) by force
  then show ?case using Cons.IH[of "Suc k"] Cons.prems(1) by (simp add: Let_def c c2 n r)
qed simp

text \<open>The child gives one answer for each message that it reads whole.\<close>

lemma echo_child_answers:
  assumes "\<forall>m\<in>set ms. m \<noteq> [] \<and> length m < ECHO_BUF"
  shows "echo_child (\<lambda>k. True) k (map Some ms) out = Inr (out @ map upper_bytes ms)"
  using assms by (induction ms arbitrary: k out) auto

text \<open>The two together: the parent shows in capital letters what it was given.\<close>

lemma echo_both:
  assumes "\<forall>l\<in>set ls. cstring l \<and> length l + 1 < ECHO_BUF"
  shows "\<exists>answers. echo_child (\<lambda>k. True) 0 (map Some (map (\<lambda>l. l @ [nul]) ls)) [] = Inr answers \<and>
    echo_parent (\<lambda>k. True) (\<lambda>k m. Reply (answers ! k)) 0 (map Some ls) buf [] = Inr (concat (map (map toupper) ls))"
proof -
  let ?answers = "map upper_bytes (map (\<lambda>l. l @ [nul]) ls)"
  have "echo_child (\<lambda>k. True) 0 (map Some (map (\<lambda>l. l @ [nul]) ls)) [] = Inr ([] @ ?answers)"
    using assms by (intro echo_child_answers) auto
  moreover have "echo_parent (\<lambda>k. True) (\<lambda>k m. Reply (?answers ! k)) 0 (map Some ls) buf [] = Inr ([] @ concat (map (map toupper) ls))"
    using assms by (intro echo_shows_upper) auto
  ultimately show ?thesis by auto
qed

end
