(* ===== verification/Open_Files.thy ===== *)
theory Open_Files
  imports Error_Functions
begin

text \<open>
  The programs on open files and their offsets: \<open>5-1-LFS.c\<close>, \<open>5-2-oappend.c\<close>, \<open>5-4-fcntl_to_dup.c\<close>, \<open>5-5-fdcopy.c\<close> and
  \<open>5-6-guess.c\<close>.  What they are about is the table of descriptors and the open files behind it: a descriptor refers to an open file,
  which has the offset; descriptors made by \<open>dup\<close> share it, those of a second \<open>open\<close> do not.  The first section
  has the system calls as they are documented; a call may also fail for reasons outside the program.
\<close>

section \<open>Descriptors and open files\<close>

record open_file =
  of_file :: string
  of_offset :: nat
  of_append :: bool

record sys =
  files :: "string \<rightharpoonup> string"
  open_files :: "open_file list"
  fds :: "nat \<rightharpoonup> nat"                 \<comment> \<open>the open file of a descriptor\<close>
  fd_limit :: nat
  sys_errno :: int
  calls :: nat                        \<comment> \<open>how many calls that may fail were made\<close>
  trouble :: "nat \<Rightarrow> bool"             \<comment> \<open>which of them fail\<close>

definition EBADF :: int where "EBADF = 9"
definition EINVAL :: int where "EINVAL = 22"
definition EMFILE :: int where "EMFILE = 24"

definition fd_of :: "sys \<Rightarrow> int \<Rightarrow> nat option" where
  "fd_of s fd = (if fd < 0 then None else fds s (nat fd))"

function lowest_free :: "(nat \<rightharpoonup> nat) \<Rightarrow> nat \<Rightarrow> nat \<Rightarrow> nat option" where
  "lowest_free m limit n =
     (if limit \<le> n then None else if m n = None then Some n else lowest_free m limit (n + 1))"
  by pat_completeness auto
termination by (relation "measure (\<lambda>(m, limit, n). limit - n)") auto

declare lowest_free.simps [simp del]

text \<open>A new descriptor for an open file, the lowest one that is free and not below \<open>min\<close>.\<close>

definition new_fd :: "nat \<Rightarrow> nat \<Rightarrow> sys \<Rightarrow> int \<times> sys" where
  "new_fd min_fd f s = (case lowest_free (fds s) (fd_limit s) min_fd of
     None \<Rightarrow> (-1, s\<lparr>sys_errno := EMFILE\<rparr>)
   | Some n \<Rightarrow> (int n, s\<lparr>fds := (fds s)(n \<mapsto> f)\<rparr>))"

definition failing :: "sys \<Rightarrow> bool" where "failing s = trouble s (calls s)"
definition counted :: "sys \<Rightarrow> sys" where "counted s = s\<lparr>calls := calls s + 1\<rparr>"

definition sys_open :: "string \<Rightarrow> bool \<Rightarrow> bool \<Rightarrow> bool \<Rightarrow> sys \<Rightarrow> int \<times> sys" where
  "sys_open name creat trunc app s =
     (if failing s \<or> files s name = None \<and> \<not> creat then (-1, counted s)
      else let s1 = counted s;
               s2 = (if trunc \<or> files s name = None then s1\<lparr>files := (files s)(name \<mapsto> [])\<rparr> else s1);
               (fd, s3) = new_fd 0 (length (open_files s2)) s2 in
        if fd = -1 then (-1, s3)
        else (fd, s3\<lparr>open_files := open_files s3 @ [\<lparr>of_file = name, of_offset = 0, of_append = app\<rparr>]\<rparr>))"

text \<open>The bytes of a file after a write at an offset; a gap reads as null bytes.\<close>

definition write_at :: "string \<Rightarrow> nat \<Rightarrow> string \<Rightarrow> string" where
  "write_at old off bs = take off (old @ replicate (off - length old) nul) @ bs @ drop (off + length bs) old"

definition sys_write :: "int \<Rightarrow> string \<Rightarrow> sys \<Rightarrow> int \<times> sys" where
  "sys_write fd bs s = (case fd_of s fd of None \<Rightarrow> (-1, s\<lparr>sys_errno := EBADF\<rparr>) | Some f \<Rightarrow>
     if failing s then (-1, counted s)
     else let fl = open_files s ! f; old = the (files s (of_file fl));
              off = (if of_append fl then length old else of_offset fl) in
       (int (length bs), (counted s)\<lparr>files := (files s)(of_file fl \<mapsto> write_at old off bs),
          open_files := (open_files s)[f := fl\<lparr>of_offset := off + length bs\<rparr>]\<rparr>))"

definition sys_lseek_set :: "int \<Rightarrow> int \<Rightarrow> sys \<Rightarrow> int \<times> sys" where
  "sys_lseek_set fd off s = (case fd_of s fd of None \<Rightarrow> (-1, s\<lparr>sys_errno := EBADF\<rparr>) | Some f \<Rightarrow>
     if off < 0 then (-1, s\<lparr>sys_errno := EINVAL\<rparr>)
     else if failing s then (-1, counted s)
     else (off, (counted s)\<lparr>open_files := (open_files s)[f := (open_files s ! f)\<lparr>of_offset := nat off\<rparr>]\<rparr>))"

definition sys_read :: "int \<Rightarrow> nat \<Rightarrow> sys \<Rightarrow> (int \<times> string) \<times> sys" where
  "sys_read fd n s = (case fd_of s fd of None \<Rightarrow> ((-1, []), s\<lparr>sys_errno := EBADF\<rparr>) | Some f \<Rightarrow>
     if failing s then ((-1, []), counted s)
     else let fl = open_files s ! f; bs = take n (drop (of_offset fl) (the (files s (of_file fl)))) in
       ((int (length bs), bs), (counted s)\<lparr>open_files := (open_files s)[f := fl\<lparr>of_offset := of_offset fl + length bs\<rparr>]\<rparr>))"

definition sys_close :: "int \<Rightarrow> sys \<Rightarrow> sys" where
  "sys_close fd s = (if fd_of s fd = None then s\<lparr>sys_errno := EBADF\<rparr> else s\<lparr>fds := (fds s)(nat fd := None)\<rparr>)"

text \<open>\<open>fcntl\<close> with \<open>F_DUPFD\<close>, and with \<open>F_GETFL\<close> as far as it tells whether the descriptor is open.\<close>

definition fcntl_dupfd :: "int \<Rightarrow> int \<Rightarrow> sys \<Rightarrow> int \<times> sys" where
  "fcntl_dupfd fd min_fd s = (case fd_of s fd of None \<Rightarrow> (-1, s\<lparr>sys_errno := EBADF\<rparr>) | Some f \<Rightarrow>
     if min_fd < 0 \<or> int (fd_limit s) \<le> min_fd then (-1, s\<lparr>sys_errno := EINVAL\<rparr>)
     else new_fd (nat min_fd) f s)"

definition fcntl_getfl :: "int \<Rightarrow> sys \<Rightarrow> int \<times> sys" where
  "fcntl_getfl fd s = (if fd_of s fd = None then (-1, s\<lparr>sys_errno := EBADF\<rparr>) else (0, s))"

text \<open>\<open>dup\<close> and \<open>dup2\<close> as they are documented.\<close>

definition sys_dup :: "int \<Rightarrow> sys \<Rightarrow> int \<times> sys" where
  "sys_dup fd s = (case fd_of s fd of None \<Rightarrow> (-1, s\<lparr>sys_errno := EBADF\<rparr>) | Some f \<Rightarrow> new_fd 0 f s)"

definition sys_dup2 :: "int \<Rightarrow> int \<Rightarrow> sys \<Rightarrow> int \<times> sys" where
  "sys_dup2 oldfd newfd s = (case fd_of s oldfd of None \<Rightarrow> (-1, s\<lparr>sys_errno := EBADF\<rparr>) | Some f \<Rightarrow>
     if newfd < 0 \<or> int (fd_limit s) \<le> newfd then (-1, s\<lparr>sys_errno := EBADF\<rparr>)
     else if oldfd = newfd then (newfd, s)
     else (newfd, s\<lparr>fds := (fds s)(nat newfd \<mapsto> f)\<rparr>))"

section \<open>The programs\<close>

definition mydup :: "int \<Rightarrow> sys \<Rightarrow> int \<times> sys" where
  "mydup oldfd s = fcntl_dupfd oldfd 0 s"

definition mydup2 :: "int \<Rightarrow> int \<Rightarrow> sys \<Rightarrow> int \<times> sys" where
  "mydup2 oldfd newfd s =
     (if newfd < 0 then (-1, s)
      else let (check, s1) = fcntl_getfl oldfd s in
      if check = -1 then (-1, s1\<lparr>sys_errno := EBADF\<rparr>)
      else if oldfd = newfd then (newfd, s1)
      else let (check, s2) = fcntl_getfl newfd s1;
               s3 = (if check \<noteq> -1 then sys_close newfd s2 else s2) in
        fcntl_dupfd oldfd newfd s3)"

definition lfs_main :: "string list \<Rightarrow> (string \<Rightarrow> int) \<Rightarrow> sys \<Rightarrow> stop \<times> sys" where
  "lfs_main argv atoll s =
     (if length argv \<noteq> 3 \<or> strcmp (argv ! 1) ''--help'' = 0
      then (stop_with (argv ! 0 @ '' pathname offset'' @ [newline]), s)
      else let (fd, s) = sys_open (argv ! 1) True False False s in
      if fd = -1 then (stop_with ''open'', s)
      else let (off, s) = sys_lseek_set fd (atoll (argv ! 2)) s in
      if off = -1 then (stop_with ''lseek'', s)
      else let (n, s) = sys_write fd ''test'' s in
      if n = -1 then (stop_with ''write'', s) else (Exit EXIT_SUCCESS [], s))"

definition oappend_main :: "sys \<Rightarrow> int \<times> sys" where
  "oappend_main s =
     (let (fd, s) = sys_open ''1.txt'' False False True s in
      if fd = -1 then (-1, s)
      else let (p, s) = sys_lseek_set fd 0 s in
      if p = -1 then (-1, s)
      else let (writeNum, s) = sys_write fd ''hh'' s in
      if writeNum = -1 then (-1, s) else (0, s))"

text \<open>The text that \<open>printf\<close> shows is what was read: the rest of \<open>buf\<close> is null bytes.\<close>

definition fdcopy_main :: "sys \<Rightarrow> string result \<times> sys" where
  "fdcopy_main s =
     (let (fd1, s) = sys_open ''ft'' True True False s in
      if fd1 = -1 then (Inl (stop_with ''open''), s)
      else let (n, s) = sys_write fd1 ''123456'' s in
      if n \<noteq> 6 then (Inl (stop_with ''write''), s)
      else let (fd2, s) = sys_dup fd1 s; (n, s) = sys_write fd2 ''7'' s in
      if n \<noteq> 1 then (Inl (stop_with ''write''), s)
      else let (fd3, s) = sys_open ''ft'' False False True s; (fd4, s) = sys_dup fd3 s;
               (p, s) = sys_lseek_set fd4 0 s in
      if p = -1 then (Inl (stop_with ''lseek''), s)
      else let (n, s) = sys_write fd4 ''8'' s in
      if n \<noteq> 1 then (Inl (stop_with ''write''), s)
      else let s = sys_close fd4 (sys_close fd3 (sys_close fd2 (sys_close fd1 s)));
               (fd5, s) = sys_open ''ft'' False False False s; ((n, buf), s) = sys_read fd5 10 s in
      if n < 0 then (Inl (stop_with ''read''), s)
      else (Inr (c_str buf), sys_close fd5 s))"

definition guess_main :: "string list \<Rightarrow> sys \<Rightarrow> sys" where
  "guess_main argv s =
     (if length argv < 2 then s\<lparr>sys_errno := EBADF\<rparr>        \<comment> \<open>no call gets past the null pointer\<close>
      else let fname = argv ! 1;
          (fd1, s) = sys_open fname True True False s;
          (fd2, s) = sys_dup fd1 s;
          (fd3, s) = sys_open fname False False False s;
          (n, s) = sys_write fd1 ''Hello,'' s;
          (n, s) = sys_write fd2 (''world'' @ [nul]) s;
          (n, s) = sys_lseek_set fd2 0 s;
          (n, s) = sys_write fd1 ''HELLO,'' s;
          (n, s) = sys_write fd3 ''Gidday'' s in s)"


section \<open>Descriptors\<close>

lemma lowest_free_here: "n < limit \<Longrightarrow> m n = None \<Longrightarrow> lowest_free m limit n = Some n"
  by (subst lowest_free.simps) simp

lemma lowest_free_next: "n < limit \<Longrightarrow> m n = Some f \<Longrightarrow> lowest_free m limit n = lowest_free m limit (n + 1)"
  by (subst lowest_free.simps) simp

text \<open>\<open>dup2\<close> up to the error number: the value and the table.\<close>

definition same_effect :: "int \<times> sys \<Rightarrow> int \<times> sys \<Rightarrow> bool" where
  "same_effect r r' \<longleftrightarrow> fst r = fst r' \<and> (snd r)\<lparr>sys_errno := 0\<rparr> = (snd r')\<lparr>sys_errno := 0\<rparr>"

lemma mydup_is_dup: "0 < fd_limit s \<Longrightarrow> mydup oldfd s = sys_dup oldfd s"
  by (simp add: mydup_def fcntl_dupfd_def sys_dup_def split: option.splits)

text \<open>C26: \<open>mydup2\<close> does what \<open>dup2\<close> does: the same value and the same table of descriptors whatever the two numbers are, and where \<open>dup2\<close>
  fails for numbers within the limits the same error number too.\<close>

theorem mydup2_is_dup2:
  assumes "\<forall>n. fd_limit s \<le> n \<longrightarrow> fds s n = None"
  shows "same_effect (mydup2 oldfd newfd s) (sys_dup2 oldfd newfd s) \<and>
    (0 \<le> newfd \<and> newfd < int (fd_limit s) \<and> fst (sys_dup2 oldfd newfd s) = -1 \<longrightarrow>
     sys_errno (snd (mydup2 oldfd newfd s)) = sys_errno (snd (sys_dup2 oldfd newfd s)))"
proof (cases "fd_of s oldfd")
  case None
  then show ?thesis by (simp add: same_effect_def mydup2_def sys_dup2_def fcntl_getfl_def)
next
  case (Some f)
  consider "newfd < 0" | "int (fd_limit s) \<le> newfd" "0 \<le> newfd" | "oldfd = newfd" "0 \<le> newfd"
    | "0 \<le> newfd" "newfd < int (fd_limit s)" "oldfd \<noteq> newfd" by linarith
  then show ?thesis
  proof cases
    case 1
    then show ?thesis using Some by (simp add: same_effect_def mydup2_def sys_dup2_def)
  next
    case 2
    then have n: "fd_of s newfd = None" using assms by (simp add: fd_of_def le_nat_iff)
    have ne: "oldfd \<noteq> newfd" using Some n by auto
    have o: "fds s (nat oldfd) = Some f" "\<not> oldfd < 0" using Some by (auto simp: fd_of_def split: if_splits)
    show ?thesis using 2 n ne o
      by (simp add: same_effect_def mydup2_def sys_dup2_def fcntl_getfl_def fcntl_dupfd_def fd_of_def)
  next
    case 3
    then have "\<not> int (fd_limit s) \<le> newfd" using Some assms by (auto simp: fd_of_def le_nat_iff split: if_splits)
    then show ?thesis using 3 Some by (simp add: same_effect_def mydup2_def sys_dup2_def fcntl_getfl_def)
  next
    case 4
    then have lt: "nat newfd < fd_limit s" by linarith
    have ne: "nat oldfd \<noteq> nat newfd" using 4 Some by (auto simp: fd_of_def split: if_splits)
    have o: "fds s (nat oldfd) = Some f" "\<not> oldfd < 0" using Some by (auto simp: fd_of_def split: if_splits)
    have l: "lowest_free ((fds s)(nat newfd := None)) (fd_limit s) (nat newfd) = Some (nat newfd)"
      "fds s (nat newfd) = None \<Longrightarrow> lowest_free (fds s) (fd_limit s) (nat newfd) = Some (nat newfd)"
      using lt by (auto intro: lowest_free_here)
    show ?thesis using 4 o ne lt l
      by (cases "fds s (nat newfd)")
         (simp_all add: same_effect_def mydup2_def sys_dup2_def fcntl_getfl_def fcntl_dupfd_def fd_of_def new_fd_def
           sys_close_def)
  qed
qed


text \<open>A process with the three standard descriptors, and room for the others.\<close>

definition process :: "(string \<rightharpoonup> string) \<Rightarrow> (nat \<Rightarrow> bool) \<Rightarrow> sys" where
  "process f bad = \<lparr>files = f, open_files = [\<lparr>of_file = ''/dev/tty'', of_offset = 0, of_append = False\<rparr>],
     fds = Map.empty(0 \<mapsto> 0, 1 \<mapsto> 0, 2 \<mapsto> 0), fd_limit = 1024, sys_errno = 0, calls = 0, trouble = bad\<rparr>"

theorem mydup2_is_dup2_witness:
  "same_effect (mydup2 1 7 (process Map.empty (\<lambda>k. False))) (7, (process Map.empty (\<lambda>k. False))\<lparr>fds := [0 \<mapsto> 0, 1 \<mapsto> 0, 2 \<mapsto> 0, 7 \<mapsto> 0]\<rparr>)"
proof -
  have "fd_limit (process Map.empty (\<lambda>k. False)) \<le> n \<Longrightarrow> fds (process Map.empty (\<lambda>k. False)) n = None" for n
    by (simp add: process_def)
  then have "same_effect (mydup2 1 7 (process Map.empty (\<lambda>k. False))) (sys_dup2 1 7 (process Map.empty (\<lambda>k. False)))"
    using mydup2_is_dup2[of "process Map.empty (\<lambda>k. False)" 1 7] by blast
  then show ?thesis by (simp add: sys_dup2_def process_def fd_of_def)
qed

section \<open>What the programs write\<close>

lemma write_at_end: "write_at old (length old) bs = old @ bs"
  by (simp add: write_at_def)

lemmas sys_defs = sys_open_def sys_write_def sys_lseek_set_def sys_read_def sys_close_def sys_dup_def new_fd_def
  failing_def counted_def fd_of_def

lemma free_3:
  "m 0 = Some a \<Longrightarrow> m 1 = Some b \<Longrightarrow> m 2 = Some c \<Longrightarrow> lowest_free m 1024 0 = lowest_free m 1024 3"
  by (simp add: lowest_free_next eval_nat_numeral)

lemma oappend_appends:
  assumes "f ''1.txt'' = Some old"
  shows "fst (oappend_main (process f (\<lambda>k. False))) = 0 \<and>
    files (snd (oappend_main (process f (\<lambda>k. False)))) = f(''1.txt'' \<mapsto> old @ ''hh'')"
  using assms by (simp add: oappend_main_def process_def sys_defs free_3 lowest_free_here write_at_end)

lemma guess_result:
  "files (guess_main [prog, fname] (process f (\<lambda>k. False))) fname = Some (''Giddayworld'' @ [nul])"
  by (simp add: guess_main_def process_def sys_defs free_3 lowest_free_here lowest_free_next write_at_def)

lemma fdcopy_output:
  assumes "fst (fdcopy_main (process f bad)) = Inr out"
  shows "out = ''12345678''"
proof -
  note d = fdcopy_main_def process_def sys_defs free_3 lowest_free_here lowest_free_next write_at_def
  have b0: "\<not> bad (0)" using assms by (cases "bad (0)") (simp_all add: d)
  have b1: "\<not> bad (Suc 0)" using assms b0 by (cases "bad (Suc 0)") (simp_all add: d)
  have b2: "\<not> bad (Suc (Suc 0))" using assms b0 b1 by (cases "bad (Suc (Suc 0))") (simp_all add: d)
  have b3: "\<not> bad (Suc (Suc (Suc 0)))" using assms b0 b1 b2 by (cases "bad (Suc (Suc (Suc 0)))") (simp_all add: d)
  have b4: "\<not> bad (Suc (Suc (Suc (Suc 0))))" using assms b0 b1 b2 b3 by (cases "bad (Suc (Suc (Suc (Suc 0))))") (simp_all add: d)
  have b5: "\<not> bad (Suc (Suc (Suc (Suc (Suc 0)))))" using assms b0 b1 b2 b3 b4 by (cases "bad (Suc (Suc (Suc (Suc (Suc 0)))))") (simp_all add: d)
  have b6: "\<not> bad (Suc (Suc (Suc (Suc (Suc (Suc 0))))))" using assms b0 b1 b2 b3 b4 b5 by (cases "bad (Suc (Suc (Suc (Suc (Suc (Suc 0))))))") (simp_all add: d)
  have b7: "\<not> bad (Suc (Suc (Suc (Suc (Suc (Suc (Suc 0)))))))" using assms b0 b1 b2 b3 b4 b5 b6 by (cases "bad (Suc (Suc (Suc (Suc (Suc (Suc (Suc 0)))))))") (simp_all add: d)
  show ?thesis using assms b0 b1 b2 b3 b4 b5 b6 b7 by (simp add: d)
qed

lemma fdcopy_good:
  "fst (fdcopy_main (process f (\<lambda>k. False))) = Inr ''12345678''"
  by (simp add: fdcopy_main_def process_def sys_defs free_3 lowest_free_here lowest_free_next write_at_def)

end
