(* ===== verification/Append_Race.thy ===== *)
theory Append_Race
  imports Open_Files Transition_System
begin

text \<open>
  \<open>5-3-atomic_append.c\<close> writes a number of bytes to a file, one at a time.  The program is meant to run several times at once:
  the theory has a step relation in which any number of processes take turns between their system calls.
\<close>

section \<open>One process\<close>

record append_opts =
  o_append :: bool      \<comment> \<open>\<open>O_APPEND\<close>\<close>
  o_seek :: bool        \<comment> \<open>\<open>lseek\<close> before each \<open>write\<close>\<close>

definition append_options :: "string list \<Rightarrow> append_opts" where
  "append_options argv = \<lparr>o_append = (length argv = 4 \<and> strcmp (argv ! 3) ''x'' = 0), o_seek = (length argv = 4)\<rparr>"

text \<open>What \<open>main\<close> does before the loop.  The file is created before the number is looked at.\<close>

definition append_setup :: "bool \<Rightarrow> string list \<Rightarrow> (append_opts \<times> int) result" where
  "append_setup open_ok argv =
     (if length argv < 3 \<or> strcmp (argv ! 1) ''--help'' = 0
      then Inl (stop_with (argv ! 0 @ '' file num-bytes [x]'' @ [newline]))
      else if \<not> open_ok then Inl (stop_with ''open'')
      else rbind (getInt (Some (argv ! 2)) GN_ANY_BASE (Some ''num-bytes'')) (\<lambda>numBytes. Inr (append_options argv, numBytes)))"

record append_proc =
  a_left :: nat         \<comment> \<open>how often the loop is still to be run\<close>
  a_sought :: bool      \<comment> \<open>between \<open>lseek\<close> and \<open>write\<close>\<close>
  a_offset :: nat

text \<open>The next system call of a process that is in the loop.\<close>

definition append_call :: "append_opts \<Rightarrow> append_proc \<times> string \<Rightarrow> append_proc \<times> string" where
  "append_call opts st = (case st of (p, content) \<Rightarrow>
     if o_seek opts \<and> \<not> a_sought p then (p\<lparr>a_sought := True, a_offset := length content\<rparr>, content)
     else let off = (if o_append opts then length content else a_offset p) in
       (p\<lparr>a_left := a_left p - 1, a_sought := False, a_offset := off + 1\<rparr>, write_at content off ''x''))"

section \<open>Several processes\<close>

record race =
  content :: string
  procs :: "append_proc list"

inductive race_step :: "append_opts \<Rightarrow> race \<Rightarrow> race \<Rightarrow> bool" for opts where
  call: "i < length (procs s) \<Longrightarrow> 0 < a_left (procs s ! i) \<Longrightarrow> append_call opts (procs s ! i, content s) = (p, c) \<Longrightarrow>
    race_step opts s \<lparr>content = c, procs = (procs s)[i := p]\<rparr>"

definition race_start :: "string \<Rightarrow> nat list \<Rightarrow> race" where
  "race_start old ns = \<lparr>content = old, procs = map (\<lambda>n. \<lparr>a_left = n, a_sought = False, a_offset = 0\<rparr>) ns\<rparr>"

definition race_over :: "race \<Rightarrow> bool" where
  "race_over s \<longleftrightarrow> (\<forall>p\<in>set (procs s). a_left p = 0)"

definition proc_work :: "append_opts \<Rightarrow> append_proc \<Rightarrow> nat" where
  "proc_work opts p = (if a_left p = 0 then 0 else if o_seek opts then 2 * a_left p - (if a_sought p then 1 else 0) else a_left p)"

definition race_work :: "append_opts \<Rightarrow> race \<Rightarrow> nat" where
  "race_work opts s = sum_list (map (proc_work opts) (procs s))"

lemma race_step_at:
  assumes "i < length (procs s)" and "0 < a_left (procs s ! i)" and "append_call opts (procs s ! i, content s) = (p, c)"
    and "s' = \<lparr>content = c, procs = (procs s)[i := p]\<rparr>"
  shows "race_step opts s s'"
  using race_step.call[OF assms(1-3)] assms(4) by simp

lemma sum_list_swap:
  fixes f :: "'a \<Rightarrow> nat"
  shows "i < length xs \<Longrightarrow> sum_list (map f (xs[i := y])) + f (xs ! i) = sum_list (map f xs) + f y"
proof (induction xs arbitrary: i)
  case (Cons x xs)
  then show ?case by (cases i) (auto simp: algebra_simps)
qed simp

lemma call_work:
  "0 < a_left p \<Longrightarrow> append_call opts (p, c) = (p', c') \<Longrightarrow> proc_work opts p = Suc (proc_work opts p')"
  by (auto simp: append_call_def proc_work_def Let_def split: if_splits)

lemma step_race_work: "race_step opts s s' \<Longrightarrow> race_work opts s = Suc (race_work opts s')"
proof (induction rule: race_step.induct)
  case (call i s p c)
  have "proc_work opts (procs s ! i) = Suc (proc_work opts p)" using call by (intro call_work)
  then show ?case using sum_list_swap[OF call(1), of "proc_work opts" p] by (simp add: race_work_def)
qed

lemma proc_work_0: "proc_work opts p = 0 \<longleftrightarrow> a_left p = 0"
  by (simp add: proc_work_def)

lemma race_work_over: "race_over s \<longleftrightarrow> race_work opts s = 0"
  by (simp add: race_over_def race_work_def proc_work_0)

lemma race_progress: "\<not> race_over s \<Longrightarrow> \<exists>s'. race_step opts s s'"
  proof -
  assume "\<not> race_over s"
  then obtain i where "i < length (procs s)" "0 < a_left (procs s ! i)" by (auto simp: race_over_def in_set_conv_nth)
  moreover obtain p c where "append_call opts (procs s ! i, content s) = (p, c)" by (cases "append_call opts (procs s ! i, content s)")
  ultimately show ?thesis by (blast intro: race_step.call)
qed

interpretation race: terminating_system "race_step opts" "race_start old ns" "\<lambda>s. True" "race_work opts" race_over
  for opts old ns
  by unfold_locales (rule TrueI, rule TrueI, erule step_race_work, rule race_work_over, rule race_progress)


section \<open>Appending\<close>

definition xs_of :: "nat \<Rightarrow> string" where "xs_of k = replicate k CHR ''x''"

lemma length_xs_of [simp]: "length (xs_of k) = k"
  by (simp add: xs_of_def)

lemma xs_of_0 [simp]: "xs_of 0 = []"
  by (simp add: xs_of_def)

lemma xs_of_snoc: "xs_of k @ ''x'' = xs_of (Suc k)"
  by (simp add: xs_of_def replicate_append_same)

definition left_sum :: "race \<Rightarrow> nat" where
  "left_sum s = sum_list (map a_left (procs s))"

definition appended :: "string \<Rightarrow> nat \<Rightarrow> race \<Rightarrow> bool" where
  "appended old N s \<longleftrightarrow> (\<exists>k. content s = old @ xs_of k \<and> k + left_sum s = N)"

lemma left_sum_update:
  "i < length (procs s) \<Longrightarrow> left_sum (s\<lparr>content := c, procs := (procs s)[i := p]\<rparr>) + a_left (procs s ! i) = left_sum s + a_left p"
  by (simp add: left_sum_def sum_list_swap)

lemma race_eqI: "\<lparr>content = c, procs = ps\<rparr> = s\<lparr>content := c, procs := ps\<rparr>"
  by simp

lemma appended_step:
  assumes "race_step opts s s'" and "o_append opts" and "appended old N s"
  shows "appended old N s'"
  using assms
proof (induction rule: race_step.induct)
  case (call i s p c)
  obtain k where k: "content s = old @ xs_of k" "k + left_sum s = N" using call(5) by (auto simp: appended_def)
  note l = left_sum_update[OF call(1), where c = c and p = p, folded race_eqI]
  show ?case
  proof (cases "o_seek opts \<and> \<not> a_sought (procs s ! i)")
    case True
    then have "c = content s" "a_left p = a_left (procs s ! i)" using call(3) by (auto simp: append_call_def)
    then show ?thesis using k l by (auto simp: appended_def)
  next
    case False
    then have "c = content s @ ''x''" "a_left p = a_left (procs s ! i) - 1"
      using call(3,4) by (auto simp: append_call_def Let_def write_at_end)
    then show ?thesis using k l call(2) by (auto simp: appended_def xs_of_snoc intro!: exI[of _ "Suc k"])
  qed
qed

lemma appended_start: "appended old (sum_list ns) (race_start old ns)"
  by (auto simp: appended_def race_start_def left_sum_def comp_def intro!: exI[of _ 0])

lemma left_sum_over: "race_over s \<Longrightarrow> left_sum s = 0"
  by (simp add: race_over_def left_sum_def)

interpretation appending: invariant_system "race_step \<lparr>o_append = True, o_seek = seek\<rparr>" "race_start old ns"
    "appended old (sum_list ns)" for seek old ns
  by unfold_locales (auto intro: appended_start appended_step)

text \<open>C11: processes that append to a file with \<open>O_APPEND\<close>, any number of them at once and in any order of their system calls,
  lose no byte and leave what was in the file: every run can go on until all are done, which
  takes a fixed number of calls, and then the file holds its old content and the bytes of all of them.\<close>

theorem append_loses_nothing:
  assumes "(race_step \<lparr>o_append = True, o_seek = True\<rparr> ^^ n) (race_start old ns) s"
  shows "n \<le> 2 * sum_list ns \<and> (race_over s \<longleftrightarrow> n = 2 * sum_list ns) \<and>
    (n < 2 * sum_list ns \<longrightarrow> (\<exists>s'. race_step \<lparr>o_append = True, o_seek = True\<rparr> s s')) \<and>
    (n = 2 * sum_list ns \<longrightarrow> content s = old @ xs_of (sum_list ns))"
proof -
  have w: "race_work \<lparr>o_append = True, o_seek = True\<rparr> (race_start old ns) = 2 * sum_list ns"
    by (induction ns) (auto simp: race_work_def race_start_def proc_work_def)
  note e = race.run_ends[OF assms, unfolded w]
  obtain k where "content s = old @ xs_of k" "k + left_sum s = sum_list ns"
    using appending.steps_inv[OF assms] by (auto simp: appended_def)
  then show ?thesis using e left_sum_over[of s] by auto
qed

theorem append_loses_nothing_witness:
  "\<exists>s. (race_step \<lparr>o_append = True, o_seek = True\<rparr> ^^ 2) (race_start ''a'' [1]) s \<and> content s = ''ax''"
proof -
  let ?R = "race_step \<lparr>o_append = True, o_seek = True\<rparr>"
  let ?s = "\<lambda>c n k q. \<lparr>content = c, procs = [\<lparr>a_left = n, a_sought = q, a_offset = k\<rparr>]\<rparr>"
  have "?R (race_start ''a'' [1]) (?s ''a'' 1 1 True)"
    by (rule race_step_at[where i = 0]) (simp_all add: append_call_def race_start_def)
  moreover have "?R (?s ''a'' 1 1 True) (?s ''ax'' 0 2 False)"
    by (rule race_step_at[where i = 0]) (simp_all add: append_call_def write_at_def)
  ultimately have r: "(?R ^^ 2) (race_start ''a'' [1]) (?s ''ax'' 0 2 False)" by (auto simp: numeral_2_eq_2)
  then show ?thesis using append_loses_nothing[OF r] by (auto simp: xs_of_def)
qed

section \<open>Seeking to the end\<close>

text \<open>Without \<open>O_APPEND\<close> the end that \<open>lseek\<close> found can be in the middle of the file when \<open>write\<close> is called.\<close>

definition seek_ok :: "string \<Rightarrow> nat \<Rightarrow> append_proc \<Rightarrow> nat \<Rightarrow> bool" where
  "seek_ok old k p n \<longleftrightarrow> (if a_sought p then length old + n \<le> a_offset p + a_left p \<and> length old \<le> a_offset p \<and> a_offset p \<le> length old + k
     else n \<le> k + a_left p)"

definition seeking :: "string \<Rightarrow> nat list \<Rightarrow> race \<Rightarrow> bool" where
  "seeking old ns s \<longleftrightarrow> (\<exists>k. content s = old @ xs_of k \<and> k + left_sum s \<le> sum_list ns \<and>
     list_all2 (seek_ok old k) (procs s) ns)"

lemma seek_ok_mono: "seek_ok old k p n \<Longrightarrow> k \<le> k' \<Longrightarrow> seek_ok old k' p n"
  by (auto simp: seek_ok_def)

lemma write_in_xs:
  assumes "length old \<le> off" and "off \<le> length old + k"
  shows "write_at (old @ xs_of k) off ''x'' = old @ xs_of (max k (Suc off - length old))"
proof -
  obtain j where j: "off = length old + j" using assms(1) le_Suc_ex by blast
  show ?thesis
  proof (cases "j < k")
    case True
    then obtain r where r: "k = j + Suc r" using less_iff_Suc_add by auto
    have "drop (Suc j) (xs_of k) = xs_of r" and "take j (xs_of k) = xs_of j"
      using r by (simp_all add: xs_of_def del: replicate_Suc)
    moreover have "xs_of j @ ''x'' @ xs_of r = xs_of (j + Suc r)" by (simp add: xs_of_def replicate_add replicate_app_Cons_same)
    ultimately show ?thesis using r j by (simp add: write_at_def max_def)
  next
    case False
    then have "off = length (old @ xs_of k)" using j assms(2) by simp
    then show ?thesis using write_at_end[of "old @ xs_of k" "''x''"] by (simp add: xs_of_snoc max_def)
  qed
qed

lemma seeking_step:
  assumes "race_step \<lparr>o_append = False, o_seek = True\<rparr> s s'" and "seeking old ns s"
  shows "seeking old ns s'"
  using assms
proof (induction rule: race_step.induct)
  case (call i s p c)
  let ?q = "procs s ! i"
  obtain k where k: "content s = old @ xs_of k" "k + left_sum s \<le> sum_list ns" "list_all2 (seek_ok old k) (procs s) ns"
    using call(4) by (auto simp: seeking_def)
  have q: "seek_ok old k ?q (ns ! i)" and i: "i < length ns" using k(3) call(1) by (auto simp: list_all2_conv_all_nth)
  note l = left_sum_update[OF call(1), where c = c and p = p, folded race_eqI]
  have upd: "list_all2 (seek_ok old k') ((procs s)[i := p]) ns" if "seek_ok old k' p (ns ! i)" "k \<le> k'" for k'
    unfolding list_all2_conv_all_nth
  proof (intro conjI allI impI)
    fix j assume "j < length ((procs s)[i := p])"
    then show "seek_ok old k' ((procs s)[i := p] ! j) (ns ! j)"
      using k(3) that seek_ok_mono[OF _ that(2)] by (cases "j = i") (auto simp: list_all2_conv_all_nth)
  qed (use k(3) in \<open>simp add: list_all2_lengthD\<close>)
  show ?case
  proof (cases "a_sought ?q")
    case False
    then have c: "c = content s" "a_left p = a_left ?q" "a_sought p" "a_offset p = length old + k"
      using call(3) k(1) by (auto simp: append_call_def)
    then have "seek_ok old k p (ns ! i)" using q False by (simp add: seek_ok_def)
    then show ?thesis unfolding seeking_def using k upd[of k] c l by (intro exI[of _ k]) auto
  next
    case True
    define k' where "k' = max k (Suc (a_offset ?q) - length old)"
    have o: "length old \<le> a_offset ?q" "a_offset ?q \<le> length old + k" "length old + ns ! i \<le> a_offset ?q + a_left ?q"
      using q True by (auto simp: seek_ok_def)
    have c: "c = old @ xs_of k'" "a_left p = a_left ?q - 1" "\<not> a_sought p"
      using call(3) k(1) True write_in_xs[OF o(1,2)] by (auto simp: append_call_def Let_def k'_def)
    have kk: "k \<le> k'" "k' \<le> Suc k" using o by (auto simp: k'_def)
    have "ns ! i \<le> k' + a_left p" using o c(2) call(2) by (auto simp: k'_def)
    then have "seek_ok old k' p (ns ! i)" using c(3) by (simp add: seek_ok_def)
    then show ?thesis unfolding seeking_def using k(2) upd[of k'] c kk l call(2) by (intro exI[of _ k']) auto
  qed
qed

lemma seeking_start: "seeking old ns (race_start old ns)"
  by (auto simp: seeking_def race_start_def left_sum_def comp_def seek_ok_def list_all2_conv_all_nth intro!: exI[of _ 0])

interpretation racing: invariant_system "race_step \<lparr>o_append = False, o_seek = True\<rparr>" "race_start old ns" "seeking old ns"
  for old ns
  by unfold_locales (auto intro: seeking_start seeking_step)

lemma race_bounds:
  assumes "(race_step \<lparr>o_append = False, o_seek = True\<rparr>)\<^sup>*\<^sup>* (race_start old ns) s" and "race_over s"
  shows "\<exists>k. content s = old @ xs_of k \<and> k \<le> sum_list ns \<and> (\<forall>n\<in>set ns. n \<le> k)"
proof -
  obtain k where k: "content s = old @ xs_of k" "k + left_sum s \<le> sum_list ns" "list_all2 (seek_ok old k) (procs s) ns"
    using racing.reach_inv[OF assms(1)] by (auto simp: seeking_def)
  have "n \<le> k" if mem: "n \<in> set ns" for n
  proof -
    obtain i where n: "i < length ns" "ns ! i = n" using mem unfolding in_set_conv_nth by blast
    then have i: "i < length (procs s)" "seek_ok old k (procs s ! i) n"
      using list_all2_nthD2[OF k(3) n(1)] list_all2_lengthD[OF k(3)] by simp_all
    then have "a_left (procs s ! i) = 0" using assms(2) by (auto simp: race_over_def)
    then show ?thesis using i(2) by (auto simp: seek_ok_def split: if_splits)
  qed
  moreover have "k \<le> sum_list ns" using k(2) by linarith
  ultimately show ?thesis using k(1) by blast
qed


text \<open>Two processes that always seek before either of them writes: the second overwrites what the first wrote.\<close>

definition pair :: "string \<Rightarrow> nat \<Rightarrow> nat \<Rightarrow> race" where
  "pair c n off = \<lparr>content = c, procs = [\<lparr>a_left = n, a_sought = False, a_offset = off\<rparr>, \<lparr>a_left = n, a_sought = False, a_offset = off\<rparr>]\<rparr>"

lemma write_at_here: "write_at (c @ ''x'') (length c) ''x'' = c @ ''x''"
  by (simp add: write_at_def)

lemma pair_round:
  "(race_step \<lparr>o_append = False, o_seek = True\<rparr>)\<^sup>*\<^sup>* (pair c (Suc n) off) (pair (c @ ''x'') n (Suc (length c)))"
proof -
  define R where "R = race_step \<lparr>o_append = False, o_seek = True\<rparr>"
  let ?p = "\<lambda>n k q. \<lparr>a_left = n, a_sought = q, a_offset = k\<rparr>"
  let ?s = "\<lambda>c p q. \<lparr>content = c, procs = [p, q]\<rparr>"
  have "R (pair c (Suc n) off) (?s c (?p (Suc n) (length c) True) (?p (Suc n) off False))"
    unfolding R_def pair_def by (rule race_step_at[where i = 0]) (simp_all add: append_call_def)
  moreover have "R (?s c (?p (Suc n) (length c) True) (?p (Suc n) off False)) (?s c (?p (Suc n) (length c) True) (?p (Suc n) (length c) True))"
    unfolding R_def by (rule race_step_at[where i = 1]) (simp_all add: append_call_def)
  moreover have "R (?s c (?p (Suc n) (length c) True) (?p (Suc n) (length c) True))
      (?s (c @ ''x'') (?p n (Suc (length c)) False) (?p (Suc n) (length c) True))"
    unfolding R_def by (rule race_step_at[where i = 0]) (simp_all add: append_call_def write_at_end)
  moreover have "R (?s (c @ ''x'') (?p n (Suc (length c)) False) (?p (Suc n) (length c) True)) (pair (c @ ''x'') n (Suc (length c)))"
    unfolding R_def pair_def by (rule race_step_at[where i = 1]) (simp_all add: append_call_def write_at_here)
  ultimately show ?thesis unfolding R_def[symmetric] by (meson converse_rtranclp_into_rtranclp rtranclp.rtrancl_refl)
qed

lemma pair_run: "\<exists>off'. (race_step \<lparr>o_append = False, o_seek = True\<rparr>)\<^sup>*\<^sup>* (pair c n off) (pair (c @ xs_of n) 0 off')"
proof (induction n arbitrary: c off)
  case (Suc n)
  obtain off' where "(race_step \<lparr>o_append = False, o_seek = True\<rparr>)\<^sup>*\<^sup>* (pair (c @ ''x'') n (Suc (length c))) (pair ((c @ ''x'') @ xs_of n) 0 off')"
    using Suc.IH by blast
  moreover have "(c @ ''x'') @ xs_of n = c @ xs_of (Suc n)" by (simp add: xs_of_def)
  ultimately show ?case using rtranclp_trans[OF pair_round] by metis
qed auto

text \<open>C24: with \<open>lseek\<close> in place of \<open>O_APPEND\<close> the old content stays, but of the new bytes only as many are sure to be there as
  one process alone writes: two processes can lose all the bytes of one of them.\<close>

theorem seek_may_lose:
  "(\<forall>s. (race_step \<lparr>o_append = False, o_seek = True\<rparr>)\<^sup>*\<^sup>* (race_start old [n, m]) s \<and> race_over s \<longrightarrow>
      (\<exists>k. content s = old @ xs_of k \<and> max n m \<le> k \<and> k \<le> n + m)) \<and>
   (\<exists>s. (race_step \<lparr>o_append = False, o_seek = True\<rparr>)\<^sup>*\<^sup>* (race_start old [n, n]) s \<and> race_over s \<and> content s = old @ xs_of n)"
proof (intro conjI allI impI)
  fix s
  assume "(race_step \<lparr>o_append = False, o_seek = True\<rparr>)\<^sup>*\<^sup>* (race_start old [n, m]) s \<and> race_over s"
  then show "\<exists>k. content s = old @ xs_of k \<and> max n m \<le> k \<and> k \<le> n + m" using race_bounds[of old "[n, m]" s] by auto
next
  obtain off where "(race_step \<lparr>o_append = False, o_seek = True\<rparr>)\<^sup>*\<^sup>* (race_start old [n, n]) (pair (old @ xs_of n) 0 off)"
    using pair_run[of old n 0] by (auto simp: race_start_def pair_def)
  moreover have "race_over (pair (old @ xs_of n) 0 off)" "content (pair (old @ xs_of n) 0 off) = old @ xs_of n"
    by (simp_all add: race_over_def pair_def)
  ultimately show "\<exists>s. (race_step \<lparr>o_append = False, o_seek = True\<rparr>)\<^sup>*\<^sup>* (race_start old [n, n]) s \<and> race_over s \<and>
      content s = old @ xs_of n" by blast
qed


theorem seek_may_lose_witness:
  "\<exists>s k. (race_step \<lparr>o_append = False, o_seek = True\<rparr>)\<^sup>*\<^sup>* (race_start ''a'' [1, 1]) s \<and> race_over s \<and>
     content s = ''a'' @ xs_of k \<and> 1 \<le> k \<and> k \<le> 2"
proof -
  obtain s where s: "(race_step \<lparr>o_append = False, o_seek = True\<rparr>)\<^sup>*\<^sup>* (race_start ''a'' [1, 1]) s" "race_over s"
    using seek_may_lose[of "''a''" 1 1] by blast
  then obtain k where "content s = ''a'' @ xs_of k" "max 1 1 \<le> k" "k \<le> 1 + 1" using seek_may_lose[of "''a''" 1 1] by blast
  then have "content s = ''a'' @ xs_of k \<and> 1 \<le> k \<and> k \<le> 2" by simp
  then show ?thesis using s by blast
qed

section \<open>Neither\<close>

text \<open>With two arguments only, every process writes from the start of the file.\<close>

definition maxl :: "nat list \<Rightarrow> nat" where "maxl ns = foldr max ns 0"

lemma maxl_simps [simp]: "maxl [] = 0" "maxl (n # ns) = max n (maxl ns)"
  by (simp_all add: maxl_def)

lemma maxl_Suc: "i < length ns \<Longrightarrow> maxl (ns[i := Suc (ns ! i)]) = max (maxl ns) (Suc (ns ! i))"
proof (induction ns arbitrary: i)
  case (Cons n ns)
  then show ?case by (cases i) auto
qed simp

lemma nth_maxl: "i < length ns \<Longrightarrow> ns ! i \<le> maxl ns"
proof (induction ns arbitrary: i)
  case (Cons n ns)
  then show ?case by (cases i) (auto simp: le_max_iff_disj)
qed simp

definition from_start :: "string \<Rightarrow> nat list \<Rightarrow> race \<Rightarrow> bool" where
  "from_start old ns s \<longleftrightarrow> (let m = maxl (map a_offset (procs s)) in content s = xs_of m @ drop m old) \<and>
     map (\<lambda>p. a_left p + a_offset p) (procs s) = ns"

lemma write_in_front:
  assumes "off \<le> m"
  shows "write_at (xs_of m @ drop m old) off ''x'' = xs_of (max m (Suc off)) @ drop (max m (Suc off)) old"
proof (cases "off = m")
  case True
  then show ?thesis by (simp add: write_at_def xs_of_snoc[symmetric])
next
  case False
  then obtain r where r: "m = off + Suc r" using assms by (metis less_iff_Suc_add le_neq_implies_less add_Suc_right)
  have "xs_of m = xs_of off @ ''x'' @ xs_of r" unfolding r by (simp add: xs_of_def replicate_add replicate_app_Cons_same)
  then show ?thesis using r by (simp add: write_at_def max_def xs_of_snoc)
qed

lemma from_start_step:
  assumes "race_step \<lparr>o_append = False, o_seek = False\<rparr> s s'" and "from_start old ns s"
  shows "from_start old ns s'"
  using assms
proof (induction rule: race_step.induct)
  case (call i s p c)
  let ?q = "procs s ! i" and ?os = "map a_offset (procs s)"
  have p: "a_left p = a_left ?q - 1" "a_offset p = Suc (a_offset ?q)" "c = write_at (content s) (a_offset ?q) ''x''"
    using call(3) by (auto simp: append_call_def Let_def)
  have m: "maxl (map a_offset ((procs s)[i := p])) = max (maxl ?os) (Suc (a_offset ?q))"
    using maxl_Suc[of i ?os] call(1) by (simp add: map_update p(2))
  have "a_offset ?q \<le> maxl ?os" using nth_maxl[of i ?os] call(1) by simp
  then have "c = xs_of (max (maxl ?os) (Suc (a_offset ?q))) @ drop (max (maxl ?os) (Suc (a_offset ?q))) old"
    using call(4) p(3) write_in_front by (simp add: from_start_def Let_def)
  moreover have "map (\<lambda>p. a_left p + a_offset p) ((procs s)[i := p]) = ns"
    using call(1,2,4) p by (auto simp: from_start_def map_update intro!: list_update_same_conv[THEN iffD2])
  ultimately show ?case by (simp add: from_start_def m)
qed

interpretation overwriting: invariant_system "race_step \<lparr>o_append = False, o_seek = False\<rparr>" "race_start old ns"
    "from_start old ns" for old ns
proof
  have "maxl (map (\<lambda>n. 0) ns) = 0" by (induction ns) simp_all
  then show "from_start old ns (race_start old ns)" by (simp add: from_start_def race_start_def comp_def)
qed (fact from_start_step)

lemma plain_overwrites:
  assumes "(race_step \<lparr>o_append = False, o_seek = False\<rparr>)\<^sup>*\<^sup>* (race_start old ns) s" and "race_over s"
  shows "content s = xs_of (maxl ns) @ drop (maxl ns) old"
proof -
  have i: "content s = xs_of (maxl (map a_offset (procs s))) @ drop (maxl (map a_offset (procs s))) old"
    "map (\<lambda>p. a_left p + a_offset p) (procs s) = ns"
    using overwriting.reach_inv[OF assms(1)] by (simp_all add: from_start_def Let_def)
  have "map a_offset (procs s) = map (\<lambda>p. a_left p + a_offset p) (procs s)" using assms(2) by (auto simp: race_over_def)
  then show ?thesis using i by simp
qed

end
