(* ===== verification/Signal_Programs.thy ===== *)
theory Signal_Programs
  imports Error_Functions
begin

text \<open>
  Programs that watch signals: \<open>20-1-changed_sig_receiver.c\<close> counts them, \<open>20-2-sig_ign_test.c\<close>, \<open>22-1-sigcont.c\<close> and
  \<open>27-6-sigchld_handler.c\<close> block one and look when its handler runs, \<open>21-1-my_abort.c\<close> and \<open>20-4-my_siginterrupt.c\<close> are library
  routines.  The first section has what the kernel does with signals as documented: the mask, the pending signals, the
  dispositions.  A standard signal is pending at most once, a realtime signal as often as it was sent.
\<close>

section \<open>Signals\<close>

datatype disposition = Default | Ignore | Handler

record 'a sigs =
  sent :: "nat list"                  \<comment> \<open>the pending signals\<close>
  blocked :: "nat set"
  disposition :: "nat \<Rightarrow> disposition"
  killed_by :: "nat option"
  data :: 'a                          \<comment> \<open>what the handler works on\<close>

definition SIGINT :: nat where "SIGINT = 2"
definition SIGABRT :: nat where "SIGABRT = 6"
definition SIGKILL :: nat where "SIGKILL = 9"
definition SIGCHLD :: nat where "SIGCHLD = 17"
definition SIGCONT :: nat where "SIGCONT = 18"
definition SIGSTOP :: nat where "SIGSTOP = 19"
definition SIGRTMIN :: nat where "SIGRTMIN = 34"

lemmas signal_numbers = SIGINT_def SIGABRT_def SIGKILL_def SIGCHLD_def SIGCONT_def SIGSTOP_def SIGRTMIN_def

text \<open>The signals that do not end a process that does nothing about them: those ignored and those that stop it.\<close>

definition harmless :: "nat \<Rightarrow> bool" where
  "harmless sig \<longleftrightarrow> sig \<in> {17, 18, 19, 20, 21, 22, 23, 28}"

definition deliver :: "(nat \<Rightarrow> 'a \<Rightarrow> 'a) \<Rightarrow> nat \<Rightarrow> 'a sigs \<Rightarrow> 'a sigs" where
  "deliver handler sig k =
     (if killed_by k \<noteq> None then k
      else case disposition k sig of
        Ignore \<Rightarrow> k
      | Handler \<Rightarrow> k\<lparr>data := handler sig (data k)\<rparr>
      | Default \<Rightarrow> if harmless sig then k else k\<lparr>killed_by := Some sig\<rparr>)"

definition send :: "(nat \<Rightarrow> 'a \<Rightarrow> 'a) \<Rightarrow> nat \<Rightarrow> 'a sigs \<Rightarrow> 'a sigs" where
  "send handler sig k =
     (if sig \<in> blocked k \<and> sig \<noteq> SIGKILL \<and> sig \<noteq> SIGSTOP
      then if sig < SIGRTMIN \<and> sig \<in> set (sent k) then k else k\<lparr>sent := sent k @ [sig]\<rparr>
      else deliver handler sig k)"

text \<open>\<open>sigprocmask\<close>: the pending signals that the new mask lets through are delivered, the lowest number first.\<close>

definition set_mask :: "(nat \<Rightarrow> 'a \<Rightarrow> 'a) \<Rightarrow> nat set \<Rightarrow> 'a sigs \<Rightarrow> 'a sigs" where
  "set_mask handler m k = fold (deliver handler) (sort (filter (\<lambda>s. s \<notin> m) (sent k)))
     (k\<lparr>blocked := m, sent := filter (\<lambda>s. s \<in> m) (sent k)\<rparr>)"

text \<open>\<open>sigaction\<close>: a signal that is ignored from now on is no longer pending.  \<open>SIGKILL\<close> and \<open>SIGSTOP\<close> stay as they are.\<close>

definition set_action :: "nat \<Rightarrow> disposition \<Rightarrow> 'a sigs \<Rightarrow> 'a sigs" where
  "set_action sig d k =
     (if sig = SIGKILL \<or> sig = SIGSTOP then k
      else k\<lparr>disposition := (disposition k)(sig := d), sent := (if d = Ignore then removeAll sig (sent k) else sent k)\<rparr>)"

definition at_start :: "'a \<Rightarrow> 'a sigs" where
  "at_start x = \<lparr>sent = [], blocked = {}, disposition = (\<lambda>_. Default), killed_by = None, data = x\<rparr>"

section \<open>Counting signals\<close>

text \<open>The variables of \<open>20-1\<close>.\<close>

definition NSIG :: nat where "NSIG = 65"

record counts =
  sigCnt :: "nat list"
  gotSigint :: bool

definition handler :: "nat \<Rightarrow> counts \<Rightarrow> counts" where
  "handler sig v = (if sig = SIGINT then v\<lparr>gotSigint := True\<rparr> else v\<lparr>sigCnt := (sigCnt v)[sig := sigCnt v ! sig + 1]\<rparr>)"

text \<open>\<open>sigaction(n, handler, NULL)\<close> passes the function where a structure is expected, so that the machine code of the function is
  read as one.  Its first eight bytes, \<open>code\<close>, are taken for the address of the handler; what the compiler made of the function is not in the
  repository.  \<open>entry\<close> is the address of the function.  A call of any other address is one of no function: \<open>None\<close>.
  The flags and the mask, which come from later bytes of the code, matter only when a function is called.\<close>

definition stored_action :: "64 word \<Rightarrow> disposition" where
  "stored_action code = (if code = 0 then Default else if code = 1 then Ignore else Handler)"

definition called :: "64 word \<Rightarrow> 64 word \<Rightarrow> nat \<Rightarrow> counts option \<Rightarrow> counts option" where
  "called entry code sig v = (if code = entry then map_option (handler sig) v else None)"

text \<open>The loop that waits, over the signals that arrive.\<close>

fun wait_sigint :: "(nat \<Rightarrow> counts option \<Rightarrow> counts option) \<Rightarrow> nat list \<Rightarrow> counts option sigs \<Rightarrow> counts option sigs" where
  "wait_sigint h [] k = k"
| "wait_sigint h (s # ss) k = (if (case data k of None \<Rightarrow> True | Some v \<Rightarrow> gotSigint v) \<or> killed_by k \<noteq> None then k
     else wait_sigint h ss (send h s k))"

definition caught_line :: "string \<Rightarrow> nat list \<Rightarrow> nat \<Rightarrow> string" where
  "caught_line prog cnt n = (if cnt ! n \<noteq> 0
     then prog @ '': signal '' @ dec_nat n @ '' caught '' @ dec_nat (cnt ! n) @ '' time'' @ (if cnt ! n = 1 then [] else ''s'') @ [newline]
     else [])"

text \<open>What comes after the loop: \<open>None\<close> is a loop that goes on.\<close>

definition receiver_end :: "string \<Rightarrow> string \<Rightarrow> counts option sigs \<Rightarrow> (string \<times> int) option result" where
  "receiver_end prog out k = (case killed_by k of Some sig \<Rightarrow> Inl (Exit (128 + int sig) [])
     | None \<Rightarrow> (case data k of None \<Rightarrow> Inl (Undefined WildCall)
         | Some v \<Rightarrow> if \<not> gotSigint v then Inr None
             else Inr (Some (out @ concat (map (caught_line prog (sigCnt v)) [1..<NSIG]), 0))))"

text \<open>\<open>early\<close> are the signals that arrive during the sleep, \<open>late\<close> those after it.  \<open>show_set\<close> is \<open>printSigset\<close>.\<close>

definition receiver_main ::
    "64 word \<Rightarrow> 64 word \<Rightarrow> int \<Rightarrow> (string \<Rightarrow> nat list \<Rightarrow> string) \<Rightarrow> nat list \<Rightarrow> nat list \<Rightarrow> string list \<Rightarrow> (string \<times> int) option result" where
  "receiver_main entry code pid show_set early late argv =
     (let h = called entry code;
          k0 = fold (\<lambda>n. set_action n (stored_action code)) [1..<NSIG] (at_start (Some \<lparr>sigCnt = replicate NSIG 0, gotSigint = False\<rparr>));
          head = argv ! 0 @ '': PID is '' @ dec_int pid @ [newline];
          asleep = (if length argv > 1
            then rbind (getInt (Some (argv ! 1)) GN_GT_0 None) (\<lambda>numSecs.
              let k1 = fold (send h) early (set_mask h UNIV k0);
                  out = argv ! 0 @ '': sleeping for '' @ dec_int numSecs @ '' seconds'' @ [newline] @
                    argv ! 0 @ '': pending signals are: '' @ [newline] @ show_set [CHR 0x09, CHR 0x09] (sent k1) in
              Inr (out, set_mask h {} k1))
            else Inr ([], k0)) in
      rbind asleep (\<lambda>(out, k2). receiver_end (argv ! 0) (head @ out) (wait_sigint h late k2)))"

section \<open>A blocked signal\<close>

text \<open>\<open>20-2\<close>: the handler writes \<open>hh\<close>; whether \<open>SIGINT\<close> is sent during each of the two sleeps is an argument.\<close>

definition say :: "string \<Rightarrow> string sigs \<Rightarrow> string sigs" where
  "say t k = k\<lparr>data := data k @ t\<rparr>"

definition hh_handler :: "nat \<Rightarrow> string \<Rightarrow> string" where
  "hh_handler sig out = out @ ''hh'' @ [newline]"

definition sig_ign_main :: "bool \<Rightarrow> bool \<Rightarrow> string sigs" where
  "sig_ign_main first second =
     (let k = set_mask hh_handler UNIV (set_action SIGINT Handler (at_start []));
          k = say (''Now we block all the signals for 5 seconds'' @ [newline]) k;
          k = (if first then send hh_handler SIGINT k else k);
          k = say (''Now we unlock the signals and you should get an hh'' @ [newline]) (set_mask hh_handler {} k);
          k = say (''And we block signals for 5 seconds again'' @ [newline]) (set_mask hh_handler UNIV k);
          k = (if second then send hh_handler SIGINT k else k);
          k = set_mask hh_handler {} (set_action SIGINT Ignore k) in
      say ''We set SIG_IGN for SIGINT and you won't get another hh'' k)"

text \<open>\<open>27-6\<close>: the child ends, and is waited for, while \<open>SIGCHLD\<close> is blocked.\<close>

definition hello_handler :: "nat \<Rightarrow> string \<Rightarrow> string" where
  "hello_handler sig out = out @ ''hello'' @ [newline]"

definition sigchld_main :: "bool \<Rightarrow> bool \<Rightarrow> string sigs result" where
  "sigchld_main fork_ok wait_ok =
     (let k = set_action SIGCHLD Handler (set_mask hello_handler {SIGCHLD} (at_start [])) in
      if \<not> fork_ok then Inl (stop_with ''fork'')
      else let k = send hello_handler SIGCHLD k in
      if \<not> wait_ok then Inl (stop_with ''wait'') else Inr (set_mask hello_handler {} k))"

text \<open>\<open>22-1\<close>: each round of the loop says whether \<open>SIGCONT\<close> is sent during it and shows the value of \<open>tag\<close>.  In the tenth round the
  signal is unblocked.\<close>

definition tag_handler :: "nat \<Rightarrow> int \<Rightarrow> int" where "tag_handler sig tag = 0"

fun sigcont_loop :: "bool list \<Rightarrow> nat \<Rightarrow> int sigs \<Rightarrow> int list" where
  "sigcont_loop [] cnt k = []"
| "sigcont_loop (cont # rest) cnt k =
     (let k = (if cont then send tag_handler SIGCONT k else k); cnt = cnt + 1 in
      data k # sigcont_loop rest cnt (if cnt = 10 then set_mask tag_handler {} k else k))"

definition sigcont_main :: "bool list \<Rightarrow> int list" where
  "sigcont_main rounds = sigcont_loop rounds 0 (set_action SIGCONT Handler (set_mask tag_handler {SIGCONT} (at_start 10086)))"


section \<open>Library routines\<close>

text \<open>\<open>abort\<close> of \<open>21-1\<close>, with a handler that returns, if there is one.\<close>

partial_function (option) my_abort :: "(nat \<Rightarrow> 'a \<Rightarrow> 'a) \<Rightarrow> 'a sigs \<Rightarrow> 'a sigs option" where
  "my_abort h k = (let k1 = send h SIGABRT k in
     if killed_by k1 \<noteq> None then Some k1 else my_abort h (set_action SIGABRT Default k1))"

text \<open>\<open>m_siginterrupt\<close> of \<open>20-4\<close> on the flags of a signal's action; the two calls of \<open>sigaction\<close> may fail.\<close>

definition SA_RESTART :: "32 word" where "SA_RESTART = 0x10000000"

definition m_siginterrupt :: "bool \<Rightarrow> bool \<Rightarrow> bool \<Rightarrow> 32 word \<Rightarrow> int \<times> 32 word" where
  "m_siginterrupt get_ok set_ok flag sa_flags =
     (if \<not> get_ok then (-1, sa_flags)
      else let new = (if flag then sa_flags OR SA_RESTART else sa_flags AND NOT SA_RESTART) in
      if \<not> set_ok then (-1, sa_flags) else (0, new))"

section \<open>Signals that are not counted\<close>

lemma count_insort: "count_list (insort x xs) n = count_list (x # xs) n"
  by (induction xs) auto

lemma count_sort: "count_list (sort xs) n = count_list xs n"
  by (induction xs) (auto simp: count_insort)

text \<open>A signal that the program gets and that it can handle.\<close>

definition catchable :: "nat \<Rightarrow> bool" where
  "catchable sig \<longleftrightarrow> 1 \<le> sig \<and> sig < NSIG \<and> sig \<noteq> SIGKILL \<and> sig \<noteq> SIGSTOP"

definition all_do :: "disposition \<Rightarrow> 'a sigs \<Rightarrow> bool" where
  "all_do d k \<longleftrightarrow> (\<forall>sig. catchable sig \<longrightarrow> disposition k sig = d) \<and> (d \<noteq> Default \<longrightarrow> killed_by k = None)"

text \<open>What is pending after the signals of a list were sent to a process that blocks them.\<close>

fun pending_after :: "nat list \<Rightarrow> nat list \<Rightarrow> nat list" where
  "pending_after [] l = l"
| "pending_after (s # ss) l = pending_after ss (if s < SIGRTMIN \<and> s \<in> set l then l else l @ [s])"

lemma fold_send_blocked:
  "blocked k = UNIV \<Longrightarrow> \<forall>s\<in>set ss. catchable s \<Longrightarrow> fold (send h) ss k = k\<lparr>sent := pending_after ss (sent k)\<rparr>"
  by (induction ss arbitrary: k) (auto simp: send_def catchable_def)

lemma set_pending_after: "set (pending_after ss l) = set ss \<union> set l"
  by (induction ss arbitrary: l) auto

lemma count_pending_after:
  "count_list (pending_after ss l) n = (if n < SIGRTMIN then max (count_list l n) (min 1 (count_list l n + count_list ss n))
     else count_list l n + count_list ss n)"
proof (induction ss arbitrary: l)
  case (Cons s ss)
  have "s \<in> set l \<Longrightarrow> 1 \<le> count_list l s" by (metis One_nat_def Suc_leI count_list_0_iff neq0_conv)
  moreover have "s \<notin> set l \<Longrightarrow> count_list l s = 0" by simp
  ultimately show ?case using Cons.IH by (cases "s \<in> set l") (auto simp: max_def min_def)
qed (auto simp: max_def min_def)

lemma fold_set_action:
  "d \<noteq> Ignore \<or> sent k = [] \<Longrightarrow> fold (\<lambda>n. set_action n d) ns k =
     k\<lparr>disposition := (\<lambda>s. if s \<in> set ns \<and> s \<noteq> SIGKILL \<and> s \<noteq> SIGSTOP then d else disposition k s)\<rparr>"
  by (induction ns arbitrary: k) (auto simp: set_action_def fun_eq_iff)

text \<open>The first of these signals that ends a process which does nothing about it.\<close>

definition first_deadly :: "nat list \<Rightarrow> nat option" where
  "first_deadly ss = (case filter (\<lambda>s. \<not> harmless s) ss of [] \<Rightarrow> None | s # _ \<Rightarrow> Some s)"

lemma first_deadly_simps [simp]:
  "first_deadly [] = None" "first_deadly (s # ss) = (if harmless s then first_deadly ss else Some s)"
  by (simp_all add: first_deadly_def)

lemma first_deadly_append: "first_deadly (xs @ ys) = (case first_deadly xs of None \<Rightarrow> first_deadly ys | Some s \<Rightarrow> Some s)"
  by (induction xs) auto

text \<open>The state after the delivery of signals for which no function is called that counts.\<close>

definition outcome :: "disposition \<Rightarrow> nat list \<Rightarrow> 'a option sigs \<Rightarrow> 'a option sigs" where
  "outcome d ss k = (case d of
     Ignore \<Rightarrow> k
   | Default \<Rightarrow> if killed_by k \<noteq> None then k else k\<lparr>killed_by := first_deadly ss\<rparr>
   | Handler \<Rightarrow> if ss = [] then k else k\<lparr>data := None\<rparr>)"

lemma outcome_step:
  "all_do d k \<Longrightarrow> catchable s \<Longrightarrow> outcome d ss (deliver (\<lambda>sig v. None) s k) = outcome d (s # ss) k \<and> all_do d (deliver (\<lambda>sig v. None) s k) \<and>
   blocked (deliver (\<lambda>sig v. None) s k) = blocked k"
  by (cases d) (auto simp: all_do_def deliver_def outcome_def)

lemma fold_outcome:
  "all_do d k \<Longrightarrow> \<forall>s\<in>set ss. catchable s \<Longrightarrow> fold (deliver (\<lambda>sig v. None)) ss k = outcome d ss k"
proof (induction ss arbitrary: k)
  case Nil
  then show ?case by (cases d) (auto simp: outcome_def)
next
  case (Cons s ss)
  then show ?case using outcome_step[of d k s ss] by simp
qed

lemma wait_outcome:
  "all_do d k \<Longrightarrow> \<forall>s\<in>set ss. catchable s \<Longrightarrow> blocked k = {} \<Longrightarrow> (case data k of None \<Rightarrow> d = Handler | Some v \<Rightarrow> \<not> gotSigint v) \<Longrightarrow>
   wait_sigint (\<lambda>sig v. None) ss k = outcome d ss k"
proof (induction ss arbitrary: k)
  case Nil
  then show ?case by (cases d) (auto simp: outcome_def)
next
  case (Cons s ss)
  let ?k = "deliver (\<lambda>sig v. None) s k"
  note st = outcome_step[OF Cons.prems(1), of s ss]
  show ?case
  proof (cases "data k = None \<or> killed_by k \<noteq> None")
    case True
    then have "outcome d (s # ss) k = k" using Cons.prems(1,4) by (cases d) (auto simp: outcome_def all_do_def)
    then show ?thesis using True by auto
  next
    case False
    then obtain v where v: "data k = Some v" "\<not> gotSigint v" "killed_by k = None" using Cons.prems(4) by auto
    have "case data ?k of None \<Rightarrow> d = Handler | Some v \<Rightarrow> \<not> gotSigint v"
      using v Cons.prems(1,2) by (auto simp: deliver_def all_do_def split: disposition.splits)
    then have "wait_sigint (\<lambda>sig v. None) ss ?k = outcome d ss ?k" using Cons.IH[of ?k] st Cons.prems(2,3) by simp
    moreover have "send (\<lambda>sig v. None) s k = ?k" using Cons.prems(3) by (simp add: send_def)
    ultimately show ?thesis using v st Cons.prems(2) by simp
  qed
qed

text \<open>C18: because the calls of \<open>sigaction\<close> get the function itself for the structure, the program never counts a signal and never ends by
  itself, whatever the compiler made of the function: either the first word of its code happens to mean the default action, then the
  first signal that has a deadly one ends it; or to ignore signals; or the first signal that is delivered makes it jump to an
  address with no function.  (The word is not the address of the function, which alone would make the program work.)\<close>

theorem receiver_never_counts:
  assumes "code \<noteq> entry" and "\<forall>s\<in>set (early @ late). catchable s" and "getInt (Some secs) GN_GT_0 None = Inr numSecs"
    and "arrived = sort (pending_after early []) @ late"
  shows "receiver_main entry code pid show_set early late [prog, secs] =
    (if code = 0 then (case first_deadly arrived of None \<Rightarrow> Inr None | Some s \<Rightarrow> Inl (Exit (128 + int s) []))
     else if code = 1 \<or> arrived = [] then Inr None
     else Inl (Undefined WildCall))"
proof -
  let ?h = "(\<lambda>sig v. None) :: nat \<Rightarrow> counts option \<Rightarrow> counts option" and ?d = "stored_action code"
  let ?v0 = "\<lparr>sigCnt = replicate NSIG 0, gotSigint = False\<rparr>"
  have h: "called entry code = ?h" using assms(1) by (simp add: called_def fun_eq_iff)
  define k0 where "k0 = fold (\<lambda>n. set_action n ?d) [1..<NSIG] (at_start (Some ?v0))"
  have k0: "all_do ?d k0" "data k0 = Some ?v0" "sent k0 = []" "killed_by k0 = None"
    by (auto simp: k0_def fold_set_action all_do_def catchable_def at_start_def)
  let ?m = "set_mask ?h UNIV k0" and ?p = "pending_after early []"
  have m: "?m = k0\<lparr>blocked := UNIV, sent := []\<rparr>" by (simp add: set_mask_def k0(3))
  have k1: "fold (send ?h) early ?m = k0\<lparr>blocked := UNIV, sent := ?p\<rparr>"
    unfolding m using assms(2) by (subst fold_send_blocked) auto
  let ?k = "k0\<lparr>blocked := {}, sent := []\<rparr>"
  have k: "all_do ?d ?k" using k0(1) by (simp add: all_do_def)
  define k2 where "k2 = set_mask ?h {} (k0\<lparr>blocked := UNIV, sent := ?p\<rparr>)"
  have p: "\<forall>s\<in>set (sort ?p). catchable s" using assms(2) by (auto simp: set_pending_after)
  have k2: "k2 = outcome ?d (sort ?p) ?k" unfolding k2_def set_mask_def using fold_outcome[OF k p] by simp
  have "all_do ?d k2" "blocked k2 = {}" "case data k2 of None \<Rightarrow> ?d = Handler | Some v \<Rightarrow> \<not> gotSigint v"
    using k k0(2) by (cases ?d; auto simp: k2 outcome_def all_do_def split: if_splits)+
  then have w: "wait_sigint ?h late k2 = outcome ?d late k2" using wait_outcome assms(2) by simp
  have "\<exists>out. receiver_main entry code pid show_set early late [prog, secs] = receiver_end prog out (outcome ?d late k2)"
    using assms(3) by (simp add: receiver_main_def h k0_def[symmetric, unfolded One_nat_def] k1 k2_def[symmetric] w Let_def del: upt_Suc) blast
  then obtain out where r: "receiver_main entry code pid show_set early late [prog, secs] = receiver_end prog out (outcome ?d late k2)" by blast
  show ?thesis
    unfolding r k2 assms(4) receiver_end_def using k0(2,4)
    by (auto simp: stored_action_def outcome_def first_deadly_append split: option.splits)
qed

theorem receiver_never_counts_witness:
  "receiver_main 0x401000 0xe5894855fa1e0ff3 7 (\<lambda>tabs l. []) [10, 10, 2] [12] [''r'', ''5''] = Inl (Undefined WildCall) \<and>
   receiver_main 0x401000 0 7 (\<lambda>tabs l. []) [17] [18, 12] [''r'', ''5''] = Inl (Exit 140 [])"
proof -
  have g: "getInt (Some ''5'') GN_GT_0 None = Inr 5"
    by (simp add: getInt_def getNum_def strtol_eval base_of_def GN_GT_0_def GN_NONNEG_def GN_ANY_BASE_def GN_BASE_8_def GN_BASE_16_def)
  have c: "catchable 2" "catchable 10" "catchable 12" "catchable 17" "catchable 18"
    by (simp_all add: catchable_def NSIG_def signal_numbers)
  show ?thesis
    using receiver_never_counts[OF _ _ g refl, of "0xe5894855fa1e0ff3" "0x401000" "[10, 10, 2]" "[12]" 7 "\<lambda>tabs l. []" "''r''"]
      receiver_never_counts[OF _ _ g refl, of 0 "0x401000" "[17]" "[18, 12]" 7 "\<lambda>tabs l. []" "''r''"] c
    by (simp add: harmless_def)
qed

section \<open>The other programs\<close>

text \<open>The handler of \<open>20-2\<close> runs once if the signal was sent during the first sleep, and never for the second.\<close>

lemma sig_ign_output:
  "data (sig_ign_main first second) = ''Now we block all the signals for 5 seconds'' @ [newline] @
     (if first then ''hh'' @ [newline] else []) @
     ''Now we unlock the signals and you should get an hh'' @ [newline] @
     ''And we block signals for 5 seconds again'' @ [newline] @
     ''We set SIG_IGN for SIGINT and you won't get another hh''"
  by (cases first; cases second)
     (simp_all add: sig_ign_main_def set_mask_def set_action_def send_def deliver_def say_def hh_handler_def at_start_def signal_numbers)

lemma sigchld_after_wait: "\<exists>k. sigchld_main True True = Inr k \<and> data k = ''hello'' @ [newline] \<and> sent k = []"
  by (simp add: sigchld_main_def set_mask_def set_action_def send_def deliver_def hello_handler_def at_start_def signal_numbers)

lemma sigcont_blocked:
  "blocked k = {SIGCONT} \<Longrightarrow> data k = 10086 \<Longrightarrow> cnt < 10 \<Longrightarrow>
   take (10 - cnt) (sigcont_loop rounds cnt k) = replicate (min (10 - cnt) (length rounds)) 10086"
proof (induction rounds arbitrary: cnt k)
  case (Cons c rounds)
  have s: "send tag_handler SIGCONT k = (if SIGCONT \<in> set (sent k) then k else k\<lparr>sent := sent k @ [SIGCONT]\<rparr>)"
    using Cons.prems(1) by (simp add: send_def signal_numbers)
  obtain j where j: "10 - cnt = Suc j" using Cons.prems(3) by (metis Suc_diff_Suc)
  show ?case
  proof (cases "cnt = 9")
    case True
    then show ?thesis using Cons.prems s by (simp add: Let_def)
  next
    case False
    then have "cnt + 1 < 10" "10 - (cnt + 1) = j" using Cons.prems(3) j by auto
    then show ?thesis using Cons.IH[of _ "cnt + 1"] Cons.prems s j False by (simp add: Let_def)
  qed
qed simp

text \<open>The value changes at the end of the tenth round at the earliest.\<close>

lemma sigcont_ten_rounds: "take 10 (sigcont_main rounds) = replicate (min 10 (length rounds)) 10086"
  using sigcont_blocked[of "set_action SIGCONT Handler (set_mask tag_handler {SIGCONT} (at_start 10086))" 0 rounds]
  by (simp add: sigcont_main_def set_action_def set_mask_def at_start_def signal_numbers)

text \<open>\<open>abort\<close> ends the process whatever the disposition of the signal is, after the handler ran at most once; but if the signal is
  blocked it does not return and does not end the process either.\<close>

lemma abort_ends:
  assumes "SIGABRT \<notin> blocked k" and "killed_by k = None"
  shows "\<exists>k'. my_abort h k = Some k' \<and> killed_by k' = Some SIGABRT \<and>
    data k' = (if disposition k SIGABRT = Handler then h SIGABRT (data k) else data k)"
proof -
  have d: "my_abort h k = Some (k\<lparr>killed_by := Some SIGABRT\<rparr>)"
    if "SIGABRT \<notin> blocked k" "killed_by k = None" "disposition k SIGABRT = Default" for k
    using that by (subst my_abort.simps) (simp add: Let_def send_def deliver_def harmless_def signal_numbers)
  show ?thesis
  proof (cases "disposition k SIGABRT")
    case Default
    then show ?thesis using d assms by simp
  next
    case Ignore
    then have "my_abort h k = my_abort h (set_action SIGABRT Default k)"
      using assms by (subst my_abort.simps) (simp add: Let_def send_def deliver_def)
    then show ?thesis using d[of "set_action SIGABRT Default k"] assms Ignore by (simp add: set_action_def signal_numbers)
  next
    case Handler
    then have "my_abort h k = my_abort h (set_action SIGABRT Default (k\<lparr>data := h SIGABRT (data k)\<rparr>))"
      using assms by (subst my_abort.simps) (simp add: Let_def send_def deliver_def)
    then show ?thesis
      using d[of "set_action SIGABRT Default (k\<lparr>data := h SIGABRT (data k)\<rparr>)"] assms Handler
      by (simp add: set_action_def signal_numbers)
  qed
qed

lemma abort_returns:
  assumes "my_abort h k = Some r"
  shows "SIGABRT \<in> blocked k \<longrightarrow> killed_by k = None \<longrightarrow> False"
proof (rule my_abort.raw_induct[where P = "\<lambda>h k r. SIGABRT \<in> blocked k \<longrightarrow> killed_by k = None \<longrightarrow> False", OF _ assms], goal_cases)
  case (1 rec h k r)
  show ?case
  proof (intro impI)
    assume a: "SIGABRT \<in> blocked k" "killed_by k = None"
    let ?k = "set_action SIGABRT Default (send h SIGABRT k)"
    have k1: "SIGABRT \<in> blocked ?k" "killed_by ?k = None" "killed_by (send h SIGABRT k) = None"
      using a by (simp_all add: send_def set_action_def signal_numbers)
    then have "rec h ?k = Some r" using 1(2) by (simp add: Let_def)
    then show False using 1(1) k1 by blast
  qed
qed

lemma abort_blocked: "SIGABRT \<in> blocked k \<Longrightarrow> killed_by k = None \<Longrightarrow> my_abort h k = None"
  using abort_returns[of h k] by (cases "my_abort h k") blast+

text \<open>After \<open>m_siginterrupt\<close> with a true flag a system call that the signal interrupts is restarted.\<close>

lemma siginterrupt_flag: "bit (snd (m_siginterrupt True True flag fl)) 28 = flag"
  by (cases flag) (simp_all add: m_siginterrupt_def SA_RESTART_def bit_simps)

end
