(* ===== verification/Wait_Child.thy ===== *)
theory Wait_Child
  imports Error_Functions
begin

text \<open>
  \<open>26-3-use_waitid.c\<close>: a parent waits for what happens to its child with \<open>waitid\<close>.  The field \<open>si_status\<close> is the exit
  status or the number of a signal, not a status as \<open>wait\<close> gives it; the program treats it as both.
\<close>

section \<open>The program\<close>

datatype child_code = Cld_exited | Cld_killed | Cld_dumped | Cld_stopped | Cld_continued | Cld_trapped

text \<open>The macros of \<open>sys/wait.h\<close>.\<close>

definition WTERMSIG :: "32 word \<Rightarrow> 32 word" where "WTERMSIG st = st AND 0x7f"
definition WEXITSTATUS :: "32 word \<Rightarrow> 32 word" where "WEXITSTATUS st = drop_bit 8 (st AND 0xff00)"
definition WSTOPSIG :: "32 word \<Rightarrow> 32 word" where "WSTOPSIG st = WEXITSTATUS st"
definition WIFEXITED :: "32 word \<Rightarrow> bool" where "WIFEXITED st \<longleftrightarrow> WTERMSIG st = 0"
definition WIFSIGNALED :: "32 word \<Rightarrow> bool" where
  "WIFSIGNALED st \<longleftrightarrow> 0 < sint (signed_drop_bit 1 (ucast (WTERMSIG st + 1) :: 8 word))"

fun hex_nat :: "nat \<Rightarrow> string" where
  "hex_nat n = (if n < 16 then [''0123456789abcdef'' ! n] else hex_nat (n div 16) @ [''0123456789abcdef'' ! (n mod 16)])"

declare hex_nat.simps [simp del]

definition hex4 :: "nat \<Rightarrow> string" where
  "hex4 n = (let h = hex_nat n in replicate (4 - length h) CHR ''0'' @ h)"

text \<open>What is printed for one event.  \<open>waitid\<close> returns 0, which is shown as the process id.\<close>

definition waitid_text :: "(32 word \<Rightarrow> string) \<Rightarrow> child_code \<Rightarrow> 32 word \<Rightarrow> string" where
  "waitid_text strsignal code status =
     ''waitid() returned: PID='' @ dec_int 0 @ ''; status=0x'' @ hex4 (unat status) @ '' ('' @ dec_int (sint (signed_drop_bit 8 status)) @
       '','' @ dec_int (sint (status AND 0xff)) @ '')'' @ [newline] @
     (case code of
        Cld_exited \<Rightarrow> ''child exited, status='' @ dec_int (sint status) @ [newline]
      | Cld_killed \<Rightarrow> ''child killed by signal '' @ dec_int (sint (WTERMSIG status)) @ '' ('' @ strsignal status @ '')'' @ [newline]
      | Cld_stopped \<Rightarrow> ''child stopped by signal '' @ dec_int (sint (WSTOPSIG status)) @ '' ('' @ strsignal status @ '')'' @ [newline]
      | Cld_continued \<Rightarrow> ''child continued'' @ [newline]
      | Cld_dumped \<Rightarrow> ''what happened to this child? (status='' @ hex_nat (unat status) @ '')'' @ [newline]
      | Cld_trapped \<Rightarrow> ''what happened to this child? (status='' @ hex_nat (unat status) @ '')'' @ [newline])"

text \<open>The parent, over what the calls of \<open>waitid\<close> give; \<open>None\<close> in the list is a call that fails, \<open>None\<close> as a result a wait that goes on.\<close>

fun wait_loop :: "(32 word \<Rightarrow> string) \<Rightarrow> (child_code \<times> 32 word) option list \<Rightarrow> string \<Rightarrow> (string \<times> stop) option" where
  "wait_loop strsignal [] out = None"
| "wait_loop strsignal (None # es) out = Some (out, stop_with ''waitid'')"
| "wait_loop strsignal (Some (code, status) # es) out =
     (let out = out @ waitid_text strsignal code status in
      if WIFEXITED status \<or> WIFSIGNALED status then Some (out, Exit EXIT_SUCCESS [])
      else wait_loop strsignal es out)"

text \<open>The child: it ends with the number that is given, or waits for signals (\<open>None\<close>).\<close>

definition wait_child :: "int \<Rightarrow> string list \<Rightarrow> string \<times> stop option" where
  "wait_child pid argv =
     (''Child started with PID = '' @ dec_int pid @ [newline],
      if length argv > 1 then Some (case getInt (Some (argv ! 1)) 0 (Some ''exit-status'') of Inl e \<Rightarrow> e | Inr n \<Rightarrow> Exit n [])
      else None)"

definition waitid_main ::
    "int \<Rightarrow> int \<Rightarrow> (32 word \<Rightarrow> string) \<Rightarrow> (child_code \<times> 32 word) option list \<Rightarrow> string list \<Rightarrow> (string \<times> stop) option" where
  "waitid_main fork_result pid strsignal events argv =
     (if length argv > 1 \<and> strcmp (argv ! 1) ''--help'' = 0 then Some ([], stop_with (argv ! 0 @ '' [exit-status]'' @ [newline]))
      else if fork_result = -1 then Some ([], stop_with ''fork'')
      else if fork_result = 0 then (case wait_child pid argv of (out, Some e) \<Rightarrow> Some (out, e) | (out, None) \<Rightarrow> None)
      else wait_loop strsignal events [])"

section \<open>When the parent ends\<close>

lemma WTERMSIG_le: "WTERMSIG st \<le> 0x7f"
  unfolding WTERMSIG_def by (rule word_and_le1)

lemma sint_of_byte: "uint (w :: 8 word) < 128 \<Longrightarrow> sint w = uint w"
  by (simp add: sint_uint signed_take_bit_int_eq_self_iff order_trans[of "- 128" 0])

lemma sint_byte: "n < 127 \<Longrightarrow> sint (ucast (word_of_nat n + 1 :: 32 word) :: 8 word) = int n + 1"
proof -
  assume n: "n < 127"
  have "uint (ucast (word_of_nat n + 1 :: 32 word) :: 8 word) = int n + 1"
    using n by (simp add: uint_word_ariths take_bit_eq_mod unsigned_ucast_eq unsigned_of_nat uint_word_arith_bintrs)
  then show ?thesis using n by (simp add: sint_of_byte)
qed

lemma WIFSIGNALED_iff: "WIFSIGNALED st \<longleftrightarrow> WTERMSIG st \<noteq> 0 \<and> WTERMSIG st \<noteq> 0x7f"
proof -
  define n where "n = unat (WTERMSIG st)"
  have w: "WTERMSIG st = word_of_nat n" by (simp add: n_def)
  have "n \<le> unat (0x7f :: 32 word)" using WTERMSIG_le[of st] unfolding n_def word_le_nat_alt .
  then have "n < 127 \<or> n = 127" by auto
  then show ?thesis
  proof
    assume n: "n < 127"
    then have "WIFSIGNALED st \<longleftrightarrow> 0 < (int n + 1) div 2"
      unfolding WIFSIGNALED_def w sint_signed_drop_bit_eq sint_byte[OF n] by (simp add: drop_bit_eq_div)
    moreover have "WTERMSIG st = 0 \<longleftrightarrow> n = 0" by (simp add: n_def unat_eq_zero)
    moreover have "WTERMSIG st \<noteq> 0x7f" using n by (auto simp: n_def)
    ultimately show ?thesis using n by auto
  next
    assume "n = 127"
    then have "WTERMSIG st = 0x7f" by (simp add: w)
    then show ?thesis by (simp add: WIFSIGNALED_def)
  qed
qed

text \<open>The loop ends with the first event unless the low seven bits of the status are all ones.\<close>

lemma ends_iff: "WIFEXITED st \<or> WIFSIGNALED st \<longleftrightarrow> WTERMSIG st \<noteq> 0x7f"
  unfolding WIFSIGNALED_iff WIFEXITED_def by auto

text \<open>The numbers of the signals that stop or continue a child, and most exit statuses.\<close>

lemma first_event_ends:
  assumes "WTERMSIG status \<noteq> 0x7f"
  shows "wait_loop strsignal (Some (code, status) # es) out = Some (out @ waitid_text strsignal code status, Exit EXIT_SUCCESS [])"
  using assms ends_iff[of status] by (simp add: Let_def)

lemma stopped_child_ends_parent:
  "waitid_main 1 pid strsignal (Some (Cld_stopped, 19) # es) [prog]
     = Some (waitid_text strsignal Cld_stopped 19, Exit EXIT_SUCCESS [])"
  using first_event_ends[of 19 strsignal Cld_stopped es "[]"] by (simp add: waitid_main_def WTERMSIG_def)

text \<open>An exit status of 127 or 255 is not taken for an end: the next wait fails.\<close>

lemma exit_127_not_seen:
  assumes "status = 127 \<or> status = 255"
  shows "waitid_main 1 pid strsignal [Some (Cld_exited, status), None] [prog]
     = Some (waitid_text strsignal Cld_exited status, stop_with ''waitid'')"
  using assms ends_iff[of status] by (auto simp: waitid_main_def Let_def WTERMSIG_def)

end
