(* ===== verification/Seqnum_Signal.thy ===== *)
theory Seqnum_Signal
  imports Seqnum_Server
begin

text \<open>
  \<open>44-4-changed_server_with_sig.c\<close>: the server of sequence numbers without the file, but with a handler for \<open>SIGINT\<close> and \<open>SIGTERM\<close>
  that removes the server's FIFO.  The requests are those of \<open>Seqnum_Server\<close>.
\<close>

datatype seq_event = Request seq_read | Terminate      \<comment> \<open>\<open>SIGINT\<close> or \<open>SIGTERM\<close>\<close>

record seq_server =
  sv_num :: int
  sv_responses :: "(int \<times> int) list"
  sv_fifo :: bool                 \<comment> \<open>whether the FIFO of the server exists\<close>

definition seq_handler :: "seq_server \<Rightarrow> seq_server \<times> stop" where
  "seq_handler sv = (sv\<lparr>sv_fifo := False\<rparr>, Exit EXIT_SUCCESS [])"

definition serve :: "seq_read \<Rightarrow> seq_server \<Rightarrow> seq_server \<times> stop option" where
  "serve r sv = (case r of Short_read \<Rightarrow> (sv, None)
     | Whole_read req \<Rightarrow>
         if \<not> fifo_opens req then (sv, None)
         else let sv1 = (if resp_written req then sv\<lparr>sv_responses := sv_responses sv @ [(req_pid req, sv_num sv)]\<rparr> else sv);
                  n = sv_num sv + seqLen req in
           if n < INT_MIN \<or> INT_MAX < n then (sv1, Some (Undefined SignedOverflow)) else (sv1\<lparr>sv_num := n\<rparr>, None))"

text \<open>\<open>None\<close> is a server that is still waiting.\<close>

fun serve_loop :: "seq_event list \<Rightarrow> seq_server \<Rightarrow> seq_server \<times> stop option" where
  "serve_loop [] sv = (sv, None)"
| "serve_loop (Terminate # es) sv = (let (sv, e) = seq_handler sv in (sv, Some e))"
| "serve_loop (Request r # es) sv = (case serve r sv of (sv, Some e) \<Rightarrow> (sv, Some e) | (sv, None) \<Rightarrow> serve_loop es sv)"

text \<open>The calls are those of \<open>seq_calls\<close>, without the file.  The handlers are there before the FIFO is opened, which waits for a client: a signal that ends the program there is the first
  event.  \<open>existed\<close> tells whether there was a FIFO before.\<close>

definition serve_main :: "bool \<Rightarrow> seq_calls \<Rightarrow> string \<Rightarrow> seq_event list \<Rightarrow> seq_server \<times> stop option" where
  "serve_main existed env fifo_name events =
     (let sv = \<lparr>sv_num = 0, sv_responses = [], sv_fifo = existed\<rparr> in
      if \<not> mkfifo_ok env then (sv, Some (stop_with (''mkfifo '' @ fifo_name)))
      else let sv = sv\<lparr>sv_fifo := True\<rparr> in
      if events \<noteq> [] \<and> hd events = Terminate then serve_loop events sv
      else if \<not> server_opens env then (sv, Some (stop_with (''open '' @ fifo_name)))
      else if \<not> dummy_opens env then (sv, Some (stop_with (''open '' @ fifo_name)))
      else if \<not> signal_ok env then (sv, Some (stop_with ''signal''))
      else serve_loop events sv)"

section \<open>The two servers\<close>

lemma serve_step:
  assumes "seq_step r st = Inr st'" and "sv_num sv = seqNum st" and "sv_responses sv = log @ responses st"
  shows "\<exists>sv'. serve r sv = (sv', None) \<and> sv_num sv' = seqNum st' \<and> sv_responses sv' = log @ responses st' \<and> sv_fifo sv' = sv_fifo sv"
  using assms by (cases r) (auto simp: seq_step_def serve_def Let_def split: if_splits)

lemma serve_requests:
  assumes "seq_loop rs st = Inr st'" and "sv_num sv = seqNum st" and "sv_responses sv = responses st"
  shows "serve_loop (map Request rs @ es) sv =
    serve_loop es \<lparr>sv_num = seqNum st', sv_responses = responses st', sv_fifo = sv_fifo sv\<rparr>"
  using assms
proof (induction rs arbitrary: st sv)
  case Nil
  then show ?case by (cases sv) simp
next
  case (Cons r rs)
  obtain st1 where st1: "seq_step r st = Inr st1" "seq_loop rs st1 = Inr st'" using Cons.prems(1) by auto
  obtain sv1 where "serve r sv = (sv1, None)" "sv_num sv1 = seqNum st1" "sv_responses sv1 = responses st1" "sv_fifo sv1 = sv_fifo sv"
    using serve_step[OF st1(1) Cons.prems(2), of "[]"] Cons.prems(3) by auto
  then show ?case using Cons.IH[OF st1(2)] by simp
qed

text \<open>C23: until it gets a signal the server answers as the server with the file does that starts from an empty one; the signal then
  removes its FIFO and ends it successfully, and what comes later is not answered.\<close>

theorem signal_server_agrees:
  assumes "seq_main calls_ok name [] rs = Inr st"
  shows "serve_main existed calls_ok name (map Request rs @ Terminate # es) =
    (\<lparr>sv_num = seqNum st, sv_responses = responses st, sv_fifo = False\<rparr>, Some (Exit EXIT_SUCCESS []))"
proof -
  let ?st0 = "\<lparr>seqNum = 0, conf = [], conf_at = 0, responses = []\<rparr>" and ?sv0 = "\<lparr>sv_num = 0, sv_responses = [], sv_fifo = True\<rparr>"
  have "seq_loop rs ?st0 = Inr st" using assms by (simp add: seq_main_def calls_ok_def seq_load_def of_le_bytes_def le_bytes_def)
  from serve_requests[OF this, of ?sv0 "Terminate # es"] have
    "serve_loop (map Request rs @ Terminate # es) ?sv0 =
      (\<lparr>sv_num = seqNum st, sv_responses = responses st, sv_fifo = False\<rparr>, Some (Exit EXIT_SUCCESS []))"
    by (simp add: seq_handler_def)
  then show ?thesis by (simp add: serve_main_def calls_ok_def Let_def)
qed

theorem signal_server_agrees_witness:
  "serve_main False calls_ok [] [Request (demo_request 7 10), Terminate]
    = (\<lparr>sv_num = 10, sv_responses = [(7, 0)], sv_fifo = False\<rparr>, Some (Exit EXIT_SUCCESS []))"
proof -
  have "seq_load [] = 0" by (simp add: seq_load_def of_le_bytes_def le_bytes_def)
  moreover have "le_bytes w \<noteq> []" for w by (simp add: le_bytes_def)
  ultimately have "seq_main calls_ok [] [] [demo_request 7 10] =
      Inr \<lparr>seqNum = 10, conf = le_bytes 10, conf_at = 4, responses = [(7, 0)]\<rparr>"
    by (simp add: seq_main_def calls_ok_def seq_step_def demo_request_def put_bytes_def Let_def)
  from signal_server_agrees[OF this, of False "[]"] show ?thesis by simp
qed

text \<open>A start that fails after \<open>mkfifo\<close> leaves the FIFO behind.\<close>

lemma failed_start_leaves_fifo:
  assumes "\<not> (events \<noteq> [] \<and> hd events = Terminate)" and "mkfifo_ok env" and "\<not> server_opens env"
  shows "sv_fifo (fst (serve_main existed env name events))"
  using assms by (auto simp: serve_main_def)

end
