(* ===== verification/Login_Records.thy ===== *)
theory Login_Records
  imports Error_Functions
begin

text \<open>
  The programs that write and read the login files: \<open>40-2-changed_utmpx_login.c\<close>, \<open>40-3-my_logs.c\<close> and \<open>40-4-my_who.c\<close>.  A field of
  characters is the list of all its bytes: \<open>strncpy\<close> fills it with null bytes, or leaves it without one.
\<close>

section \<open>The login files\<close>

record utmpx =
  ut_type :: int
  ut_pid :: int
  ut_line :: string       \<comment> \<open>32 bytes\<close>
  ut_id :: string         \<comment> \<open>4 bytes\<close>
  ut_user :: string       \<comment> \<open>32 bytes\<close>
  ut_host :: string       \<comment> \<open>256 bytes\<close>
  ut_sec :: int

record lastlog =
  ll_time :: int
  ll_line :: string
  ll_host :: string

record login_files =
  utmp :: "utmpx list"
  wtmp :: "utmpx list"
  lastlogs :: "int \<rightharpoonup> lastlog"        \<comment> \<open>by user id\<close>

definition INIT_PROCESS :: int where "INIT_PROCESS = 5"
definition LOGIN_PROCESS :: int where "LOGIN_PROCESS = 6"
definition USER_PROCESS :: int where "USER_PROCESS = 7"
definition DEAD_PROCESS :: int where "DEAD_PROCESS = 8"

lemmas ut_types = INIT_PROCESS_def LOGIN_PROCESS_def USER_PROCESS_def DEAD_PROCESS_def

text \<open>\<open>pututxline\<close> of a record for a process, behind \<open>setutxent\<close>: it replaces the first record for a process with the same id, or
  is appended.  Ids are compared as strings of at most four bytes.\<close>

definition for_process :: "utmpx \<Rightarrow> bool" where
  "for_process u \<longleftrightarrow> ut_type u \<in> {INIT_PROCESS, LOGIN_PROCESS, USER_PROCESS, DEAD_PROCESS}"

definition same_id :: "utmpx \<Rightarrow> utmpx \<Rightarrow> bool" where
  "same_id u v \<longleftrightarrow> for_process v \<and> c_str (ut_id u) = c_str (ut_id v)"

fun pututxline :: "utmpx \<Rightarrow> utmpx list \<Rightarrow> utmpx list" where
  "pututxline u [] = [u]"
| "pututxline u (v # vs) = (if same_id u v then u # vs else v # pututxline u vs)"

text \<open>\<open>getutxline\<close>: the first record of a user or a login process with the same terminal.\<close>

definition getutxline :: "string \<Rightarrow> utmpx list \<Rightarrow> utmpx option" where
  "getutxline tty us = List.find (\<lambda>u. ut_type u \<in> {LOGIN_PROCESS, USER_PROCESS} \<and> c_str (ut_line u) = c_str tty) us"

section \<open>Logging in and out\<close>

definition zero_utmpx :: utmpx where
  "zero_utmpx = \<lparr>ut_type = 0, ut_pid = 0, ut_line = strncpy [] 32, ut_id = strncpy [] 4, ut_user = strncpy [] 32,
     ut_host = strncpy [] 256, ut_sec = 0\<rparr>"

record login_calls =
  time_login :: "int option"           \<comment> \<open>\<open>None\<close>: the call fails\<close>
  time_logout :: int
  getpid :: int
  ttyname :: "string option"
  put_login_ok :: bool
  put_logout_ok :: bool
  lastlog_opens :: bool
  userIdFromName :: "string \<Rightarrow> int"    \<comment> \<open>of \<open>ugid_functions\<close>; -1 for a name that is not known\<close>
  lseek_ok :: bool
  write_ok :: bool                     \<comment> \<open>on the descriptor that \<open>open\<close> gave\<close>

definition login_record :: "login_calls \<Rightarrow> string \<Rightarrow> int \<Rightarrow> string \<Rightarrow> utmpx" where
  "login_record env user now devName =
     zero_utmpx\<lparr>ut_type := USER_PROCESS, ut_user := strncpy user 32, ut_sec := now, ut_pid := getpid env,
       ut_line := strncpy (drop 5 devName) 32, ut_id := strncpy (drop 8 devName) 4\<rparr>"

definition logout_record :: "login_calls \<Rightarrow> utmpx \<Rightarrow> utmpx" where
  "logout_record env ut = ut\<lparr>ut_type := DEAD_PROCESS, ut_sec := time_logout env, ut_user := strncpy [] 32\<rparr>"

text \<open>The record of the last login.  Its time and the rest of \<open>ll_host\<close> are not looked at.\<close>

definition last_record :: "login_calls \<Rightarrow> utmpx \<Rightarrow> lastlog" where
  "last_record env ut = \<lparr>ll_time = time_logout env, ll_line = strncpy (c_str (ut_line ut)) 32, ll_host = strncpy (c_str (ut_user ut)) 32\<rparr>"

definition write_lastlog :: "login_calls \<Rightarrow> utmpx \<Rightarrow> login_files \<Rightarrow> login_files \<times> stop" where
  "write_lastlog env ut f =
     (let llog = last_record env ut in
      if \<not> lastlog_opens env then (f, stop_with ''open'')
      else let id = userIdFromName env (c_str (ll_host llog)) in
      if id = -1 then (f, stop_with ''userIdFromName'')
      else if \<not> lseek_ok env then (f, stop_with ''lseek'')
      else if \<not> write_ok env then (f, stop_with ''write'')
      else (f\<lparr>lastlogs := (lastlogs f)(id \<mapsto> llog)\<rparr>, Exit EXIT_SUCCESS []))"

definition logout_part :: "login_calls \<Rightarrow> utmpx \<Rightarrow> login_files \<Rightarrow> login_files \<times> stop" where
  "logout_part env ut f =
     (let ut = logout_record env ut in
      if \<not> put_logout_ok env then (f, stop_with ''pututxline'')
      else write_lastlog env ut (f\<lparr>utmp := pututxline ut (utmp f), wtmp := wtmp f @ [ut]\<rparr>))"

definition login_main :: "login_calls \<Rightarrow> string list \<Rightarrow> login_files \<Rightarrow> login_files \<times> stop" where
  "login_main env argv f =
     (if length argv < 2 \<or> strcmp (argv ! 1) ''--help'' = 0
      then (f, stop_with (argv ! 0 @ '' username [sleep-time]'' @ [newline]))
      else case time_login env of None \<Rightarrow> (f, stop_with ''time'') | Some now \<Rightarrow>
      (case ttyname env of None \<Rightarrow> (f, stop_with ''ttyname'') | Some devName \<Rightarrow>
        if length devName \<le> 8 then (f, stop_with (''Terminal name is too short: '' @ devName))
        else let ut = login_record env (argv ! 1) now devName in
        if \<not> put_login_ok env then (f, stop_with ''pututxline'')
        else let f = f\<lparr>utmp := pututxline ut (utmp f), wtmp := wtmp f @ [ut]\<rparr> in
        (case (if length argv > 2 then getInt (Some (argv ! 2)) GN_NONNEG (Some ''sleep-time'') else Inr 15) of
          Inl e \<Rightarrow> (f, e)
        | Inr secs \<Rightarrow> logout_part env ut f)))"

section \<open>The library functions\<close>

text \<open>\<open>my_login\<close> passes the address of its parameter, a pointer, where the record is expected.\<close>

definition my_login :: "utmpx \<Rightarrow> login_files \<Rightarrow> login_files result" where
  "my_login ut f = Inl (Undefined OutOfBounds)"

definition my_logout :: "bool \<Rightarrow> int \<Rightarrow> string \<Rightarrow> login_files \<Rightarrow> (int \<times> login_files) result" where
  "my_logout put_ok now tty f = (case getutxline (strncpy tty 32) (utmp f) of
     None \<Rightarrow> Inl (Undefined NullDeref)
   | Some rec \<Rightarrow>
       let ut = rec\<lparr>ut_type := DEAD_PROCESS, ut_sec := now, ut_user := strncpy [] 32\<rparr> in
       if \<not> put_ok then Inr (-1, f) else Inr (0, f\<lparr>utmp := pututxline ut (utmp f)\<rparr>))"

text \<open>The record of \<open>my_logwtmp\<close> is not initialised: the fields that are not set are \<open>garbage\<close>.\<close>

definition my_logwtmp :: "utmpx \<Rightarrow> int \<Rightarrow> int \<Rightarrow> string \<Rightarrow> string \<Rightarrow> string \<Rightarrow> login_files \<Rightarrow> login_files" where
  "my_logwtmp garbage pid now tty user host f = f\<lparr>wtmp := wtmp f @ [garbage\<lparr>ut_line := strncpy tty 32, ut_user := strncpy user 32,
     ut_host := strncpy host 256, ut_pid := pid, ut_sec := now\<rparr>]\<rparr>"

definition who_main :: "string option \<Rightarrow> (int \<Rightarrow> string) \<Rightarrow> login_files \<Rightarrow> string result" where
  "who_main tty ctime f = (case tty of None \<Rightarrow> Inl (stop_with ''ttyname'')
   | Some t \<Rightarrow> (case getutxline (strncpy t 32) (utmp f) of None \<Rightarrow> Inl (stop_with ''getutxline'')
     | Some rec \<Rightarrow> Inr (c_str (ut_user rec) @ '' '' @ c_str (ut_line rec) @ '' '' @ ctime (ut_sec rec) @ [newline])))"


section \<open>What is recorded\<close>

text \<open>A record of the same terminal replaces the one that was put before.\<close>

lemma pututxline_twice:
  assumes "for_process u" and "c_str (ut_id u) = c_str (ut_id v)"
  shows "pututxline v (pututxline u us) = pututxline v us"
proof -
  have "same_id v u" and "same_id u w = same_id v w" for w using assms by (simp_all add: same_id_def)
  then show ?thesis by (induction us) auto
qed

text \<open>C25: a login from a terminal writes the login and the logout into both files, and ends with the terminal's entry dead and without
  a name; but the record of the last login is looked up under the name that the logout cleared, so that the program fails
  there and \<open>lastlog\<close> is never written.\<close>

theorem login_leaves_no_lastlog:
  assumes "time_login env = Some now" and "ttyname env = Some dev" and "8 < length dev"
    and "put_login_ok env" and "put_logout_ok env" and "lastlog_opens env" and "userIdFromName env [] = -1"
    and "strcmp user ''--help'' \<noteq> 0"
  shows "login_main env [prog, user] f =
    (let u = login_record env user now dev; v = logout_record env u in
     (f\<lparr>utmp := pututxline v (utmp f), wtmp := wtmp f @ [u, v]\<rparr>, stop_with ''userIdFromName''))"
proof -
  let ?u = "login_record env user now dev"
  have "for_process ?u" by (simp add: login_record_def for_process_def)
  then have p: "pututxline (logout_record env ?u) (pututxline ?u (utmp f)) = pututxline (logout_record env ?u) (utmp f)"
    by (rule pututxline_twice) (simp add: logout_record_def)
  have "c_str (ll_host (last_record env (logout_record env ?u))) = []"
    by (simp add: last_record_def logout_record_def c_str_strncpy)
  then show ?thesis using assms p by (simp add: login_main_def logout_part_def write_lastlog_def Let_def)
qed

theorem login_leaves_no_lastlog_witness:
  "let env = \<lparr>time_login = Some 5, time_logout = 20, getpid = 77, ttyname = Some ''/dev/pts/3'', put_login_ok = True,
         put_logout_ok = True, lastlog_opens = True, userIdFromName = (\<lambda>n. if n = ''ann'' then 1000 else -1), lseek_ok = True,
         write_ok = True\<rparr>;
       u = login_record env ''ann'' 5 ''/dev/pts/3''; v = logout_record env u in
   login_main env [''login'', ''ann''] \<lparr>utmp = [], wtmp = [], lastlogs = Map.empty\<rparr>
     = (\<lparr>utmp = [v], wtmp = [u, v], lastlogs = Map.empty\<rparr>, stop_with ''userIdFromName'')"
proof -
  define env where "env = \<lparr>time_login = Some 5, time_logout = 20, getpid = 77, ttyname = Some ''/dev/pts/3'', put_login_ok = True,
         put_logout_ok = True, lastlog_opens = True, userIdFromName = (\<lambda>n. if n = ''ann'' then 1000 else -1), lseek_ok = True,
         write_ok = True\<rparr>"
  have "login_main env [''login'', ''ann''] \<lparr>utmp = [], wtmp = [], lastlogs = Map.empty\<rparr> =
    (let u = login_record env ''ann'' 5 ''/dev/pts/3''; v = logout_record env u in
     (\<lparr>utmp = [], wtmp = [], lastlogs = Map.empty\<rparr>\<lparr>utmp := pututxline v [], wtmp := [] @ [u, v]\<rparr>, stop_with ''userIdFromName''))"
    using login_leaves_no_lastlog[of env 5 "''/dev/pts/3''" "''ann''" "''login''" "\<lparr>utmp = [], wtmp = [], lastlogs = Map.empty\<rparr>"]
    by (simp add: env_def)
  then show ?thesis by (simp add: env_def Let_def)
qed

text \<open>\<open>my_logout\<close> of a terminal on which nobody else is logged in undoes a login.\<close>

lemma getutxline_put:
  assumes "ut_type u = USER_PROCESS" and "c_str (ut_line u) = c_str tty"
    and "\<forall>v\<in>set us. ut_type v \<in> {LOGIN_PROCESS, USER_PROCESS} \<longrightarrow> c_str (ut_line v) = c_str tty \<longrightarrow> same_id u v"
  shows "getutxline tty (pututxline u us) = Some u"
  using assms by (induction us) (auto simp: getutxline_def)

lemma logout_undoes_login:
  assumes "ut_type u = USER_PROCESS" and "c_str (ut_line u) = c_str (strncpy tty 32)"
    and "\<forall>v\<in>set (utmp f). ut_type v \<in> {LOGIN_PROCESS, USER_PROCESS} \<longrightarrow> c_str (ut_line v) = c_str (strncpy tty 32) \<longrightarrow> same_id u v"
  shows "my_logout True now tty (f\<lparr>utmp := pututxline u (utmp f)\<rparr>) =
    Inr (0, f\<lparr>utmp := pututxline (u\<lparr>ut_type := DEAD_PROCESS, ut_sec := now, ut_user := strncpy [] 32\<rparr>) (utmp f)\<rparr>)"
proof -
  have "pututxline (u\<lparr>ut_type := DEAD_PROCESS, ut_sec := now, ut_user := strncpy [] 32\<rparr>) (pututxline u (utmp f))
      = pututxline (u\<lparr>ut_type := DEAD_PROCESS, ut_sec := now, ut_user := strncpy [] 32\<rparr>) (utmp f)"
    using assms(1) by (intro pututxline_twice) (simp_all add: for_process_def)
  then show ?thesis using getutxline_put[OF assms] by (simp add: my_logout_def Let_def)
qed

text \<open>\<open>40-4\<close> looks for the whole path of the terminal, while the records hold what comes behind \<open>/dev/\<close>.\<close>

lemma who_finds_nothing:
  assumes "\<forall>u\<in>set (utmp f). \<forall>rest. c_str (ut_line u) \<noteq> CHR ''/'' # rest" and "cstring t"
  shows "who_main (Some (CHR ''/'' # t)) ctime f = Inl (stop_with ''getutxline'')"
proof -
  have "c_str (strncpy (CHR ''/'' # t) 32) = CHR ''/'' # take 31 t" using assms(2) by (simp add: c_str_strncpy)
  then have "getutxline (strncpy (CHR ''/'' # t) 32) (utmp f) = None"
    using assms(1) by (auto simp: getutxline_def find_None_iff)
  then show ?thesis by (simp add: who_main_def)
qed

end
