(* ===== verification/User_Procs.thy ===== *)
theory User_Procs
  imports Error_Functions
begin

text \<open>
  \<open>12-1-show_user_procs.c\<close>: shows the names of the processes of a user.  The status file of each process is read in pieces of 1024
  bytes and split into lines by hand.  The directory, the files and what the arrays on the stack hold are arguments.
\<close>

section \<open>The program\<close>

definition LINE_BUF :: nat where "LINE_BUF = 1024"
definition NAME_BUF :: nat where "NAME_BUF = 100"

record scan =
  line :: string               \<comment> \<open>the first \<open>j\<close> bytes of \<open>line\<close>\<close>
  pname :: "string option"     \<comment> \<open>\<open>None\<close>: not yet set\<close>
  over :: bool
  shown :: string

definition store_byte :: "char \<Rightarrow> scan \<Rightarrow> scan result" where
  "store_byte c st = (if LINE_BUF \<le> length (line st) then Inl (Undefined OutOfBounds) else Inr (st\<lparr>line := line st @ [c]\<rparr>))"

text \<open>The text \<open>n\<close> bytes behind the start of a label; behind the end of the line are bytes of earlier lines.\<close>

definition after_bytes :: "nat \<Rightarrow> string \<Rightarrow> string result" where
  "after_bytes n s = (if length s < n then Inl (Undefined Uninitialised) else Inr (drop n s))"

definition name_in_line :: "scan \<Rightarrow> scan result" where
  "name_in_line st = (case strstr (c_str (line st)) ''Name:'' of None \<Rightarrow> Inr st
     | Some s \<Rightarrow> rbind (after_bytes 6 s) (\<lambda>n. if NAME_BUF \<le> length n then Inl (Undefined OutOfBounds) else Inr (st\<lparr>pname := Some n\<rparr>)))"

text \<open>At a newline.  The result tells whether the loop over the buffer is left.\<close>

definition uid_in_line :: "int \<Rightarrow> scan \<Rightarrow> (bool \<times> scan) result" where
  "uid_in_line uid st = (case strstr (c_str (line st)) ''Uid:'' of None \<Rightarrow> Inr (False, st)
     | Some s \<Rightarrow> rbind (after_bytes 5 s) (\<lambda>n. let st = st\<lparr>over := True\<rparr> in
         if atoi n = uid
         then (case pname st of None \<Rightarrow> Inl (Undefined Uninitialised) | Some p \<Rightarrow> Inr (False, st\<lparr>shown := shown st @ p @ [newline]\<rparr>))
         else Inr (True, st)))"

definition end_of_line :: "int \<Rightarrow> scan \<Rightarrow> (bool \<times> scan) result" where
  "end_of_line uid st = (if LINE_BUF \<le> length (line st) then Inl (Undefined OutOfBounds)
     else rbind (name_in_line st) (uid_in_line uid))"

fun scan_bytes :: "int \<Rightarrow> string \<Rightarrow> scan \<Rightarrow> scan result" where
  "scan_bytes uid [] st = Inr st"
| "scan_bytes uid (c # cs) st =
     (if c = newline
      then rbind (end_of_line uid st) (\<lambda>(left, st). if left then Inr st
        else rbind (store_byte c (st\<lparr>line := []\<rparr>)) (scan_bytes uid cs))
      else rbind (store_byte c st) (scan_bytes uid cs))"

text \<open>The loop over the reads.  The whole buffer is scanned, whatever was read: behind that is what it held before.\<close>

fun scan_reads :: "int \<Rightarrow> string \<Rightarrow> string option list \<Rightarrow> scan \<Rightarrow> scan result" where
  "scan_reads uid buf [] st = Inr st"
| "scan_reads uid buf (None # rs) st = Inl (stop_with ''read'')"
| "scan_reads uid buf (Some bs # rs) st =
     (if bs = [] then Inr st
      else let buf = bs @ drop (length bs) buf in
        rbind (scan_bytes uid buf st) (\<lambda>st. if over st then Inr st
          else if LINE_BUF \<le> length (line st) then Inl (Undefined OutOfBounds) else scan_reads uid buf rs st))"

record proc_entry =
  d_name :: string
  status_reads :: "string option list option"      \<comment> \<open>\<open>None\<close>: the status file cannot be opened\<close>
  stack :: string                                  \<comment> \<open>what \<open>buffer\<close> holds at first\<close>
  closes :: bool

fun entry_loop :: "int \<Rightarrow> proc_entry list \<Rightarrow> string \<Rightarrow> string result" where
  "entry_loop uid [] out = Inr out"
| "entry_loop uid (e # es) out =
     (if strcmp (d_name e) ''.'' = 0 \<or> strcmp (d_name e) ''..'' = 0 then entry_loop uid es out
      else case status_reads e of None \<Rightarrow> entry_loop uid es out
      | Some rs \<Rightarrow> rbind (scan_reads uid (stack e) rs \<lparr>line = [], pname = None, over = False, shown = []\<rparr>) (\<lambda>st.
          if \<not> closes e then Inl (stop_with ''close'') else entry_loop uid es (out @ shown st)))"

definition show_procs_main :: "(string \<Rightarrow> int option) \<Rightarrow> bool \<Rightarrow> bool \<Rightarrow> proc_entry list \<Rightarrow> string list \<Rightarrow> string result" where
  "show_procs_main getpwnam opendir_ok listing_ok es argv =
     (if length argv \<noteq> 2 \<or> strcmp (argv ! 1) ''--help'' = 0 then Inl (stop_with (argv ! 0 @ '' username'' @ [newline]))
      else case getpwnam (argv ! 1) of None \<Rightarrow> Inl (stop_with ''couldn't get password record'')
      | Some uid \<Rightarrow> if \<not> opendir_ok then Inl (stop_with ''opendir'')
          else rbind (entry_loop uid es []) (\<lambda>out. if listing_ok then Inr out else Inl (stop_with ''readdir'')))"

section \<open>Lines\<close>

definition unlabelled :: "string \<Rightarrow> bool" where
  "unlabelled l \<longleftrightarrow> newline \<notin> set l \<and> cstring l \<and> length l < 1000 \<and> strstr l ''Name:'' = None \<and> strstr l ''Uid:'' = None"

definition lines :: "string list \<Rightarrow> string" where
  "lines ls = concat (map (\<lambda>l. l @ [newline]) ls)"

lemma lines_simps [simp]: "lines [] = []" "lines (l # ls) = l @ newline # lines ls"
  by (simp_all add: lines_def)

lemma strstr_newline: "strstr (newline # l) ''Name:'' = strstr l ''Name:''" "strstr (newline # l) ''Uid:'' = strstr l ''Uid:''"
  by simp_all

lemma scan_text:
  "newline \<notin> set l \<Longrightarrow> length (line st) + length l \<le> LINE_BUF \<Longrightarrow>
   scan_bytes uid (l @ cs) st = scan_bytes uid cs (st\<lparr>line := line st @ l\<rparr>)"
proof (induction l arbitrary: st)
  case (Cons c l)
  have "length (line st) < LINE_BUF" using Cons.prems by simp
  then show ?case using Cons.IH[of "st\<lparr>line := line st @ [c]\<rparr>"] Cons.prems by (auto simp: store_byte_def)
qed simp

text \<open>A line without one of the labels.\<close>

lemma scan_plain:
  assumes "unlabelled l" and "line st = [] \<or> line st = [newline]"
  shows "scan_bytes uid (l @ newline # cs) st = scan_bytes uid cs (st\<lparr>line := [newline]\<rparr>)"
proof -
  have l: "cstring (line st @ l)" "length (line st @ l) < LINE_BUF" "strstr (line st @ l) ''Name:'' = None"
    "strstr (line st @ l) ''Uid:'' = None"
    using assms by (auto simp: unlabelled_def LINE_BUF_def strstr_newline simp del: strstr.simps)
  then have "end_of_line uid (st\<lparr>line := line st @ l\<rparr>) = Inr (False, st\<lparr>line := line st @ l\<rparr>)"
    by (simp add: end_of_line_def name_in_line_def uid_in_line_def)
  moreover have "scan_bytes uid (l @ newline # cs) st = scan_bytes uid (newline # cs) (st\<lparr>line := line st @ l\<rparr>)"
    using assms(1) l(2) by (intro scan_text) (auto simp: unlabelled_def)
  ultimately show ?thesis by (simp add: store_byte_def LINE_BUF_def)
qed

lemma scan_lines:
  assumes "\<forall>l\<in>set ls. unlabelled l" and "line st = [newline]"
  shows "scan_bytes uid (lines ls @ cs) st = scan_bytes uid cs st"
  using assms(1)
proof (induction ls)
  case (Cons l ls)
  have e: "st\<lparr>line := [newline]\<rparr> = st" using assms(2) by simp
  show ?case using Cons scan_plain[of l st uid "lines ls @ cs"] assms(2) unfolding e by simp
qed simp

text \<open>The line with the name.\<close>

definition plain_name :: "string \<Rightarrow> bool" where
  "plain_name n \<longleftrightarrow> newline \<notin> set n \<and> cstring n \<and> length n < NAME_BUF \<and> strstr n ''Uid:'' = None"

abbreviation tab :: char where "tab \<equiv> CHR 0x09"

lemma scan_name:
  assumes "plain_name n"
  shows "scan_bytes uid (''Name:'' @ tab # n @ newline # cs) \<lparr>line = [], pname = None, over = False, shown = []\<rparr>
    = scan_bytes uid cs \<lparr>line = [newline], pname = Some n, over = False, shown = []\<rparr>"
proof -
  let ?st = "\<lparr>line = [], pname = None, over = False, shown = []\<rparr>" and ?l = "''Name:'' @ tab # n"
  have l: "newline \<notin> set ?l" "cstring ?l" "length ?l < LINE_BUF" using assms by (auto simp: plain_name_def LINE_BUF_def NAME_BUF_def)
  have n: "name_in_line (?st\<lparr>line := ?l\<rparr>) = Inr (?st\<lparr>line := ?l, pname := Some n\<rparr>)"
    using assms by (simp add: name_in_line_def after_bytes_def plain_name_def)
  have "strstr ?l ''Uid:'' = None" using assms by (simp add: plain_name_def)
  then have "uid_in_line uid (?st\<lparr>line := ?l, pname := Some n\<rparr>) = Inr (False, ?st\<lparr>line := ?l, pname := Some n\<rparr>)"
    using c_str_id[OF l(2)] by (simp add: uid_in_line_def del: c_str_id)
  then have "end_of_line uid (?st\<lparr>line := ?l\<rparr>) = Inr (False, ?st\<lparr>line := ?l, pname := Some n\<rparr>)"
    using n l(3) by (simp add: end_of_line_def)
  moreover have "scan_bytes uid (?l @ newline # cs) ?st = scan_bytes uid (newline # cs) (?st\<lparr>line := ?l\<rparr>)"
    using scan_text[of ?l ?st uid "newline # cs"] l by simp
  ultimately show ?thesis by (simp add: store_byte_def LINE_BUF_def)
qed

text \<open>The line with the user ids, behind another line.\<close>

definition plain_uids :: "string \<Rightarrow> bool" where
  "plain_uids u \<longleftrightarrow> newline \<notin> set u \<and> cstring u \<and> length u < 1000 \<and> strstr u ''Name:'' = None"

lemma scan_uid:
  assumes "plain_uids u" and "line st = [newline]" and "pname st = Some n"
  shows "scan_bytes uid (''Uid:'' @ tab # u @ newline # cs) st =
    (if atoi u = uid then scan_bytes uid cs (st\<lparr>line := [newline], over := True, shown := shown st @ n @ [newline]\<rparr>)
     else Inr (st\<lparr>line := newline # ''Uid:'' @ tab # u, over := True\<rparr>))"
proof -
  let ?l = "''Uid:'' @ tab # u"
  have l: "newline \<notin> set ?l" "cstring (newline # ?l)" "length (newline # ?l) < LINE_BUF"
    using assms(1) by (auto simp: plain_uids_def LINE_BUF_def)
  have "strstr (newline # ?l) ''Name:'' = None" using assms(1) by (simp add: plain_uids_def)
  then have "name_in_line (st\<lparr>line := newline # ?l\<rparr>) = Inr (st\<lparr>line := newline # ?l\<rparr>)"
    using c_str_id[OF l(2)] by (simp add: name_in_line_def del: c_str_id)
  moreover have "uid_in_line uid (st\<lparr>line := newline # ?l\<rparr>) = (if atoi u = uid
      then Inr (False, st\<lparr>line := newline # ?l, over := True, shown := shown st @ n @ [newline]\<rparr>)
      else Inr (True, st\<lparr>line := newline # ?l, over := True\<rparr>))"
    using c_str_id[OF l(2)] assms(3) by (simp add: uid_in_line_def after_bytes_def Let_def del: c_str_id)
  moreover have "scan_bytes uid (?l @ newline # cs) st = scan_bytes uid (newline # cs) (st\<lparr>line := newline # ?l\<rparr>)"
    using scan_text[of ?l st uid "newline # cs"] l assms(2) by simp
  ultimately show ?thesis using l(3) by (cases st) (simp add: end_of_line_def store_byte_def LINE_BUF_def)
qed


section \<open>Processes of a user\<close>

definition status_text :: "string \<Rightarrow> string list \<Rightarrow> string \<Rightarrow> string \<Rightarrow> string" where
  "status_text n ls u rest = ''Name:'' @ tab # n @ newline # lines ls @ ''Uid:'' @ tab # u @ newline # rest"

abbreviation fresh_scan :: scan where "fresh_scan \<equiv> \<lparr>line = [], pname = None, over = False, shown = []\<rparr>"

lemma scan_status:
  assumes "plain_name n" and "\<forall>l\<in>set ls. unlabelled l" and "plain_uids u"
  shows "scan_bytes uid (status_text n ls u rest) fresh_scan =
    (if atoi u = uid then scan_bytes uid rest \<lparr>line = [newline], pname = Some n, over = True, shown = n @ [newline]\<rparr>
     else Inr \<lparr>line = newline # ''Uid:'' @ tab # u, pname = Some n, over = True, shown = []\<rparr>)"
  using scan_uid[OF assms(3), of "\<lparr>line = [newline], pname = Some n, over = False, shown = []\<rparr>" n uid rest]
  by (simp add: status_text_def scan_name[OF assms(1)] scan_lines[OF assms(2)] del: append_Cons)

text \<open>An entry of \<open>/proc\<close>: one without a status file, or a process with a name and user ids whose status file begins as expected.  The
  first 1024 bytes that are scanned, those read and those that were in the buffer, hold nothing else that looks like a label.\<close>

fun entry_of :: "proc_entry \<Rightarrow> (string \<times> string) option \<Rightarrow> bool" where
  "entry_of e None \<longleftrightarrow> status_reads e = None"
| "entry_of e (Some (n, u)) \<longleftrightarrow> closes e \<and> strcmp (d_name e) ''.'' \<noteq> 0 \<and> strcmp (d_name e) ''..'' \<noteq> 0 \<and>
     plain_name n \<and> plain_uids u \<and>
     (\<exists>bs rs ls ls' tl. status_reads e = Some (Some bs # rs) \<and> bs \<noteq> [] \<and>
        bs @ drop (length bs) (stack e) = status_text n ls u (lines ls' @ tl) \<and>
        list_all unlabelled ls \<and> list_all unlabelled ls' \<and> newline \<notin> set tl \<and> length tl < 1000)"

definition shown_for :: "int \<Rightarrow> (string \<times> string) option \<Rightarrow> string" where
  "shown_for uid p = (case p of None \<Rightarrow> [] | Some (n, u) \<Rightarrow> if atoi u = uid then n @ [newline] else [])"

lemma scan_entry:
  assumes "entry_of e (Some (n, u))"
  shows "\<exists>rs st. status_reads e = Some rs \<and> scan_reads uid (stack e) rs fresh_scan = Inr st \<and> shown st = shown_for uid (Some (n, u))"
proof -
  obtain bs rs ls ls' tl where e: "status_reads e = Some (Some bs # rs)" "bs \<noteq> []"
    "bs @ drop (length bs) (stack e) = status_text n ls u (lines ls' @ tl)" "\<forall>l\<in>set ls. unlabelled l" "\<forall>l\<in>set ls'. unlabelled l"
    "newline \<notin> set tl" "length tl < 1000"
    using assms by (auto simp: list_all_iff)
  have nu: "plain_name n" "plain_uids u" using assms by auto
  let ?st = "\<lparr>line = [newline], pname = Some n, over = True, shown = n @ [newline]\<rparr>"
  have "scan_bytes uid (lines ls' @ tl) ?st = Inr (?st\<lparr>line := newline # tl\<rparr>)"
    using scan_lines[OF e(5), of ?st uid tl] scan_text[of tl ?st uid "[]"] e(6,7) by (simp add: LINE_BUF_def)
  then show ?thesis
    using e(1,2) scan_status[OF nu(1) e(4) nu(2), of uid "lines ls' @ tl"]
    by (simp add: e(3) Let_def shown_for_def)
qed

lemma entry_loop_output:
  "list_all2 entry_of es ps \<Longrightarrow> entry_loop uid es out = Inr (out @ concat (map (shown_for uid) ps))"
proof (induction es ps arbitrary: out rule: list_all2_induct)
  case (Cons e es p ps)
  show ?case
  proof (cases p)
    case None
    then show ?thesis using Cons by (simp add: shown_for_def)
  next
    case (Some nu)
    obtain n u where p: "p = Some (n, u)" using Some by (cases nu) auto
    obtain rs st where st: "status_reads e = Some rs" "scan_reads uid (stack e) rs fresh_scan = Inr st"
      "shown st = shown_for uid p" using scan_entry Cons.hyps(1) unfolding p by blast
    then show ?thesis using Cons.IH Cons.hyps(1) unfolding p by simp
  qed
qed simp

text \<open>C17: the program shows, in the order of the directory, the names of exactly those processes whose first user id is that of the
  user, as long as what is in the buffer does not look like more than one process.\<close>

theorem shows_user_procs:
  assumes "list_all2 entry_of es ps" and "pw user = Some uid" and "strcmp user ''--help'' \<noteq> 0"
  shows "show_procs_main pw True True es [prog, user] = Inr (concat (map (shown_for uid) ps))"
  using assms entry_loop_output[OF assms(1), of uid "[]"] by (simp add: show_procs_main_def)

text \<open>A short status file leaves the end of the buffer as it was: a line with user ids there is taken for one of this process.\<close>

lemma stale_line_shown_again:
  assumes "plain_name n" and "list_all unlabelled (ls @ ls')" and "plain_uids u" and "plain_uids u'" and "atoi u = uid" and "atoi u' = uid"
    and "bs \<noteq> []" and "bs @ drop (length bs) stk = status_text n ls u (lines ls' @ ''Uid:'' @ tab # u' @ [newline])"
  shows "\<exists>st. scan_reads uid stk (Some bs # rs) fresh_scan = Inr st \<and> shown st = n @ [newline] @ n @ [newline]"
proof -
  let ?st = "\<lparr>line = [newline], pname = Some n, over = True, shown = n @ [newline]\<rparr>"
  have l: "\<forall>l\<in>set ls. unlabelled l" "\<forall>l\<in>set ls'. unlabelled l" using assms(2) by (auto simp: list_all_iff)
  have "scan_bytes uid (lines ls' @ ''Uid:'' @ tab # u' @ [newline]) ?st = Inr (?st\<lparr>shown := n @ [newline] @ n @ [newline]\<rparr>)"
    using scan_uid[OF assms(4), of ?st n uid "[]"] assms(6)
    by (simp add: scan_lines[OF l(2)] del: append_Cons)
  then show ?thesis
    using assms(5,7) scan_status[OF assms(1) l(1) assms(3), of uid "lines ls' @ ''Uid:'' @ tab # u' @ [newline]"]
    by (simp add: assms(8) Let_def)
qed

theorem shows_user_procs_witness:
  "show_procs_main (\<lambda>n. Some 10) True True
     [\<lparr>d_name = ''sys'', status_reads = None, stack = [], closes = True\<rparr>,
      \<lparr>d_name = ''7'', status_reads = Some [Some (status_text ''sh'' [''State:''] ''10 10'' [])], stack = [], closes = True\<rparr>]
     [''prog'', ''ann''] = Inr (''sh'' @ [newline])"
proof -
  have a: "atoi ''10 10'' = 10" by (simp add: atoi_def strtol_eval)
  let ?e = "\<lparr>d_name = ''7'', status_reads = Some [Some (status_text ''sh'' [''State:''] ''10 10'' [])], stack = [], closes = True\<rparr>"
  have "\<exists>bs rs ls ls' tl. status_reads ?e = Some (Some bs # rs) \<and> bs \<noteq> [] \<and>
        bs @ drop (length bs) (stack ?e) = status_text ''sh'' ls ''10 10'' (lines ls' @ tl) \<and>
        list_all unlabelled ls \<and> list_all unlabelled ls' \<and> newline \<notin> set tl \<and> length tl < 1000"
    by (rule exI[of _ "status_text ''sh'' [''State:''] ''10 10'' []"], rule exI[of _ "[]"], rule exI[of _ "[''State:'']"],
        rule exI[of _ "[]"], rule exI[of _ "[]"]) (simp add: unlabelled_def status_text_def)
  then have "entry_of ?e (Some (''sh'', ''10 10''))" by (simp add: plain_name_def plain_uids_def NAME_BUF_def)
  then have "list_all2 entry_of [\<lparr>d_name = ''sys'', status_reads = None, stack = [], closes = True\<rparr>, ?e] [None, Some (''sh'', ''10 10'')]"
    by (simp del: entry_of.simps(2))
  from shows_user_procs[OF this, of "\<lambda>n. Some 10" "''ann''" 10 "''prog''"] show ?thesis by (simp add: shown_for_def a)
qed

end
