(* ===== verification/Sockets.thy ===== *)
theory Sockets
  imports Error_Functions Transition_System
begin

text \<open>
  The small socket programs: \<open>57-4-socket_third_party.c\<close> (datagram sockets with names), \<open>61-2-do_pipe_with_socketpair.c\<close>,
  \<open>61-4-listen_without_bind.c\<close> and \<open>57-1-socket_block.c\<close> (a writer that is faster than the reader).  Sockets are numbered in the order
  of their creation.
\<close>

section \<open>Datagram sockets with names\<close>

record sockets =
  made :: nat
  bound :: "string \<rightharpoonup> nat"         \<comment> \<open>the socket with that name in the file system\<close>
  peer :: "nat \<rightharpoonup> nat"
  step_no :: nat                   \<comment> \<open>how many calls were made\<close>
  bad :: "nat \<Rightarrow> bool"             \<comment> \<open>which of them fail for reasons outside the program\<close>

definition failed :: "sockets \<Rightarrow> bool" where "failed s = bad s (step_no s)"
definition next_call :: "sockets \<Rightarrow> sockets" where "next_call s = s\<lparr>step_no := step_no s + 1\<rparr>"

definition Socket :: "sockets \<Rightarrow> (nat \<times> sockets) result" where
  "Socket s = (if failed s then Inl (stop_with ''socket'') else Inr (made s, (next_call s)\<lparr>made := made s + 1\<rparr>))"

text \<open>\<open>bind\<close> fails if there is a file with the name.\<close>

definition Bind :: "nat \<Rightarrow> string \<Rightarrow> sockets \<Rightarrow> sockets result" where
  "Bind fd name s = (if failed s \<or> bound s name \<noteq> None then Inl (stop_with ''bind'')
     else Inr ((next_call s)\<lparr>bound := (bound s)(name \<mapsto> fd)\<rparr>))"

text \<open>\<open>remove\<close> of a name that is not there fails with \<open>ENOENT\<close>, which is no error here.\<close>

definition Remove :: "string \<Rightarrow> sockets \<Rightarrow> sockets result" where
  "Remove name s = (if failed s then Inl (stop_with ''remove'') else Inr ((next_call s)\<lparr>bound := (bound s)(name := None)\<rparr>))"

text \<open>\<open>connect\<close> of a datagram socket: the other one must not be connected to a third.\<close>

definition Connect :: "nat \<Rightarrow> string \<Rightarrow> sockets \<Rightarrow> sockets result" where
  "Connect fd name s = (case bound s name of None \<Rightarrow> Inl (stop_with ''connect'')
     | Some other \<Rightarrow> if failed s \<or> (peer s other \<noteq> None \<and> peer s other \<noteq> Some fd) then Inl (stop_with ''connect'')
         else Inr ((next_call s)\<lparr>peer := (peer s)(fd \<mapsto> other)\<rparr>))"

text \<open>The field \<open>sun_path\<close> keeps the last name that was copied into it.\<close>

definition SUN_PATH :: nat where "SUN_PATH = 108"

definition sun_path :: "string \<Rightarrow> string" where "sun_path name = c_str (strncpy name SUN_PATH)"

definition third_party_main :: "sockets \<Rightarrow> (string \<times> sockets) result" where
  "third_party_main s =
     rbind (Socket s) (\<lambda>(a, s). rbind (Socket s) (\<lambda>(b, s). rbind (Socket s) (\<lambda>(c, s).
     rbind (Remove ''/tmp/socket_a'' s) (\<lambda>s. rbind (Bind a (sun_path ''/tmp/socket_a'') s) (\<lambda>s.
     rbind (Remove ''/tmp/socket_b'' s) (\<lambda>s. rbind (Bind b (sun_path ''/tmp/socket_b'') s) (\<lambda>s.
     rbind (Remove ''/tmp/socket_c'' s) (\<lambda>s. rbind (Bind c (sun_path ''/tmp/socket_c'') s) (\<lambda>s.
     rbind (Connect a (sun_path ''/tmp/socket_c'') s) (\<lambda>s. rbind (Connect c (sun_path ''/tmp/socket_a'') s) (\<lambda>s.
     Inr (''Connect a to b'' @ [newline] @ ''Succeeded'' @ [newline] @ ''Connect c to a'' @ [newline] @ ''Succeeded'' @ [newline], s))))))))))))"

lemma sun_path_short: "cstring name \<Longrightarrow> length name < SUN_PATH \<Longrightarrow> sun_path name = name"
  by (simp add: sun_path_def c_str_strncpy)

definition no_sockets :: "(string \<rightharpoonup> nat) \<Rightarrow> sockets" where
  "no_sockets names = \<lparr>made = 3, bound = names, peer = Map.empty, step_no = 0, bad = (\<lambda>k. False)\<rparr>"

lemmas socket_calls = Socket_def Bind_def Remove_def Connect_def failed_def next_call_def

text \<open>The address in \<open>sa\<close> is still that of \<open>c\<close> when \<open>a\<close> is connected: the two sockets end as each other's peers, and the connection of a
  third party, which the program is about, is not tried.\<close>

lemma third_party_connects_pair:
  "\<exists>out s. third_party_main (no_sockets names) = Inr (out, s) \<and> peer s = Map.empty(3 \<mapsto> 5, 5 \<mapsto> 3)"
  by (simp add: third_party_main_def no_sockets_def socket_calls sun_path_short SUN_PATH_def)

text \<open>A socket whose peer is another one cannot be connected to.\<close>

lemma third_party_refused:
  assumes "peer s a = Some b" and "bound s name = Some a" and "c \<noteq> b"
  shows "Connect c name s = Inl (stop_with ''connect'')"
  using assms by (simp add: Connect_def)

section \<open>A pipe made of sockets\<close>

text \<open>The sockets of a pair and whether each can still be written to.  The result is the value, the array and what is open.\<close>

definition my_pipe :: "(nat \<times> nat) option \<Rightarrow> bool \<Rightarrow> (nat \<times> nat) option \<Rightarrow> int \<times> (nat \<times> nat) option \<times> nat set" where
  "my_pipe pair shutdown_ok pipefd = (case pair of None \<Rightarrow> (-1, pipefd, {})
     | Some (fd0, fd1) \<Rightarrow> if \<not> shutdown_ok then (-1, pipefd, {}) else (0, Some (fd0, fd1), {fd0, fd1}))"

lemma my_pipe_failure: "fst (my_pipe pair ok p) \<noteq> 0 \<Longrightarrow> my_pipe pair ok p = (-1, p, {})"
  by (auto simp: my_pipe_def split: option.splits if_splits)

section \<open>A socket without an address\<close>

text \<open>The pointer that \<open>getsockname\<close> gets was never set.\<close>

definition listen_main :: "bool \<Rightarrow> bool \<Rightarrow> string result" where
  "listen_main socket_ok listen_ok =
     (if \<not> socket_ok then Inl (stop_with ''socket'') else if \<not> listen_ok then Inl (stop_with ''listen'')
      else Inl (Undefined Uninitialised))"

section \<open>A full socket\<close>

text \<open>\<open>57-1\<close>: the child writes 4096 bytes at a time, the parent reads as many.  \<open>capacity\<close> is what the kernel keeps for a socket; a write that
  does not fit waits.\<close>

record channel =
  writes_done :: nat             \<comment> \<open>\<open>cnt\<close> of the child\<close>
  in_socket :: nat
  bytes_read :: nat

inductive channel_step :: "nat \<Rightarrow> channel \<Rightarrow> channel \<Rightarrow> bool" for capacity where
  child: "in_socket s + 4096 \<le> capacity \<Longrightarrow>
    channel_step capacity s (s\<lparr>writes_done := writes_done s + 1, in_socket := in_socket s + 4096\<rparr>)"
| parent: "0 < n \<Longrightarrow> n \<le> 4096 \<Longrightarrow> n \<le> in_socket s \<Longrightarrow>
    channel_step capacity s (s\<lparr>in_socket := in_socket s - n, bytes_read := bytes_read s + n\<rparr>)"

definition channel0 :: channel where "channel0 = \<lparr>writes_done = 0, in_socket = 0, bytes_read = 0\<rparr>"

definition socket_block_main :: "bool \<Rightarrow> int \<Rightarrow> channel result" where
  "socket_block_main socketpair_ok forked =
     (if \<not> socketpair_ok then Inl (stop_with ''socketpair'')
      else if forked = -1 then Inl (stop_with ''fork'') else Inr channel0)"

definition channel_inv :: "nat \<Rightarrow> channel \<Rightarrow> bool" where
  "channel_inv capacity s \<longleftrightarrow> 4096 * writes_done s = bytes_read s + in_socket s \<and> in_socket s \<le> capacity"

lemma channel_step_inv: "channel_step capacity s s' \<Longrightarrow> channel_inv capacity s \<Longrightarrow> channel_inv capacity s'"
  by (induction rule: channel_step.induct) (auto simp: channel_inv_def)

interpretation channel: invariant_system "channel_step capacity" channel0 "channel_inv capacity" for capacity
proof
  show "channel_inv capacity channel0" by (simp add: channel_inv_def channel0_def)
qed (fact channel_step_inv)

text \<open>The writer is never ahead of the reader by more than the socket holds.\<close>

lemma writer_blocks:
  assumes "socket_block_main ok forked = Inr c" and "(channel_step capacity)\<^sup>*\<^sup>* c s"
  shows "bytes_read s \<le> 4096 * writes_done s \<and> 4096 * writes_done s \<le> bytes_read s + capacity"
  using channel.reach_inv[of capacity s] assms by (auto simp: channel_inv_def socket_block_main_def split: if_splits)

end
