(* ===== verification/Semaphore_Sync.thy ===== *)
theory Semaphore_Sync
  imports Error_Functions Transition_System
begin

text \<open>
  \<open>47-2-sync_with_sem.c\<close>: a parent waits on a semaphore until its child has finished.
\<close>

datatype sync_pc = Sleeping | Posting | Child_exit
datatype parent_pc = Waiting | Parent_exit

record sync =
  sync_sem :: int
  child_pc :: sync_pc
  parent_pc :: parent_pc
  messages :: "string list"

text \<open>The calls before the processes part; \<open>semctl\<close> is refused where the permissions of the set, none, count.\<close>

definition sync_setup :: "bool \<Rightarrow> bool \<Rightarrow> bool \<Rightarrow> sync result" where
  "sync_setup semget_ok semctl_ok fork_ok =
     (if \<not> semget_ok then Inl (stop_with ''semget'') else if \<not> semctl_ok then Inl (stop_with ''semctl'')
      else if \<not> fork_ok then Inl (stop_with ''fork'')
      else Inr \<lparr>sync_sem = 0, child_pc = Sleeping, parent_pc = Waiting, messages = [''Waiting for child to do things'' @ [newline]]\<rparr>)"

inductive sync_step :: "sync \<Rightarrow> sync \<Rightarrow> bool" where
  woke: "child_pc s = Sleeping \<Longrightarrow>
    sync_step s (s\<lparr>child_pc := Posting, messages := messages s @ [''Child finished'' @ [newline]]\<rparr>)"
| post: "child_pc s = Posting \<Longrightarrow> sync_step s (s\<lparr>child_pc := Child_exit, sync_sem := sync_sem s + 1\<rparr>)"
| interrupted: "parent_pc s = Waiting \<Longrightarrow> sync_step s s"            \<comment> \<open>\<open>EINTR\<close>: the call is made again\<close>
| got: "parent_pc s = Waiting \<Longrightarrow> 1 \<le> sync_sem s \<Longrightarrow>
    sync_step s (s\<lparr>sync_sem := sync_sem s - 1, parent_pc := Parent_exit, messages := messages s @ [''Parent exit'' @ [newline]]\<rparr>)"

inductive_simps sync_step_iff: "sync_step s s'"

definition sync_start :: sync where
  "sync_start = \<lparr>sync_sem = 0, child_pc = Sleeping, parent_pc = Waiting, messages = [''Waiting for child to do things'' @ [newline]]\<rparr>"

definition sync_inv :: "sync \<Rightarrow> bool" where
  "sync_inv s \<longleftrightarrow> (case (child_pc s, parent_pc s) of
     (Sleeping, Waiting) \<Rightarrow> sync_sem s = 0 \<and> messages s = [''Waiting for child to do things'' @ [newline]]
   | (Posting, Waiting) \<Rightarrow> sync_sem s = 0 \<and> messages s = [''Waiting for child to do things'' @ [newline], ''Child finished'' @ [newline]]
   | (Child_exit, Waiting) \<Rightarrow> sync_sem s = 1 \<and> messages s = [''Waiting for child to do things'' @ [newline], ''Child finished'' @ [newline]]
   | (Child_exit, Parent_exit) \<Rightarrow> sync_sem s = 0 \<and>
       messages s = [''Waiting for child to do things'' @ [newline], ''Child finished'' @ [newline], ''Parent exit'' @ [newline]]
   | _ \<Rightarrow> False)"

lemma sync_step_inv: "sync_step s s' \<Longrightarrow> sync_inv s \<Longrightarrow> sync_inv s'"
  by (auto simp: sync_step_iff sync_inv_def split: sync_pc.splits parent_pc.splits)

interpretation sync: invariant_system sync_step sync_start sync_inv
proof
  show "sync_inv sync_start" by (simp add: sync_inv_def sync_start_def)
qed (fact sync_step_inv)

text \<open>The parent goes on only after the child has finished, and as long as it has not, it can.\<close>

lemma parent_waits:
  assumes "sync_step\<^sup>*\<^sup>* sync_start s"
  shows "(parent_pc s = Parent_exit \<longrightarrow> child_pc s = Child_exit \<and>
      messages s = [''Waiting for child to do things'' @ [newline], ''Child finished'' @ [newline], ''Parent exit'' @ [newline]]) \<and>
    (parent_pc s = Waiting \<longrightarrow> (\<exists>s'. sync_step s s' \<and> s' \<noteq> s))"
proof -
  have i: "sync_inv s" by (rule sync.reach_inv[OF assms])
  have "\<exists>s'. sync_step s s' \<and> s' \<noteq> s" if w: "parent_pc s = Waiting"
  proof (cases "child_pc s")
    case Sleeping
    have "s\<lparr>child_pc := Posting, messages := messages s @ [''Child finished'' @ [newline]]\<rparr> \<noteq> s"
      using Sleeping by (cases s) simp
    then show ?thesis using woke[OF Sleeping] by blast
  next
    case Posting
    have "s\<lparr>child_pc := Child_exit, sync_sem := sync_sem s + 1\<rparr> \<noteq> s" using Posting by (cases s) simp
    then show ?thesis using post[OF Posting] by blast
  next
    case Child_exit
    then have "1 \<le> sync_sem s" using i w by (simp add: sync_inv_def)
    moreover have "s\<lparr>sync_sem := sync_sem s - 1, parent_pc := Parent_exit, messages := messages s @ [''Parent exit'' @ [newline]]\<rparr> \<noteq> s"
      using w by (cases s) simp
    ultimately show ?thesis using got[OF w] by blast
  qed
  then show ?thesis using i by (auto simp: sync_inv_def split: sync_pc.splits)
qed

end
