(* ===== verification/Commands.thy ===== *)
theory Commands
  imports Error_Functions
begin

text \<open>
  Small commands that work on their arguments: \<open>15-4-test_auth.c\<close>, \<open>16-1-my_setfattr.c\<close>, \<open>18-4-changed_list_files.c\<close>,
  \<open>18-7-nftw_search.c\<close>, \<open>27-2-my_execlp.c\<close>, \<open>35-1-my_nice.c\<close>, \<open>35-32-rtsched.c\<close>, \<open>37-1-my_log.c\<close> and \<open>38-2-douser.c\<close>.  An argument that is
  not there is a null pointer.
\<close>

definition arg_at :: "string list \<Rightarrow> nat \<Rightarrow> string result" where
  "arg_at argv n = (if n < length argv then Inr (argv ! n) else Inl (Undefined NullDeref))"

text \<open>What \<open>exec\<close> is called with: the file and its argument list.  A call that succeeds does not return.\<close>

datatype exec = Exec string "string list"

text \<open>\<open>execv(argv[n], argv + n)\<close>: with a null pointer for the path it fails; behind the null pointer at the end of \<open>argv\<close> nothing is known.\<close>

definition execv_from :: "string list \<Rightarrow> nat \<Rightarrow> exec option result" where
  "execv_from argv n = (if n < length argv then Inr (Some (Exec (argv ! n) (drop n argv)))
     else if n = length argv then Inr None else Inl (Undefined OutOfBounds))"

section \<open>Access\<close>

record access_env =
  exists_ok :: bool
  read_ok :: bool
  write_ok :: bool
  exec_ok :: bool

definition test_auth_main :: "access_env \<Rightarrow> string list \<Rightarrow> string result" where
  "test_auth_main env argv =
     (if length argv \<noteq> 2 \<or> strcmp (argv ! 1) ''--help'' = 0 then Inl (stop_with (argv ! 0 @ '' file''))
      else if \<not> exists_ok env then Inr (''There's no file '' @ [CHR 0x22] @ argv ! 1 @ [CHR 0x22])
      else Inr (''Have authority to '' @ (if read_ok env then ''read '' else []) @ (if write_ok env then ''write '' else []) @
        (if exec_ok env then ''execute '' else []) @ ''file '' @ [CHR 0x22] @ argv ! 1 @ [CHR 0x22, newline]))"

section \<open>Extended attributes\<close>

datatype attr_option = Opt_n string | Opt_v string | Opt_other

definition attr_usage :: "string list \<Rightarrow> stop" where
  "attr_usage argv = stop_with (argv ! 0 @ '' -n name -v value file'' @ [newline])"

text \<open>The case of \<open>-v\<close> has no \<open>break\<close>.\<close>

fun attr_options :: "string list \<Rightarrow> attr_option list \<Rightarrow> string option \<times> string option \<Rightarrow> (string option \<times> string option) result" where
  "attr_options argv [] nv = Inr nv"
| "attr_options argv (Opt_n a # os) nv = attr_options argv os (Some a, snd nv)"
| "attr_options argv (Opt_v a # os) nv = Inl (attr_usage argv)"
| "attr_options argv (Opt_other # os) nv = Inl (attr_usage argv)"

text \<open>The call of \<open>setxattr\<close>: file, name and value with its null byte.  \<open>opts\<close> and \<open>optind\<close> are what \<open>getopt\<close> gives.\<close>

definition setfattr_main :: "(string \<Rightarrow> string \<Rightarrow> string \<Rightarrow> bool) \<Rightarrow> attr_option list \<Rightarrow> nat \<Rightarrow> string list \<Rightarrow> unit result" where
  "setfattr_main setxattr opts optind argv =
     (if length argv \<noteq> 6 then Inl (attr_usage argv)
      else rbind (attr_options argv opts (None, None)) (\<lambda>nv.
        if optind + 1 \<noteq> length argv then Inl (attr_usage argv)
        else case nv of (Some n, Some v) \<Rightarrow> if setxattr (argv ! 5) n (v @ [nul]) then Inr () else Inl (stop_with ''setxattr'')
        | _ \<Rightarrow> Inl (Undefined Uninitialised)))"

text \<open>No attribute is ever set.\<close>

lemma attr_options_no_value: "attr_options argv opts nv = Inr nv' \<Longrightarrow> snd nv' = snd nv"
  by (induction argv opts nv rule: attr_options.induct) auto

lemma setfattr_never_sets: "setfattr_main setxattr opts optind argv \<noteq> Inr u"
proof (cases "attr_options argv opts (None, None)")
  case (Inr nv)
  then have "snd nv = None" using attr_options_no_value by fastforce
  then obtain a where "nv = (a, None)" by (cases nv) auto
  then show ?thesis using Inr by (cases a) (auto simp: setfattr_main_def)
qed (auto simp: setfattr_main_def)

section \<open>Listing files\<close>

text \<open>\<open>readdir_r\<close> stores through a pointer that was never set.\<close>

definition listFiles :: "(string \<Rightarrow> bool) \<Rightarrow> string \<Rightarrow> string \<Rightarrow> string result" where
  "listFiles opens dirpath err =
     (if \<not> opens dirpath then Inr (err @ ''opendir failed on '' @ [CHR 0x27] @ dirpath @ [CHR 0x27])
      else Inl (Undefined Uninitialised))"

fun list_dirs :: "(string \<Rightarrow> bool) \<Rightarrow> string list \<Rightarrow> string \<Rightarrow> string result" where
  "list_dirs opens [] err = Inr err"
| "list_dirs opens (d # ds) err = rbind (listFiles opens d err) (list_dirs opens ds)"

definition list_files_main :: "(string \<Rightarrow> bool) \<Rightarrow> string list \<Rightarrow> string result" where
  "list_files_main opens argv =
     (if length argv > 1 \<and> strcmp (argv ! 1) ''--help'' = 0 then Inl (stop_with (argv ! 0 @ '' [dir-path...]'' @ [newline]))
      else if length argv = 1 then listFiles opens ''.'' [] else list_dirs opens (drop 1 argv) [])"

lemma list_files_lists_nothing:
  assumes "list_files_main opens (prog # dirs) = Inr out" and "d \<in> set dirs"
  shows "\<not> opens d"
proof -
  have "list_dirs opens dirs err = Inr out \<Longrightarrow> \<forall>d\<in>set dirs. \<not> opens d" for dirs err
    by (induction dirs arbitrary: err) (auto simp: listFiles_def split: if_splits)
  then show ?thesis using assms by (cases dirs) (auto simp: list_files_main_def simp del: list_dirs.simps split: if_splits)
qed

section \<open>Counting files\<close>

datatype ftw_flag = FTW_F | FTW_D | FTW_DNR | FTW_NS | FTW_SL | FTW_DP | FTW_SLN

definition ftw_number :: "ftw_flag \<Rightarrow> int" where
  "ftw_number f = (case f of FTW_F \<Rightarrow> 0 | FTW_D \<Rightarrow> 1 | FTW_DNR \<Rightarrow> 2 | FTW_NS \<Rightarrow> 3 | FTW_SL \<Rightarrow> 4 | FTW_DP \<Rightarrow> 5 | FTW_SLN \<Rightarrow> 6)"

record file_counts =
  dir_count :: int
  link_count :: int
  file_count :: int

definition count_file :: "ftw_flag \<Rightarrow> file_counts \<times> string \<Rightarrow> file_counts \<times> string" where
  "count_file typeflag st = (case st of (c, out) \<Rightarrow>
     if typeflag \<in> {FTW_D, FTW_DP, FTW_DNR} then (c\<lparr>dir_count := dir_count c + 1\<rparr>, out)
     else if typeflag \<in> {FTW_SL, FTW_SLN} then (c\<lparr>link_count := link_count c + 1\<rparr>, out)
     else if typeflag = FTW_F then (c\<lparr>file_count := file_count c + 1\<rparr>, out)
     else (c, out @ ''unknown type '' @ dec_int (ftw_number typeflag) @ [newline]))"

text \<open>\<open>nftw\<close> calls the function for each entry of the tree; \<open>ok\<close> tells whether it comes to the end.  The counts are not printed.\<close>

definition search_main :: "bool \<Rightarrow> ftw_flag list \<Rightarrow> string list \<Rightarrow> (file_counts \<times> string) result" where
  "search_main ok walk argv =
     (if length argv \<noteq> 2 \<or> strcmp (argv ! 1) ''--help'' = 0 then Inl (stop_with (argv ! 0 @ '' dir''))
      else if \<not> ok then Inl (stop_with ''nftw'')
      else Inr (fold count_file walk (\<lparr>dir_count = 0, link_count = 0, file_count = 0\<rparr>, [])))"

lemma count_files:
  "fst (fold count_file walk (c, out)) =
    \<lparr>dir_count = dir_count c + int (length (filter (\<lambda>f. f \<in> {FTW_D, FTW_DP, FTW_DNR}) walk)),
     link_count = link_count c + int (length (filter (\<lambda>f. f \<in> {FTW_SL, FTW_SLN}) walk)),
     file_count = file_count c + int (length (filter (\<lambda>f. f = FTW_F) walk))\<rparr>"
  by (induction walk arbitrary: c out) (auto simp: count_file_def)

section \<open>Running commands\<close>

text \<open>\<open>my_execlp\<close>: the variable arguments are those behind \<open>arg\<close>, up to the null pointer.  \<open>malloc\<close> and \<open>strdup\<close> succeed.\<close>

definition my_execlp :: "string \<Rightarrow> string option \<Rightarrow> string list \<Rightarrow> exec" where
  "my_execlp fname arg rest = Exec fname rest"

text \<open>The first argument, which by convention is the name of the program, is lost.\<close>

lemma my_execlp_drops: "my_execlp f (Some a) rest = Exec f args \<Longrightarrow> args \<noteq> a # rest"
  by (auto simp: my_execlp_def)

text \<open>\<open>nice\<close>: the new priority and the command.\<close>

definition nice_main :: "int \<Rightarrow> string list \<Rightarrow> (int \<times> exec option) result" where
  "nice_main prior argv =
     rbind (arg_at argv 1) (\<lambda>a1. rbind (arg_at argv 2) (\<lambda>a2.
       if strcmp a1 ''-n'' \<noteq> 0 \<and> a2 = [] then Inl (Undefined OutOfBounds)
       else let p = (if strcmp a1 ''-n'' = 0 then prior + atoi a2 else atoi (tl a2)) in
         if p < INT_MIN \<or> INT_MAX < p then Inl (Undefined SignedOverflow)
         else rbind (execv_from argv 3) (\<lambda>e. Inr (p, e))))"

datatype policy = SCHED_FIFO | SCHED_RR

definition rtsched_main :: "bool \<Rightarrow> bool \<Rightarrow> string list \<Rightarrow> (policy \<times> int \<times> exec option) result" where
  "rtsched_main sched_ok setreuid_ok argv =
     rbind (arg_at argv 1) (\<lambda>a1. rbind (arg_at argv 2) (\<lambda>a2.
       let policy = (if a1 \<noteq> [] \<and> hd a1 = CHR ''r'' then SCHED_RR else SCHED_FIFO); prior = atoi a2 in
       if \<not> sched_ok then Inl (stop_with ''sched_setscheduler'')
       else if \<not> setreuid_ok then Inl (stop_with ''setreuid'')
       else rbind (execv_from argv 3) (\<lambda>e. Inr (policy, prior, e))))"

lemma nice_adds:
  assumes "INT_MIN \<le> prior + n" and "prior + n \<le> INT_MAX" and "INT_MIN \<le> n" and "n \<le> INT_MAX"
  shows "nice_main prior (prog # ''-n'' # dec_int n # cmd # args) = Inr (prior + n, Some (Exec cmd (cmd # args)))"
  using assms by (simp add: nice_main_def arg_at_def execv_from_def atoi_dec_int Let_def eval_nat_numeral)

text \<open>Without \<open>-n\<close> the number is read from the argument behind the option, and without its first character.\<close>

lemma nice_skips_character:
  assumes "strcmp opt ''-n'' \<noteq> 0" and "INT_MIN \<le> n" and "n \<le> INT_MAX"
  shows "nice_main prior (prog # opt # (c # dec_int n) # cmd # args) = Inr (n, Some (Exec cmd (cmd # args)))"
  using assms by (simp add: nice_main_def arg_at_def execv_from_def atoi_dec_int Let_def eval_nat_numeral)

section \<open>Logging\<close>

definition first_char :: "string \<Rightarrow> char" where "first_char s = (if s = [] then nul else hd s)"

text \<open>The level, from \<open>LOG_EMERG\<close> 0 to \<open>LOG_DEBUG\<close> 7, and the message, a null pointer if it is missing.\<close>

definition log_level :: "string \<Rightarrow> int option" where
  "log_level s = (if first_char s = CHR ''E'' then Some (if first_char (tl s) = CHR ''M'' then 0 else 3)
     else if first_char s = CHR ''A'' then Some 1
     else if first_char s = CHR ''C'' then Some 2
     else if first_char s = CHR ''W'' then Some 4
     else if first_char s = CHR ''N'' then Some 5
     else if first_char s = CHR ''I'' then Some 6
     else if first_char s = CHR ''D'' then Some 7
     else None)"

definition my_log_main :: "string list \<Rightarrow> (int \<times> string) result" where
  "my_log_main argv = rbind (arg_at argv 1) (\<lambda>s. case log_level s of
     None \<Rightarrow> Inl (Exit EXIT_FAILURE (''Invalid level!'' @ [newline]))
   | Some level \<Rightarrow> rbind (arg_at argv 2) (\<lambda>msg. Inr (level, msg)))"

lemma log_levels:
  "map log_level [''EMERG'', ''ALERT'', ''CRIT'', ''ERR'', ''WARNING'', ''NOTICE'', ''INFO'', ''DEBUG''] = map Some [0..7]"
  by (simp add: log_level_def first_char_def upto.simps)

section \<open>Running a command as another user\<close>

record password =
  pw_passwd :: string
  pw_uid :: int

text \<open>The result is the user id that \<open>setuid\<close> gets and the command; the password that was typed is an argument.  \<open>None\<close> as the encrypted
  text is a failure of \<open>crypt\<close>.\<close>

definition douser_main ::
    "(string \<Rightarrow> password option) \<Rightarrow> (string \<Rightarrow> string \<Rightarrow> string option) \<Rightarrow> string option \<Rightarrow> string list \<Rightarrow> (int \<times> exec) result" where
  "douser_main getpwnam crypt typed argv =
     rbind (arg_at argv 1) (\<lambda>a1.
       let path = (if strcmp a1 ''-u'' = 0 then 3 else 1) in
       case getpwnam ''username'' of None \<Rightarrow> Inl (stop_with ''getpwnam'')
       | Some pwd \<Rightarrow> (case typed of None \<Rightarrow> Inl (Undefined NullDeref)
         | Some pass \<Rightarrow> (case crypt pass (pw_passwd pwd) of None \<Rightarrow> Inl (stop_with ''crypt'')
           | Some encrypted \<Rightarrow> if strcmp encrypted (pw_passwd pwd) \<noteq> 0 then Inl (stop_with (''wrong password'' @ [newline]))
               else rbind (execv_from argv path) (\<lambda>e. case e of None \<Rightarrow> Inl (stop_with ''execv'') | Some x \<Rightarrow> Inr (pw_uid pwd, x)))))"

text \<open>The name that is looked up is always \<open>username\<close>: without such a user nothing is run, and with one whatever is asked for runs as this
  user.\<close>

lemma douser_ignores_name:
  assumes "douser_main getpwnam crypt typed argv = Inr (uid, x)"
  shows "\<exists>pwd. getpwnam ''username'' = Some pwd \<and> uid = pw_uid pwd"
proof (cases "getpwnam ''username''")
  case (Some pwd)
  then have "uid = pw_uid pwd"
    using assms by (auto simp: douser_main_def arg_at_def Let_def split: option.split_asm if_split_asm)
  then show ?thesis using Some by simp
qed (use assms in \<open>simp add: douser_main_def arg_at_def Let_def split: if_splits\<close>)

end
