(* ===== verification/Sendfile_Mmap.thy ===== *)
theory Sendfile_Mmap
  imports Error_Functions
begin

text \<open>
  Two more ways of copying: \<open>61-3-do_sendfile_with_read_write.c\<close> (a function like \<open>sendfile\<close>) and \<open>49-1-my_cp.c\<close> (through two
  mappings).
\<close>

section \<open>Sending a file\<close>

text \<open>What a call of \<open>write\<close> does: it takes some of the bytes, is interrupted, or fails.\<close>

datatype write_result = Took nat | Interrupted | Write_failed

text \<open>The loop has no way out but a failed \<open>write\<close>: \<open>None\<close> is a run that does not end.\<close>

partial_function (option) send_loop ::
    "(nat \<Rightarrow> string \<Rightarrow> write_result) \<Rightarrow> nat \<Rightarrow> string \<Rightarrow> string \<Rightarrow> (int \<times> string) option" where
  "send_loop write_call k rest out = (case write_call k rest of
     Interrupted \<Rightarrow> send_loop write_call (k + 1) rest out
   | Write_failed \<Rightarrow> Some (-1, out)
   | Took n \<Rightarrow> send_loop write_call (k + 1) (drop n rest) (out @ take n rest))"

text \<open>\<open>offset\<close> is the value of the pointer, which \<open>lseek\<close> gets for the offset.  The result is the value and what was written.\<close>

definition my_sendfile ::
    "(nat \<Rightarrow> string \<Rightarrow> write_result) \<Rightarrow> bool \<Rightarrow> bool \<Rightarrow> (nat \<Rightarrow> nat \<Rightarrow> string option) \<Rightarrow> nat \<Rightarrow> nat \<Rightarrow> (int \<times> string) result option" where
  "my_sendfile write_call tell_ok seek_ok read_call offset count =
     (if \<not> tell_ok then Some (Inr (-1, []))
      else if \<not> seek_ok then Some (Inr (-1, []))
      else if count = 0 then Some (Inl (Undefined OutOfBounds))       \<comment> \<open>an array without elements\<close>
      else case read_call offset count of None \<Rightarrow> Some (Inr (-1, []))
      | Some bs \<Rightarrow> map_option Inr (send_loop write_call 0 bs []))"

lemma send_loop_result: "send_loop write_call k rest out = Some r \<Longrightarrow> fst r = -1"
  by (rule send_loop.raw_induct[where P = "\<lambda>w k rest out r. fst r = -1"])
     (auto split: write_result.splits)

lemma send_loop_failed: "send_loop write_call k rest out = Some r \<Longrightarrow> \<exists>j rest'. k \<le> j \<and> write_call j rest' = Write_failed"
proof (rule send_loop.raw_induct[where P = "\<lambda>w k rest out r. \<exists>j rest'. k \<le> j \<and> w j rest' = Write_failed"], goal_cases)
  case (1 f w k rest out r)
  show ?case
  proof (cases "w k rest")
    case (Took n)
    then have "f w (k + 1) (drop n rest) (out @ take n rest) = Some r" using 1(3) by simp
    then show ?thesis using 1(2) by (meson add_leD1)
  next
    case Interrupted
    then have "f w (k + 1) rest out = Some r" using 1(3) by simp
    then show ?thesis using 1(2) by (meson add_leD1)
  next
    case Write_failed
    then show ?thesis by blast
  qed
qed

text \<open>The function never returns how much it sent: a call that returns gives -1, and if no \<open>write\<close> fails a call that has read
  something, or nothing, goes on for ever.\<close>

lemma sendfile_never_counts:
  "(\<forall>v out. my_sendfile write_call tell_ok seek_ok read_call offset count = Some (Inr (v, out)) \<longrightarrow> v = -1) \<and>
   ((\<forall>k rest. write_call k rest \<noteq> Write_failed) \<and> 0 < count \<and> read_call offset count = Some bs \<longrightarrow>
     my_sendfile write_call True True read_call offset count = None)"
proof (intro conjI allI impI)
  fix v out
  assume "my_sendfile write_call tell_ok seek_ok read_call offset count = Some (Inr (v, out))"
  then show "v = -1" using send_loop_result by (fastforce simp: my_sendfile_def split: if_splits option.splits)
next
  assume a: "(\<forall>k rest. write_call k rest \<noteq> Write_failed) \<and> 0 < count \<and> read_call offset count = Some bs"
  then have "send_loop write_call 0 bs [] = None" using send_loop_failed[of write_call 0 bs "[]"] by (cases "send_loop write_call 0 bs []") auto
  then show "my_sendfile write_call True True read_call offset count = None" using a by (simp add: my_sendfile_def)
qed

lemma sendfile_examples:
  "my_sendfile (\<lambda>k rest. Took (length rest)) True True (\<lambda>off n. Some ''ab'') 4096 2 = None \<and>
   my_sendfile (\<lambda>k rest. if k = 0 then Took 1 else Write_failed) True True (\<lambda>off n. Some ''ab'') 4096 2 = Some (Inr (-1, ''a''))"
proof
  show "my_sendfile (\<lambda>k rest. Took (length rest)) True True (\<lambda>off n. Some ''ab'') 4096 2 = None"
    using sendfile_never_counts[of "\<lambda>k rest. Took (length rest)" True True "\<lambda>off n. Some ''ab''" 4096 2 "''ab''"] by simp
  show "my_sendfile (\<lambda>k rest. if k = 0 then Took 1 else Write_failed) True True (\<lambda>off n. Some ''ab'') 4096 2 = Some (Inr (-1, ''a''))"
    by (simp add: my_sendfile_def send_loop.simps[of _ 0] send_loop.simps[of _ "Suc 0"])
qed

section \<open>Copying through mappings\<close>

record map_env =
  fstat_ok :: bool
  ftruncate_ok :: bool
  map_source_ok :: bool
  map_dest_ok :: bool

text \<open>The files are their contents, \<open>None\<close> one that cannot be opened; the result has what is in the destination at the end.  A mapping
  of length 0 is refused.\<close>

definition mmap_cp_main :: "map_env \<Rightarrow> string option \<Rightarrow> string option \<Rightarrow> string list \<Rightarrow> stop option \<times> string option" where
  "mmap_cp_main env src dst argv =
     (if length argv \<noteq> 3 \<or> strcmp (argv ! 1) ''--help'' = 0 then (Some (stop_with (argv ! 0 @ '' source dest'' @ [newline])), dst)
      else case src of None \<Rightarrow> (Some (stop_with ''open - r''), dst) | Some s \<Rightarrow>
      (case dst of None \<Rightarrow> (Some (stop_with ''open - w''), dst) | Some d \<Rightarrow>
        if \<not> fstat_ok env then (Some (stop_with ''fstat''), dst)
        else if \<not> ftruncate_ok env then (Some (stop_with ''ftruncate''), dst)
        else let d1 = take (length s) (d @ replicate (length s - length d) nul) in
        if length s = 0 \<or> \<not> map_source_ok env then (Some (stop_with ''mmap - source''), Some d1)
        else if \<not> map_dest_ok env then (Some (stop_with ''mmap - dest''), Some d1)
        else (None, Some (s @ drop (length s) d1))))"

lemma mmap_cp_copies:
  assumes "mmap_cp_main env (Some s) (Some d) argv = (None, dst)"
  shows "dst = Some s \<and> s \<noteq> []"
  using assms by (auto simp: mmap_cp_main_def Let_def split: if_splits)

text \<open>An empty file is not copied: the destination is emptied and the program fails.\<close>

lemma mmap_cp_empty:
  assumes "fstat_ok env" and "ftruncate_ok env" and "strcmp a ''--help'' \<noteq> 0"
  shows "mmap_cp_main env (Some []) (Some d) [prog, a, b] = (Some (stop_with ''mmap - source''), Some [])"
  using assms by (simp add: mmap_cp_main_def)

end
