(* ===== verification/Process_Programs.thy ===== *)
theory Process_Programs
  imports Error_Functions
begin

text \<open>
  Programs about processes and what they use: \<open>34-3-setpgid_test.c\<close>, \<open>34-5-sighup_not_sent.c\<close>, \<open>35-3-sched_fifo.c\<close>,
  \<open>36-1-getrusage_test.c\<close>, \<open>36-2-rusage.c\<close> and \<open>6-2-illegal_longjmp.c\<close>.
\<close>

section \<open>Process groups\<close>

text \<open>A process that could be put into a group of its own leads this group, and then cannot start a session.\<close>

definition setpgid_main :: "bool \<Rightarrow> string result" where
  "setpgid_main setpgid_ok =
     (if \<not> setpgid_ok then Inl (stop_with ''setpgid'')
      else let leader = True; setsid = (if leader then -1 else 0 :: int) in
        Inr (if setsid = -1 then ''Can't set sid'' @ [newline] else ''Sid set'' @ [newline]))"

text \<open>\<open>34-5\<close>: what becomes of each process of the loop.  Parent and child both go through the rest of the first round and leave the
  loop.\<close>

record hup_process =
  is_child :: bool
  own_group :: bool
  handles_hup :: bool

definition hup_round :: "bool \<Rightarrow> bool \<Rightarrow> string \<Rightarrow> bool \<Rightarrow> hup_process result" where
  "hup_round setpgid_ok sigaction_ok arg child =
     (let d = (arg \<noteq> [] \<and> hd arg = CHR ''d'') in
      if d \<and> \<not> setpgid_ok then Inl (stop_with ''setpgid'')
      else if \<not> sigaction_ok then Inl (stop_with ''sigaction'')
      else Inr \<lparr>is_child = child, own_group = d, handles_hup = True\<rparr>)"

text \<open>What a process prints when \<open>SIGHUP\<close> arrives, with \<open>%2d\<close> for the number.\<close>

definition hup_text :: "int \<Rightarrow> (int \<Rightarrow> string) \<Rightarrow> int \<Rightarrow> string" where
  "hup_text pid strsignal sig = ''PID '' @ dec_int pid @ '': caught signal '' @ replicate (2 - length (dec_int sig)) CHR '' '' @ dec_int sig @
     '' ('' @ strsignal sig @ '')'' @ [newline]"

definition hup_main :: "bool \<Rightarrow> (bool \<Rightarrow> bool) \<Rightarrow> (bool \<Rightarrow> bool) \<Rightarrow> string list \<Rightarrow> hup_process result list" where
  "hup_main fork_ok setpgid_ok sigaction_ok argv =
     (if length argv < 2 \<or> strcmp (argv ! 1) ''--help'' = 0
      then [Inl (stop_with (argv ! 0 @ '' {d|s}... [ > sig.log 2>&1 ]'' @ [newline]))]
      else if \<not> fork_ok then [Inl (stop_with ''fork'')]
      else map (\<lambda>child. hup_round (setpgid_ok child) (sigaction_ok child) (argv ! 1) child) [False, True])"

text \<open>However many arguments there are, one child is made; and a \<open>d\<close> moves the parent as well.\<close>

lemma hup_one_child:
  assumes "strcmp a ''--help'' \<noteq> 0"
  shows "hup_main True (\<lambda>_. True) (\<lambda>_. True) (prog # a # args) =
    [Inr \<lparr>is_child = False, own_group = (a \<noteq> [] \<and> hd a = CHR ''d''), handles_hup = True\<rparr>,
     Inr \<lparr>is_child = True, own_group = (a \<noteq> [] \<and> hd a = CHR ''d''), handles_hup = True\<rparr>]"
  using assms by (simp add: hup_main_def hup_round_def)

section \<open>Processor time\<close>

record tms =
  tms_utime :: int
  tms_stime :: int

definition CLOCKS_PER_SEC :: int where "CLOCKS_PER_SEC = 1000000"

text \<open>The division of C, towards 0, by a positive number.\<close>

definition c_div :: "int \<Rightarrow> int \<Rightarrow> int" where "c_div a b = (if a < 0 then - ((- a) div b) else a div b)"

definition DIFF_4TIME :: "tms \<Rightarrow> tms \<Rightarrow> int" where
  "DIFF_4TIME x y = c_div (((tms_utime x + tms_stime x) - tms_utime y + tms_stime y) * 4) CLOCKS_PER_SEC"

datatype time_action = Show int | Yield

text \<open>The loop over what \<open>times\<close> gives; the second component tells whether it was left.\<close>

fun time_loop :: "tms \<Rightarrow> tms list \<Rightarrow> tms \<Rightarrow> tms \<Rightarrow> time_action list \<times> bool" where
  "time_loop start [] last_print last_yield = ([], False)"
| "time_loop start (cur # samples) last_print last_yield =
     (if DIFF_4TIME cur start \<ge> 12 then ([], True)
      else let show = DIFF_4TIME cur last_print \<ge> 1; yield = DIFF_4TIME cur last_yield \<ge> 4;
               (acts, ended) = time_loop start samples (if show then cur else last_print) (if yield then cur else last_yield) in
        ((if show then [Show (c_div (DIFF_4TIME cur start) 4)] else []) @ (if yield then [Yield] else []) @ acts, ended))"

definition use_time :: "tms \<Rightarrow> tms list \<Rightarrow> time_action list \<times> bool" where
  "use_time start samples = time_loop start samples start start"

definition sched_fifo_main :: "bool \<Rightarrow> bool \<Rightarrow> tms \<Rightarrow> tms list \<Rightarrow> (time_action list \<times> bool) result" where
  "sched_fifo_main sched_ok fork_ok start samples =
     (if \<not> sched_ok then Inl (stop_with ''sched_setscheduler'') else if \<not> fork_ok then Inl (stop_with ''fork'')
      else Inr (use_time start samples))"

text \<open>Quarters of a second that a process used since \<open>y\<close>, if the times were in units of \<open>CLOCKS_PER_SEC\<close>: the macro gives this only where
  \<open>y\<close> has no system time.\<close>

definition quarters :: "tms \<Rightarrow> tms \<Rightarrow> int" where
  "quarters x y = c_div (((tms_utime x + tms_stime x) - (tms_utime y + tms_stime y)) * 4) CLOCKS_PER_SEC"

lemma diff_without_system_time: "tms_stime y = 0 \<Longrightarrow> DIFF_4TIME x y = quarters x y"
  by (simp add: DIFF_4TIME_def quarters_def)

lemma diff_counts_system_time: "DIFF_4TIME x y = quarters (x\<lparr>tms_stime := tms_stime x + 2 * tms_stime y\<rparr>) y"
  by (simp add: DIFF_4TIME_def quarters_def algebra_simps)

text \<open>\<open>times\<close> counts a hundred ticks to the second: the loop is left after 3000000 ticks, which are 30000 seconds and not 3.\<close>

lemma c_div_12: "12 \<le> c_div a CLOCKS_PER_SEC \<longleftrightarrow> 12000000 \<le> a"
  unfolding c_div_def CLOCKS_PER_SEC_def by (cases "a < 0") (simp_all, arith+)

lemma time_loop_ends:
  assumes "tms_stime start = 0"
  shows "snd (time_loop start samples p y) \<longleftrightarrow> (\<exists>t\<in>set samples. 3000000 \<le> tms_utime t + tms_stime t - tms_utime start)"
proof (induction samples arbitrary: p y)
  case (Cons t samples)
  have "DIFF_4TIME t start \<ge> 12 \<longleftrightarrow> 3000000 \<le> tms_utime t + tms_stime t - tms_utime start"
    using assms by (auto simp: DIFF_4TIME_def c_div_12)
  then show ?case using Cons.IH by (simp add: Let_def case_prod_beta)
qed simp

section \<open>Resource usage\<close>

record rusage =
  ru_utime :: "int \<times> int"       \<comment> \<open>seconds and microseconds\<close>
  ru_stime :: "int \<times> int"
  ru_maxrss :: int
  ru_ixrss :: int
  ru_idrss :: int
  ru_isrss :: int
  ru_minflt :: int
  ru_majflt :: int
  ru_nswap :: int
  ru_inblock :: int
  ru_oublock :: int
  ru_nsignals :: int
  ru_msgsnd :: int
  ru_msgrcv :: int
  ru_nvcsw :: int
  ru_nivcsw :: int

text \<open>The text of a time with three decimals, which \<open>printf\<close> makes of a sum of floating point numbers, is an argument.  An entry of the
  list is a line.\<close>

definition rusage_lines :: "(int \<times> int \<Rightarrow> string) \<Rightarrow> rusage \<Rightarrow> string list" where
  "rusage_lines secs ru =
     [''CPU time (secs):         user='' @ secs (ru_utime ru) @ ''; system='' @ secs (ru_stime ru),
      ''Max resident set size:   '' @ dec_int (ru_maxrss ru),
      ''Integral shared memory:  '' @ dec_int (ru_ixrss ru),
      ''Integral unshared data:  '' @ dec_int (ru_idrss ru),
      ''Integral unshared stack: '' @ dec_int (ru_isrss ru),
      ''Page reclaims:           '' @ dec_int (ru_minflt ru),
      ''Page faults:             '' @ dec_int (ru_majflt ru),
      ''Swaps:                   '' @ dec_int (ru_nswap ru),
      ''Block I/Os:              input='' @ dec_int (ru_inblock ru) @ ''; output='' @ dec_int (ru_oublock ru),
      ''Signals received:        '' @ dec_int (ru_nsignals ru),
      ''IPC messages:            sent='' @ dec_int (ru_msgsnd ru) @ ''; received='' @ dec_int (ru_msgrcv ru),
      ''Context switches:        voluntary='' @ dec_int (ru_nvcsw ru) @ ''; involuntary='' @ dec_int (ru_nivcsw ru)]"

definition printRusage :: "(int \<times> int \<Rightarrow> string) \<Rightarrow> string option \<Rightarrow> rusage \<Rightarrow> string" where
  "printRusage secs leader ru =
     (let ldr = (case leader of None \<Rightarrow> [] | Some l \<Rightarrow> l) in concat (map (\<lambda>l. ldr @ l @ [newline]) (rusage_lines secs ru)))"

text \<open>The usage of the children that were waited for: \<open>getrusage\<close> is a function of whether the child is among them.\<close>

definition getrusage_main ::
    "(int \<times> int \<Rightarrow> string) \<Rightarrow> int \<Rightarrow> (bool \<Rightarrow> rusage option) \<Rightarrow> bool \<Rightarrow> string result" where
  "getrusage_main secs fork_result getrusage wait_ok =
     (if fork_result = -1 then Inl (stop_with ''fork'')
      else if fork_result = 0 then Inr (''child finished'' @ [newline])
      else case getrusage False of None \<Rightarrow> Inl (stop_with ''getrusage'') | Some u \<Rightarrow>
        if \<not> wait_ok then Inl (stop_with ''wait'')
        else case getrusage True of None \<Rightarrow> Inl (stop_with ''getrusage'') | Some v \<Rightarrow>
          Inr (printRusage secs (Some ''Before child end: '') u @ printRusage secs (Some ''Before wait: '') u @
            printRusage secs (Some ''After wait: '') v))"

text \<open>The child of \<open>36-2\<close> runs the command; when \<open>execv\<close> returns it has failed.\<close>

definition rusage_main ::
    "(int \<times> int \<Rightarrow> string) \<Rightarrow> int \<Rightarrow> bool \<Rightarrow> (bool \<Rightarrow> rusage option) \<Rightarrow> string list \<Rightarrow> string result" where
  "rusage_main secs fork_result wait_ok getrusage argv =
     (if length argv < 2 \<or> strcmp (argv ! 1) ''--help'' = 0 then Inl (stop_with (argv ! 0 @ '' command arg...'' @ [newline]))
      else if fork_result = -1 then Inl (stop_with ''fork'')
      else if fork_result = 0 then Inl (stop_with ''execl'')
      else if \<not> wait_ok then Inl (stop_with ''wait'')
      else case getrusage True of None \<Rightarrow> Inl (stop_with ''getrusage'') | Some v \<Rightarrow> Inr (printRusage secs (Some []) v))"

lemma printRusage_no_leader: "printRusage secs None ru = printRusage secs (Some []) ru"
  by (simp add: printRusage_def)

text \<open>What \<open>36-2\<close> shows of a command is what \<open>36-1\<close> shows of its child behind the wait, without the leader.\<close>

lemma rusage_agrees:
  assumes "rusage_main secs pid True getrusage [prog, cmd] = Inr out" and "getrusage_main secs pid getrusage True = Inr out'"
  shows "\<exists>v. getrusage True = Some v \<and> out = concat (map (\<lambda>l. l @ [newline]) (rusage_lines secs v)) \<and>
    (\<exists>front. out' = front @ concat (map (\<lambda>l. ''After wait: '' @ l @ [newline]) (rusage_lines secs v)))"
proof (cases "getrusage True")
  case (Some v)
  have "pid \<noteq> 0" "pid \<noteq> -1" using assms(1) by (auto simp: rusage_main_def split: if_splits)
  then show ?thesis using assms Some
    by (auto simp: rusage_main_def getrusage_main_def printRusage_def Let_def simp del: list.map concat.simps
        split: if_splits option.splits)
qed (use assms(1) in \<open>auto simp: rusage_main_def split: if_splits\<close>)

section \<open>A jump into a function that has returned\<close>

datatype jmp_buf = Unset | In_frame | Frame_gone

text \<open>\<open>f2\<close> saves its own frame and returns.\<close>

definition f2 :: "jmp_buf \<times> string \<Rightarrow> jmp_buf \<times> string" where
  "f2 st = (Frame_gone, snd st @ ''this is f2'')"

definition f1 :: "jmp_buf \<times> string \<Rightarrow> (jmp_buf \<times> string) result" where
  "f1 st = (if fst st = In_frame then Inr (In_frame, snd st @ ''this is f1'') else Inl (Undefined UseAfterFree))"

definition longjmp_main :: "(jmp_buf \<times> string) result" where
  "longjmp_main = f1 (f2 (Unset, []))"

lemma longjmp_undefined: "longjmp_main = Inl (Undefined UseAfterFree)"
  by (simp add: longjmp_main_def f1_def f2_def)

end
