(* ===== verification/Signal_Waits.thy ===== *)
theory Signal_Waits
  imports Signal_Programs
begin

text \<open>
  More programs on signals: \<open>22-2-sig_handle_order.c\<close> (the order of delivery), \<open>26-4-sync_with_signal.c\<close> (a parent that waits with
  \<open>pause\<close>), and \<open>20-3-sa_resethand.c\<close> and \<open>20-3-2-sa_nodefer.c\<close>, which install a handler with a flag and end.
\<close>

section \<open>The order of delivery\<close>

definition SIGRTMAX :: nat where "SIGRTMAX = 64"

definition order_handler :: "nat \<Rightarrow> string list \<Rightarrow> string list" where
  "order_handler sig out = out @ [''Receive signal '' @ dec_nat sig @ [newline]]"

definition order_messages :: "string list" where
  "order_messages = [''The minimum realtime signal number is '' @ dec_nat SIGRTMIN @ [newline],
     ''The maximum realtime signal number is '' @ dec_nat SIGRTMAX @ [newline],
     ''Now all signals are blocked'' @ [newline], ''Now the handler is set for all signals'' @ [newline],
     ''Then the program will wait for 60 seconds'' @ [newline], ''Then all signals will be unblocked'' @ [newline]]"

definition tell :: "nat \<Rightarrow> string list sigs \<Rightarrow> string list sigs" where
  "tell i k = k\<lparr>data := data k @ [order_messages ! i]\<rparr>"

text \<open>The signals of \<open>arrivals\<close> are sent during the 60 seconds in which all are blocked; the endless loop behind is left out.\<close>

definition order_main :: "nat list \<Rightarrow> string list sigs" where
  "order_main arrivals =
     (let k = tell 1 (tell 0 (at_start []));
          k = tell 2 (set_mask order_handler UNIV k);
          k = tell 3 (fold (\<lambda>n. set_action n Handler) [1..<SIGRTMAX + 1] k);
          k = fold (send order_handler) arrivals (tell 4 k) in
      set_mask order_handler {} (tell 5 k))"

text \<open>Handled signals, for data of any kind.\<close>

lemma fold_deliver_all:
  "\<forall>s\<in>set ss. disposition k s = Handler \<Longrightarrow> killed_by k = None \<Longrightarrow>
   fold (deliver h) ss k = k\<lparr>data := fold h ss (data k)\<rparr>"
  by (induction ss arbitrary: k) (auto simp: deliver_def)

lemma fold_send_all:
  "blocked k = UNIV \<Longrightarrow> \<forall>s\<in>set ss. s \<noteq> SIGKILL \<and> s \<noteq> SIGSTOP \<Longrightarrow> fold (send h) ss k = k\<lparr>sent := pending_after ss (sent k)\<rparr>"
  by (induction ss arbitrary: k) (auto simp: send_def)

lemma fold_order_handler: "fold order_handler ss out = out @ map (\<lambda>s. ''Receive signal '' @ dec_nat s @ [newline]) ss"
  by (induction ss arbitrary: out) (auto simp: order_handler_def)

text \<open>The signals are reported in ascending order, a standard signal once however often it was sent.\<close>

lemma signals_in_order:
  assumes "\<forall>s\<in>set arrivals. catchable s"
  shows "\<exists>front got. data (order_main arrivals) = front @ map (\<lambda>s. ''Receive signal '' @ dec_nat s @ [newline]) got \<and>
    length front = 6 \<and> sorted got \<and> set got = set arrivals \<and>
    (\<forall>n. count_list got n = (if n < SIGRTMIN then min 1 (count_list arrivals n) else count_list arrivals n))"
proof -
  let ?got = "sort (pending_after arrivals [])"
  have h: "\<forall>s\<in>set arrivals. s \<in> set [1..<SIGRTMAX + 1] \<and> s \<noteq> SIGKILL \<and> s \<noteq> SIGSTOP"
    using assms by (auto simp: catchable_def NSIG_def SIGRTMAX_def)
  define front where "front = map ((!) order_messages) [0, 1, 2, 3, 4, 5]"
  define k where "k = \<lparr>sent = [], blocked = UNIV, disposition = (\<lambda>s. if s \<in> set [1..<SIGRTMAX + 1] \<and> s \<noteq> SIGKILL \<and> s \<noteq> SIGSTOP
      then Handler else Default), killed_by = None, data = map ((!) order_messages) [0, 1, 2, 3, 4]\<rparr>"
  have s: "fold (send order_handler) arrivals k = k\<lparr>sent := pending_after arrivals []\<rparr>"
    using fold_send_all[of k arrivals order_handler] h by (simp add: k_def)
  have "tell 4 (tell 3 (fold (\<lambda>n. set_action n Handler) [1..<SIGRTMAX + 1] (tell 2 (set_mask order_handler UNIV (tell 1 (tell 0 (at_start []))))))) = k"
    by (simp add: tell_def at_start_def set_mask_def fold_set_action k_def del: upt_Suc cong: if_cong)
  then have "order_main arrivals = set_mask order_handler {} (tell 5 (k\<lparr>sent := pending_after arrivals []\<rparr>))"
    by (simp only: order_main_def Let_def s)
  then have "order_main arrivals = set_mask order_handler {} (k\<lparr>sent := pending_after arrivals [], data := front\<rparr>)"
    by (simp add: tell_def k_def front_def)
  moreover have "fold (deliver order_handler) ?got (k\<lparr>data := front, blocked := {}, sent := []\<rparr>) =
      k\<lparr>data := fold order_handler ?got front, blocked := {}, sent := []\<rparr>"
    using h by (subst fold_deliver_all) (auto simp: k_def set_pending_after)
  ultimately have "data (order_main arrivals) = fold order_handler ?got front" by (simp add: set_mask_def)
  then show ?thesis
    by (intro exI[of _ front] exI[of _ ?got])
       (simp add: fold_order_handler front_def set_pending_after count_sort count_pending_after)
qed

section \<open>Waiting for a child with pause\<close>

text \<open>\<open>pause\<close> returns when a handler has run: the state then, or \<open>None\<close> if it goes on waiting.\<close>

fun pause_until :: "(nat \<Rightarrow> 'a \<Rightarrow> 'a) \<Rightarrow> nat list \<Rightarrow> 'a sigs \<Rightarrow> 'a sigs option" where
  "pause_until h [] k = None"
| "pause_until h (s # ss) k =
     (let k1 = send h s k in
      if killed_by k1 \<noteq> None then Some k1
      else if s \<notin> blocked k \<and> disposition k s = Handler then Some k1 else pause_until h ss k1)"

definition cmd_text :: "string \<Rightarrow> string" where "cmd_text base = snprintf 200 (''ps | grep '' @ base)"

text \<open>The parent: the commands that it runs with \<open>system\<close> and the signal it sends.  The signals that it gets while it waits are an argument.\<close>

definition sync_signal_parent :: "string \<Rightarrow> nat list \<Rightarrow> (string list \<times> nat) result option" where
  "sync_signal_parent base arrivals = (case pause_until (\<lambda>s u. u) arrivals (at_start ()) of
     None \<Rightarrow> None
   | Some k \<Rightarrow> (case killed_by k of Some sig \<Rightarrow> Some (Inl (Exit (128 + int sig) []))
      | None \<Rightarrow> Some (Inr ([cmd_text base, cmd_text base], SIGKILL))))"

definition sync_signal_main :: "int \<Rightarrow> string \<Rightarrow> nat list \<Rightarrow> (string list \<times> nat) result option" where
  "sync_signal_main fork_result base arrivals =
     (if fork_result = -1 then Some (Inl (stop_with ''fork''))
      else if fork_result = 0 then Some (Inl (Exit EXIT_SUCCESS []))
      else sync_signal_parent base arrivals)"

text \<open>No handler is installed, so that the end of the child does not end the wait: the program never gets to what it is about.\<close>

lemma pause_without_handler:
  assumes "\<forall>s. disposition k s = Default" and "killed_by k = None" and "pause_until h ss k = Some k'"
  shows "killed_by k' \<noteq> None"
  using assms
proof (induction ss arbitrary: k)
  case (Cons s ss)
  have "disposition (send h s k) = disposition k" by (simp add: send_def deliver_def Cons.prems(1) split: disposition.splits)
  then show ?case using Cons.IH[of "send h s k"] Cons.prems by (auto simp: Let_def split: if_splits)
qed simp

lemma sync_signal_never_goes_on: "sync_signal_parent base arrivals \<noteq> Some (Inr r)"
proof (cases "pause_until (\<lambda>s u. u) arrivals (at_start ())")
  case (Some k)
  then have "killed_by k \<noteq> None" by (rule pause_without_handler[rotated 2]) (simp_all add: at_start_def)
  then show ?thesis using Some by (auto simp: sync_signal_parent_def)
qed (simp add: sync_signal_parent_def)

section \<open>A child that waits for its terminal\<close>

text \<open>\<open>34-7\<close>: the child of a parent that ends at once waits for a signal.  The case of the child has no \<open>break\<close>: it goes on into the
  parent's.  The text has the name of the signal; \<open>None\<close> is a child that waits.\<close>

definition SIGTTIN :: nat where "SIGTTIN = 21"

definition ttin_handler :: "(nat \<Rightarrow> string) \<Rightarrow> nat \<Rightarrow> string \<Rightarrow> string" where
  "ttin_handler strsignal sig out = out @ ''got signal '' @ dec_nat sig @ ''('' @ strsignal sig @ '')'' @ [newline]"

definition parent_exit :: "int \<Rightarrow> string" where
  "parent_exit child = ''Parent exit(Child's pid is '' @ dec_int child @ '')'' @ [newline]"

definition orphan_main :: "(nat \<Rightarrow> string) \<Rightarrow> int \<Rightarrow> bool \<Rightarrow> nat list \<Rightarrow> string result option" where
  "orphan_main strsignal fork_result signal_ok arrivals =
     (if fork_result = -1 then Some (Inl (stop_with ''fork''))
      else if fork_result \<noteq> 0 then Some (Inr (parent_exit fork_result))
      else if \<not> signal_ok then Some (Inl (stop_with ''signal''))
      else case pause_until (ttin_handler strsignal) arrivals (set_action SIGTTIN Handler (at_start [])) of
        None \<Rightarrow> None
      | Some k \<Rightarrow> (case killed_by k of Some sig \<Rightarrow> Some (Inl (Exit (128 + int sig) []))
          | None \<Rightarrow> Some (Inr (data k @ ''Child'' @ [newline] @ parent_exit 0))))"

lemma orphan_after_signal:
  "orphan_main strsignal 0 True (SIGTTIN # arrivals) =
     Some (Inr (''got signal '' @ dec_nat 21 @ ''('' @ strsignal 21 @ '')'' @ [newline] @ ''Child'' @ [newline] @ parent_exit 0))"
  by (simp add: orphan_main_def set_action_def send_def deliver_def at_start_def ttin_handler_def SIGTTIN_def signal_numbers)

section \<open>Handlers with a flag\<close>

text \<open>The flags, whether all signals are blocked in the handler, and what the programs return.\<close>

definition SA_NODEFER :: "32 word" where "SA_NODEFER = 0x40000000"
definition SA_RESETHAND :: "32 word" where "SA_RESETHAND = 0x80000000"

record sigaction =
  sa_handler :: string
  sa_mask :: "nat set"
  sa_flags :: "32 word"

definition nodefer_main :: "bool \<Rightarrow> (sigaction \<times> int) result" where
  "nodefer_main sigaction_ok = (if \<not> sigaction_ok then Inl (stop_with ''sigaction'')
     else Inr (\<lparr>sa_handler = ''handle begin'' @ [newline] @ ''handle end'' @ [newline], sa_mask = {}, sa_flags = SA_NODEFER\<rparr>, 0))"

definition resethand_main :: "bool \<Rightarrow> (sigaction \<times> int) result" where
  "resethand_main sigaction_ok = (if \<not> sigaction_ok then Inl (stop_with ''sigaction'')
     else Inr (\<lparr>sa_handler = ''next time will terminate the process'' @ [newline], sa_mask = UNIV, sa_flags = SA_RESETHAND\<rparr>, 0))"

end
