(* ===== verification/Families.thy ===== *)
theory Families
  imports Error_Functions
begin

text \<open>
  Parents and children that sleep and look at each other: \<open>26-1-parent_process_end.c\<close>, \<open>26-2-three_generation_process.c\<close>,
  \<open>34-2-parent_change_child_pgrp.c\<close> and \<open>34-6-orphan_group_read_tty.c\<close>.  What a process does is a list of actions with the second
  in which they come, which its sleeps determine; the actions of all are done in the order of their times.
\<close>

section \<open>Processes in time\<close>

datatype act =
    Show_parent string       \<comment> \<open>prints a text and the result of \<open>getppid\<close>\<close>
  | Tell string
  | Wait_child
  | Finish

record family =
  parent_of :: "nat \<Rightarrow> nat"
  zombies :: "nat list"
  told :: "string list"
  wait_failed :: bool

text \<open>The children of a process that ends go to process 1.\<close>

definition do_act :: "nat \<times> nat \<times> act \<Rightarrow> family \<Rightarrow> family" where
  "do_act e f = (case e of (t, pid, a) \<Rightarrow> (case a of
     Show_parent txt \<Rightarrow> f\<lparr>told := told f @ [txt @ dec_nat (parent_of f pid)]\<rparr>
   | Tell txt \<Rightarrow> f\<lparr>told := told f @ [txt]\<rparr>
   | Finish \<Rightarrow> f\<lparr>parent_of := (\<lambda>c. if parent_of f c = pid then 1 else parent_of f c), zombies := pid # zombies f\<rparr>
   | Wait_child \<Rightarrow> if \<exists>z\<in>set (zombies f). parent_of f z = pid
       then f\<lparr>zombies := filter (\<lambda>z. parent_of f z \<noteq> pid) (zombies f)\<rparr> else f\<lparr>wait_failed := True\<rparr>))"

definition run_family :: "(nat \<times> nat \<times> act) list \<Rightarrow> (nat \<Rightarrow> nat) \<Rightarrow> family" where
  "run_family acts parents = fold do_act (sort_key fst acts) \<lparr>parent_of = parents, zombies = [], told = [], wait_failed = False\<rparr>"

section \<open>The programs\<close>

text \<open>\<open>26-1\<close>: the parent ends at once, the child shows its parent ten seconds later.\<close>

definition parent_end_main :: "bool \<Rightarrow> nat \<Rightarrow> nat \<Rightarrow> (nat \<Rightarrow> nat) \<Rightarrow> string list result" where
  "parent_end_main fork_ok parent child parents =
     (if \<not> fork_ok then Inl (stop_with ''fork'')
      else Inr (told (run_family ([(10, child, Show_parent ''Parent is ''), (10, child, Finish)] @ [(0, parent, Finish)])
        (parents(child := parent)))))"

text \<open>\<open>26-2\<close>: the child's own child shows its parent three times; the child ends after five seconds, and is waited for after fifteen.  A child whose own
  \<open>fork\<close> fails says so and ends at once.\<close>

definition three_generations :: "bool \<Rightarrow> nat \<Rightarrow> nat \<Rightarrow> nat \<Rightarrow> (nat \<times> nat \<times> act) list" where
  "three_generations fork2_ok grandparent parent child =
     (if \<not> fork2_ok then [(0, parent, Tell ''fork''), (0, parent, Finish)]
      else [(0, child, Show_parent ''PPid is ''), (10, child, Show_parent ''PPid is ''), (20, child, Show_parent ''PPid is ''), (20, child, Finish)] @
       [(5, parent, Tell ''Now parent process turns into a zombie process''), (5, parent, Finish)]) @
     [(15, grandparent, Wait_child), (15, grandparent, Tell ''Now the parent process is recycled''), (15, grandparent, Finish)]"

definition three_generations_main :: "bool \<Rightarrow> bool \<Rightarrow> nat \<Rightarrow> nat \<Rightarrow> nat \<Rightarrow> (nat \<Rightarrow> nat) \<Rightarrow> string list result" where
  "three_generations_main fork1_ok fork2_ok grandparent parent child parents =
     (if \<not> fork1_ok then Inl (stop_with ''fork'')
      else let f = run_family (three_generations fork2_ok grandparent parent child) (parents(parent := grandparent, child := parent)) in
        if wait_failed f then Inl (stop_with ''wait'') else Inr (told f))"

text \<open>\<open>34-2\<close>: the parent changes the group of its child before and after the child's \<open>exec\<close>.  The child passes the number 1 as a pointer to
  \<open>execl\<close>.  What is printed by the parent, or the result of the child.\<close>

definition change_pgrp_main :: "int \<Rightarrow> bool \<Rightarrow> bool \<Rightarrow> string list \<Rightarrow> string result" where
  "change_pgrp_main fork_result first_ok second_ok argv =
     (if length argv \<noteq> 1 then Inl (Exit EXIT_SUCCESS (''exec'' @ [newline]))
      else if fork_result = -1 then Inl (Exit EXIT_FAILURE [])
      else if fork_result = 0 then Inl (Exit EXIT_FAILURE [])
      else Inr ((if first_ok then ''Change the process group of child succesfully before exec'' @ [newline] else []) @
        (if \<not> second_ok then ''Can't change the process group of child after exec'' @ [newline] else [])))"

definition EIO :: int where "EIO = 5"

text \<open>\<open>34-6\<close>: \<open>read_error\<close> is the error number of \<open>read\<close>, if it fails.  Parent and child both end with success.\<close>

definition read_tty_main :: "int \<Rightarrow> int option \<Rightarrow> stop" where
  "read_tty_main fork_result read_error =
     (if fork_result = -1 then stop_with ''fork''
      else if fork_result = 0 \<and> read_error = Some EIO then Exit EXIT_SUCCESS (''We got EIO'' @ [newline])
      else Exit EXIT_SUCCESS [])"

section \<open>What is shown\<close>

lemma parent_end_shows_init: "parent \<noteq> child \<Longrightarrow> parent_end_main True parent child parents = Inr [''Parent is '' @ dec_nat 1]"
  by (simp add: parent_end_main_def run_family_def do_act_def)

text \<open>An orphan belongs to process 1 from the moment at which its parent ends, not only from when that is waited for.\<close>

lemma three_generations_output:
  assumes "distinct [1, grandparent, parent, child]"
  shows "three_generations_main True True grandparent parent child parents = Inr
    [''PPid is '' @ dec_nat parent, ''Now parent process turns into a zombie process'', ''PPid is '' @ dec_nat 1,
     ''Now the parent process is recycled'', ''PPid is '' @ dec_nat 1]"
  using assms by (auto simp: three_generations_main_def three_generations_def run_family_def do_act_def Let_def)

end
