(* ===== verification/File_Experiments.thy ===== *)
theory File_Experiments
  imports Error_Functions
begin

text \<open>
  \<open>18-2-chmod_fail.c\<close>, which changes the permissions of a symbolic link that leads nowhere, and \<open>15-1-b-unXable_dir.c\<close>, which takes the
  permission to search from a directory, and \<open>15-1-a-file_owner_cap_test.c\<close>, which makes a file that its owner may not read (the second
  declaration of its \<open>fd\<close>, which does not compile, is read as an assignment).  A file is named by the list of the names on its way from the top; the process is the owner
  of all files and not privileged, and its umask is 0.
\<close>

section \<open>Directories\<close>

datatype file_node = Regular "12 word" | Directory "12 word" | Symlink "string list"

type_synonym dir_tree = "string list \<rightharpoonup> file_node"

definition S_IRUSR :: "12 word" where "S_IRUSR = 0x100"
definition S_IWUSR :: "12 word" where "S_IWUSR = 0x080"
definition S_IXUSR :: "12 word" where "S_IXUSR = 0x040"

lemmas user_bits = S_IRUSR_def S_IWUSR_def S_IXUSR_def

definition ENOENT :: int where "ENOENT = 2"
definition EACCES :: int where "EACCES = 13"
definition EEXIST :: int where "EEXIST = 17"
definition ENOTDIR :: int where "ENOTDIR = 20"

text \<open>A relative name as seen from a directory: every directory on the way has to be searchable.  The left value is an error number.\<close>

fun walk :: "dir_tree \<Rightarrow> string list \<Rightarrow> string list \<Rightarrow> int + string list" where
  "walk fs p [] = Inr p"
| "walk fs p (c # cs) = (case fs p of None \<Rightarrow> Inl ENOENT
     | Some (Directory m) \<Rightarrow> if m AND S_IXUSR = 0 then Inl EACCES
         else if c = ''..'' then walk fs (butlast p) cs else walk fs (p @ [c]) cs
     | Some n \<Rightarrow> Inl ENOTDIR)"

text \<open>A link at the end of the name is followed from the directory in which it is, and to one that is not itself a link.\<close>

definition follow :: "dir_tree \<Rightarrow> string list \<Rightarrow> string list \<Rightarrow> int + string list" where
  "follow fs cwd name = rbind (walk fs cwd name) (\<lambda>p. case fs p of Some (Symlink t) \<Rightarrow> walk fs (butlast p) t | n \<Rightarrow> Inr p)"

text \<open>A new entry needs the permission to write to its directory.\<close>

definition may_write :: "dir_tree \<Rightarrow> string list \<Rightarrow> bool" where
  "may_write fs d = (case fs d of Some (Directory m) \<Rightarrow> m AND S_IWUSR \<noteq> 0 | _ \<Rightarrow> False)"

definition add_entry :: "dir_tree \<Rightarrow> string list \<Rightarrow> string list \<Rightarrow> file_node \<Rightarrow> int + dir_tree" where
  "add_entry fs cwd name n = rbind (walk fs cwd name) (\<lambda>p.
     if fs p \<noteq> None then Inl EEXIST else if \<not> may_write fs (butlast p) then Inl EACCES else Inr (fs(p \<mapsto> n)))"

definition sys_chmod :: "dir_tree \<Rightarrow> string list \<Rightarrow> string list \<Rightarrow> 12 word \<Rightarrow> int + dir_tree" where
  "sys_chmod fs cwd name mode = rbind (follow fs cwd name) (\<lambda>p. case fs p of None \<Rightarrow> Inl ENOENT
     | Some (Directory m) \<Rightarrow> Inr (fs(p \<mapsto> Directory mode)) | Some (Regular m) \<Rightarrow> Inr (fs(p \<mapsto> Regular mode)) | Some n \<Rightarrow> Inl ENOENT)"

text \<open>\<open>open\<close> with \<open>O_CREAT\<close> for writing.\<close>

definition open_create :: "dir_tree \<Rightarrow> string list \<Rightarrow> string list \<Rightarrow> 12 word \<Rightarrow> int + dir_tree" where
  "open_create fs cwd name mode = rbind (follow fs cwd name) (\<lambda>p. case fs p of
     Some (Regular m) \<Rightarrow> if m AND S_IWUSR = 0 then Inl EACCES else Inr fs
   | Some n \<Rightarrow> Inl EACCES
   | None \<Rightarrow> if may_write fs (butlast p) then Inr (fs(p \<mapsto> Regular mode)) else Inl EACCES)"

text \<open>\<open>open\<close> with \<open>O_CREAT\<close> and \<open>O_EXCL\<close>, and for reading.\<close>

definition open_excl :: "dir_tree \<Rightarrow> string list \<Rightarrow> string list \<Rightarrow> 12 word \<Rightarrow> int + dir_tree" where
  "open_excl fs cwd name mode = add_entry fs cwd name (Regular mode)"

definition open_read :: "dir_tree \<Rightarrow> string list \<Rightarrow> string list \<Rightarrow> int + unit" where
  "open_read fs cwd name = rbind (follow fs cwd name) (\<lambda>p. case fs p of
     Some (Regular m) \<Rightarrow> if m AND S_IRUSR = 0 then Inl EACCES else Inr ()
   | Some (Directory m) \<Rightarrow> if m AND S_IRUSR = 0 then Inl EACCES else Inr ()
   | n \<Rightarrow> Inl ENOENT)"

text \<open>A directory that one goes into has to be searchable.\<close>

definition sys_chdir :: "dir_tree \<Rightarrow> string list \<Rightarrow> string list \<Rightarrow> int + string list" where
  "sys_chdir fs cwd name = rbind (follow fs cwd name) (\<lambda>p. case fs p of
     Some (Directory m) \<Rightarrow> if m AND S_IXUSR = 0 then Inl EACCES else Inr p | None \<Rightarrow> Inl ENOENT | Some n \<Rightarrow> Inl ENOTDIR)"

text \<open>A call whose result is not looked at.\<close>

definition ignore_error :: "dir_tree \<Rightarrow> int + dir_tree \<Rightarrow> dir_tree" where
  "ignore_error fs r = (case r of Inl e \<Rightarrow> fs | Inr fs' \<Rightarrow> fs')"

section \<open>The programs\<close>

text \<open>\<open>chmod_fail_main\<close> gives the files and what \<open>errExit\<close> reports, the text and the error number.\<close>

definition chmod_fail_main :: "dir_tree \<Rightarrow> string list \<Rightarrow> dir_tree \<times> stop \<times> int" where
  "chmod_fail_main fs cwd =
     (let fs = ignore_error fs (add_entry fs cwd [''test''] (Directory (S_IRUSR OR S_IWUSR OR S_IXUSR)));
          cwd = (case sys_chdir fs cwd [''test''] of Inl e \<Rightarrow> cwd | Inr p \<Rightarrow> p);
          fs = ignore_error fs (open_create fs cwd [''myfile''] (S_IRUSR OR S_IWUSR));
          fs = ignore_error fs (add_entry fs cwd [''..'', ''mylink''] (Symlink [''myfile'']));
          r = sys_chmod fs cwd [''..'', ''mylink''] S_IRUSR in
      (ignore_error fs r, stop_with ''chmod'', case r of Inl e \<Rightarrow> e | Inr fs' \<Rightarrow> 0))"

definition unx_dir_main :: "dir_tree \<Rightarrow> string list \<Rightarrow> (dir_tree \<times> int) result" where
  "unx_dir_main fs cwd =
     (case add_entry fs cwd [''test_dir''] (Directory (S_IRUSR OR S_IWUSR OR S_IXUSR)) of Inl e \<Rightarrow> Inl (stop_with ''mkdir'') | Inr fs1 \<Rightarrow>
     (case open_create fs1 cwd [''test_dir'', ''test''] (S_IRUSR OR S_IWUSR OR S_IXUSR) of Inl e \<Rightarrow> Inl (stop_with ''open'') | Inr fs2 \<Rightarrow>
     (case sys_chmod fs2 cwd [''test_dir''] S_IRUSR of Inl e \<Rightarrow> Inl (stop_with ''chmod'') | Inr fs3 \<Rightarrow> Inr (fs3, 0))))"

text \<open>The files and what is printed; \<open>lowest\<close> is the first free descriptor.\<close>

definition file_owner_main :: "int \<Rightarrow> dir_tree \<Rightarrow> string list \<Rightarrow> dir_tree \<times> string" where
  "file_owner_main lowest fs cwd =
     (let fs = ignore_error fs (open_excl fs cwd [''test_file''] 0x03F);
          fd = (case open_read fs cwd [''test_file''] of Inl e \<Rightarrow> -1 | Inr u \<Rightarrow> lowest) in
      (fs, dec_int fd @ [newline]))"

section \<open>What they show\<close>

text \<open>The link is made in the directory above, from where its text names nothing: \<open>chmod\<close> fails because there is no such file.\<close>

lemma chmod_of_dangling_link:
  assumes "fs [] = Some (Directory 0x1C0)" and "fs [''test''] = None" and "fs [''mylink''] = None" and "fs [''myfile''] = None"
    and "fs [''test'', ''myfile''] = None"
  shows "\<exists>fs'. chmod_fail_main fs [] = (fs', stop_with ''chmod'', ENOENT) \<and> fs' [''mylink''] = Some (Symlink [''myfile'']) \<and>
    fs' [''test'', ''myfile''] = Some (Regular (S_IRUSR OR S_IWUSR))"
  using assms
  by (simp add: chmod_fail_main_def ignore_error_def add_entry_def open_create_def sys_chmod_def sys_chdir_def follow_def may_write_def user_bits Let_def)

text \<open>Without the permission to search the directory its file is still there but can no longer be reached.\<close>

lemma unsearchable_directory:
  assumes "fs [] = Some (Directory 0x1C0)" and "fs [''test_dir''] = None" and "fs [''test_dir'', ''test''] = None"
  shows "\<exists>fs'. unx_dir_main fs [] = Inr (fs', 0) \<and> fs' [''test_dir'', ''test''] \<noteq> None \<and>
    walk fs' [] [''test_dir'', ''test''] = Inl EACCES"
  using assms
  by (simp add: unx_dir_main_def add_entry_def open_create_def sys_chmod_def follow_def may_write_def user_bits)

text \<open>The owner gets no more than the bits for the owner, whatever the group and the others may do.\<close>

lemma owner_may_not_read:
  assumes "fs cwd = Some (Directory m)" and "m AND S_IXUSR \<noteq> 0" and "m AND S_IWUSR \<noteq> 0" and "fs (cwd @ [''test_file'']) = None"
  shows "\<exists>fs'. file_owner_main lowest fs cwd = (fs', dec_int (-1) @ [newline]) \<and> fs' (cwd @ [''test_file'']) = Some (Regular 0x03F)"
proof -
  let ?fs = "fs(cwd @ [''test_file''] \<mapsto> Regular 0x03F)"
  have "open_excl fs cwd [''test_file''] 0x03F = Inr ?fs"
    using assms by (simp add: open_excl_def add_entry_def may_write_def)
  moreover have "open_read ?fs cwd [''test_file''] = Inl EACCES"
    using assms by (simp add: open_read_def follow_def S_IRUSR_def)
  ultimately show ?thesis by (simp add: file_owner_main_def ignore_error_def)
qed

end
