(* ===== verification/Timers.thy ===== *)
theory Timers
  imports Error_Functions
begin

text \<open>
  \<open>23-4-use_sigwaitinfo.c\<close>, as far as line 45: a timer is created and started for each argument.  What follows, blocking the signal and
  waiting for it, does not compile: \<open>mask\<close> is passed where its address is meant, and \<open>si\<close> and \<open>sig\<close> are not declared.  The function
  \<open>itimerspecFromStr\<close>, which fills in the times of a timer, is not in the repository.
\<close>

record timer_env =
  create_id :: "nat \<Rightarrow> int option"       \<comment> \<open>what \<open>timer_create\<close> gives for the j-th argument\<close>
  settime_ok :: "nat \<Rightarrow> bool"
  expires :: "nat \<Rightarrow> bool"               \<comment> \<open>whether a timer expires between this start and the next call\<close>

definition timer_text :: "int \<Rightarrow> string \<Rightarrow> string" where
  "timer_text tid arg = ''Timer ID: '' @ dec_int tid @ '' ('' @ arg @ '')'' @ [newline]"

text \<open>The default action of the signal, \<open>SIGRTMAX\<close>, ends the process.\<close>

fun start_timers :: "timer_env \<Rightarrow> nat \<Rightarrow> string list \<Rightarrow> int list \<Rightarrow> string \<Rightarrow> (int list \<times> string) result" where
  "start_timers env j [] tids out = Inr (tids, out)"
| "start_timers env j (a # as) tids out = (case create_id env j of None \<Rightarrow> Inl (stop_with ''timer_create'')
     | Some tid \<Rightarrow>
         if \<not> settime_ok env j then Inl (stop_with ''timer_settime'')
         else if expires env j then Inl (Exit (128 + 64) [])
         else start_timers env (j + 1) as (tids @ [tid]) (out @ timer_text tid a))"

definition timers_start :: "timer_env \<Rightarrow> bool \<Rightarrow> string list \<Rightarrow> (int list \<times> string) result" where
  "timers_start env calloc_ok argv =
     (if length argv < 2 then Inl (stop_with (argv ! 0 @ '' secs[/nsecs][:int-secs[/int-nsecs]]...'' @ [newline]))
      else if \<not> calloc_ok then Inl (stop_with ''malloc'')
      else start_timers env 0 (tl argv) [] [])"

text \<open>All timers are started only if none expires before the last start: the signal is not blocked yet.\<close>

lemma start_timers_result:
  "start_timers env j as tids out = Inr (tids', out') \<Longrightarrow>
   \<exists>new. tids' = tids @ new \<and> length new = length as \<and> out' = out @ concat (map2 timer_text new as) \<and>
     (\<forall>i<length as. create_id env (j + i) = Some (new ! i) \<and> \<not> expires env (j + i))"
proof (induction as arbitrary: j tids out)
  case (Cons a as)
  obtain tid where tid: "create_id env j = Some tid" "\<not> expires env j"
    "start_timers env (Suc j) as (tids @ [tid]) (out @ timer_text tid a) = Inr (tids', out')"
    using Cons.prems by (auto split: option.splits if_splits)
  from Cons.IH[OF tid(3)] obtain new where
    "tids' = (tids @ [tid]) @ new" "length new = length as" "out' = (out @ timer_text tid a) @ concat (map2 timer_text new as)"
    "\<forall>i<length as. create_id env (Suc j + i) = Some (new ! i) \<and> \<not> expires env (Suc j + i)" by blast
  then show ?case using tid(1,2) by (intro exI[of _ "tid # new"]) (auto simp: nth_Cons split: nat.splits)
qed simp

lemma early_timer_kills:
  assumes "create_id env 0 = Some tid" and "settime_ok env 0" and "expires env 0"
  shows "timers_start env True (prog # a # as) = Inl (Exit 192 [])"
  using assms by (simp add: timers_start_def)

end
