(* ===== verification/Talk_System.thy ===== *)
theory Talk_System
  imports Talk_Client
begin

text \<open>
  The talk programs together: clients that type lines, the server, and the child of any client that is logged in.  The queues of
  messages are lists, to which \<open>msgsnd\<close> appends and from which \<open>msgrcv\<close> takes the first message, as documented; none gets full.
\<close>

section \<open>Queues\<close>

type_synonym queues = "c_int \<Rightarrow> (clientMsg \<times> nat) list"

definition queue_send :: "queues sender" where
  "queue_send w q m len = (w(q := w q @ [(m, len)]), Sent)"

definition queue_rmid :: "queues remover" where
  "queue_rmid w q = (w(q := []), True)"

text \<open>What the receiver of a queue gets from it.\<close>

definition taken :: "(clientMsg \<times> nat) list \<Rightarrow> received list" where
  "taken ms = map (\<lambda>(m, len). Received m len) ms"

section \<open>Lines\<close>

text \<open>A line as \<open>fgets\<close> with 512 bytes reads it whole, without null bytes, and what the child prints for it.\<close>

definition typed_line :: "8 word list \<Rightarrow> bool" where
  "typed_line l \<longleftrightarrow> (\<exists>k. l = k @ [10] \<and> 10 \<notin> set k) \<and> 0 \<notin> set l \<and> length l \<le> 511"

definition shown_line :: "c_int \<Rightarrow> 8 word list \<Rightarrow> string" where
  "shown_line pid l = dec_int (sint pid) @ '': '' @ map (\<lambda>b. char_of (unat b)) l @ [newline, newline]"

definition carries :: "c_int \<Rightarrow> 8 word list \<Rightarrow> clientMsg \<Rightarrow> bool" where
  "carries pid l m \<longleftrightarrow> mtype m = TEXT_MSG \<and> msg_pid m = pid \<and> length (mtext m) = MAX_TEXT_LEN \<and> (\<exists>p. mtext m = l @ 0 # p)"

lemma read_line_whole:
  "10 \<notin> set k \<Longrightarrow> length k < n \<Longrightarrow> read_line n (k @ 10 # rest) = (k @ [10], rest)"
proof (induction k arbitrary: n)
  case Nil
  then show ?case by (cases n) auto
next
  case (Cons b k)
  then show ?case by (cases n) auto
qed

section \<open>The client that types\<close>

lemma client_text_line:
  assumes "typed_line l" and "stdin cl = l @ rest" and "length (mtext (cmsg cl)) = MAX_TEXT_LEN"
    and "mtype (cmsg cl) = TEXT_MSG" and "msg_pid (cmsg cl) = pid" and "\<And>w q m len. snd (sendq w q m len) = Sent"
  shows "\<exists>cl' m. client_text sendq rmid cl = Inr cl' \<and> carries pid l m \<and> sent cl' = sent cl @ [(serverId cl, m, CLI_LEN)] \<and>
    cmsg cl' = m \<and> stdin cl' = rest \<and> serverId cl' = serverId cl \<and> clientId cl' = clientId cl"
proof -
  obtain k where k: "l = k @ [10]" "10 \<notin> set k" "length l \<le> 511" using assms(1) by (auto simp: typed_line_def)
  let ?m = "(cmsg cl)\<lparr>mtext := l @ 0 # drop (length l + 1) (mtext (cmsg cl))\<rparr>"
  have len: "length (mtext ?m) = MAX_TEXT_LEN" using k(3) assms(3) by (simp add: MAX_TEXT_LEN_def)
  have f: "fgets_text cl = cl\<lparr>stdin := rest, cmsg := ?m\<rparr>"
    using read_line_whole[OF k(2), of 511 rest] k(1,3) assms(2) by (simp add: fgets_text_def)
  have w: "wire ?m CLI_LEN = ?m" using len by (simp add: wire_def CLI_LEN_def)
  have c: "carries pid l ?m" using len assms(4,5) by (auto simp: carries_def)
  obtain w' where s: "sendq (cworld cl) (serverId cl) ?m CLI_LEN = (w', Sent)" using assms(6) by (metis prod.collapse)
  show ?thesis using s c w by (simp add: client_text_def f send_to_def Let_def)
qed

lemma client_texts_lines:
  assumes "\<And>w q m len. snd (sendq w q m len) = Sent"
  shows "\<forall>l\<in>set ls. typed_line l \<Longrightarrow> stdin cl = concat ls @ rest \<Longrightarrow> length (mtext (cmsg cl)) = MAX_TEXT_LEN \<Longrightarrow>
    mtype (cmsg cl) = TEXT_MSG \<Longrightarrow> msg_pid (cmsg cl) = pid \<Longrightarrow>
    \<exists>cl' ms. client_texts sendq rmid (length ls) cl = Inr cl' \<and> list_all2 (carries pid) ls ms \<and>
      sent cl' = sent cl @ map (\<lambda>m. (serverId cl, m, CLI_LEN)) ms \<and> clientId cl' = clientId cl"
proof (induction ls arbitrary: cl)
  case (Cons l ls)
  have l: "typed_line l" and st: "stdin cl = l @ concat ls @ rest" using Cons.prems(1,2) by auto
  obtain cl1 m where 1: "client_text sendq rmid cl = Inr cl1" "carries pid l m" "sent cl1 = sent cl @ [(serverId cl, m, CLI_LEN)]"
    "cmsg cl1 = m" "stdin cl1 = concat ls @ rest" "serverId cl1 = serverId cl" "clientId cl1 = clientId cl"
    using client_text_line[where sendq = sendq and rmid = rmid, OF l st Cons.prems(3-5) assms] by blast
  have m: "length (mtext (cmsg cl1)) = MAX_TEXT_LEN" "mtype (cmsg cl1) = TEXT_MSG" "msg_pid (cmsg cl1) = pid"
    using 1(2,4) by (auto simp: carries_def)
  obtain cl' ms where "client_texts sendq rmid (length ls) cl1 = Inr cl'" "list_all2 (carries pid) ls ms"
    "sent cl' = sent cl1 @ map (\<lambda>m. (serverId cl1, m, CLI_LEN)) ms" "clientId cl' = clientId cl1"
    using Cons.IH[OF _ 1(5) m] Cons.prems(1) by auto
  then show ?case using 1 by (intro exI[of _ cl'] exI[of _ "m # ms"]) simp
qed simp

section \<open>The server\<close>

fun is_login :: "received \<Rightarrow> bool" where
  "is_login (Received m len) \<longleftrightarrow> mtype m = LOGIN_MSG"
| "is_login (Receive_error e) \<longleftrightarrow> False"

fun text_in :: "received \<Rightarrow> (clientMsg \<times> nat) list" where
  "text_in (Received m len) = (if mtype m = TEXT_MSG then [(m, len)] else [])"
| "text_in (Receive_error e) = []"

definition texts_of :: "received list \<Rightarrow> (clientMsg \<times> nat) list" where
  "texts_of R = concat (map text_in R)"

lemma texts_of_simps [simp]: "texts_of [] = []" "texts_of (r # R) = text_in r @ texts_of R"
  by (simp_all add: texts_of_def)

lemma unlink_after_quota: "unlink_after s p = Inr s' \<Longrightarrow> quota s' = quota s"
  by (auto simp: unlink_after_def set_next_def free_node_def)

lemma broadcast_quota:
  assumes "broadcast sendq rmid msg len sv p = Some r"
  shows "case r of Inl e \<Rightarrow> True | Inr sv' \<Rightarrow> quota (clients sv') = quota (clients sv)"
proof (rule broadcast.raw_induct [where P = "\<lambda>sendq rmid msg len sv p r. case r of Inl e \<Rightarrow> True | Inr sv' \<Rightarrow> quota (clients sv') = quota (clients sv)",
      OF _ assms], goal_cases)
  case (1 rec sendq rmid msg len sv p r)
  show ?case using 1(2)
    by (auto simp: emit_def dest!: 1(1) dest: unlink_after_quota split: sum.splits if_splits prod.splits send_outcome.splits)
qed

text \<open>What the server relies on: a message that is sent comes behind those of its queue, and the other queues stay as they are.\<close>

locale message_queues =
  fixes sendq :: "'w sender" and contents :: "'w \<Rightarrow> c_int \<Rightarrow> (clientMsg \<times> nat) list"
  assumes sent_law: "snd (sendq w q m len) = Sent"
    and contents_law: "contents (fst (sendq w q m len)) q' = (if q' = q then contents w q @ [(m, len)] else contents w q')"
begin

lemma bcast_counted:
  "\<exists>w' evs. bcast_spec sendq rmid m len w xs = Some (w', xs, evs) \<and>
     (\<forall>q. contents w' q = contents w q @ replicate (count_list (map msgid xs) q) (m, len))"
proof (induction xs arbitrary: w)
  case (Cons c cs)
  let ?w = "fst (sendq w (msgid c) m len)"
  have s: "sendq w (msgid c) m len = (?w, Sent)" using sent_law by (metis prod.collapse)
  obtain w' evs where 1: "bcast_spec sendq rmid m len ?w cs = Some (w', cs, evs)"
    "\<forall>q. contents w' q = contents ?w q @ replicate (count_list (map msgid cs) q) (m, len)"
    using Cons.IH[of ?w] by blast
  have "bcast_spec sendq rmid m len w (c # cs) = Some (w', c # cs, [Alarm 2, Msgsnd (msgid c) len, Alarm 0] @ evs)"
    using 1(1) by (subst bcast_spec.simps, subst s) simp
  moreover have "\<forall>q. contents w' q = contents w q @ replicate (count_list (map msgid (c # cs)) q) (m, len)"
    using 1(2) by (auto simp: contents_law)
  ultimately show ?case by blast
qed simp

lemma bcast_queue:
  assumes "distinct (map msgid xs)"
  shows "\<exists>w' evs. bcast_spec sendq rmid m len w xs = Some (w', xs, evs) \<and>
     (\<forall>q. contents w' q = (if q \<in> msgid ` set xs then contents w q @ [(m, len)] else contents w q))"
proof -
  have "count_list (map msgid xs) q = (if q \<in> msgid ` set xs then 1 else 0)" for q
    using assms by (induction xs) auto
  then show ?thesis using bcast_counted[of rmid m len w xs] by (auto split: if_splits)
qed

lemma server_queues:
  "server_holds sv xs \<Longrightarrow> distinct (map msgid xs) \<Longrightarrow> \<forall>m\<in>set ms. mtype m = TEXT_MSG \<Longrightarrow>
   \<exists>sv'. server_loop sendq rmid (map (\<lambda>m. Received m len) ms) sv = Some (Inr sv') \<and> server_holds sv' xs \<and>
     (\<forall>q\<in>msgid ` set xs. contents (world sv') q = contents (world sv) q @ map (\<lambda>m. (m, len)) ms)"
proof (induction ms arbitrary: sv)
  case (Cons m ms)
  obtain w' evs where b: "bcast_spec sendq rmid m len (world sv) xs = Some (w', xs, evs)"
    "\<forall>q\<in>msgid ` set xs. contents w' q = contents (world sv) q @ [(m, len)]"
    using bcast_queue[OF Cons.prems(2), of rmid m len "world sv"] by auto
  then obtain sv1 where 1: "server_step sendq rmid (Received m len) sv = Some (Inr sv1)" "server_holds sv1 xs" "world sv1 = w'"
    using text_refines_step[OF Cons.prems(1), of m sendq rmid len] Cons.prems(3) by auto
  then obtain sv' where "server_loop sendq rmid (map (\<lambda>m. Received m len) ms) sv1 = Some (Inr sv')" "server_holds sv' xs"
    "\<forall>q\<in>msgid ` set xs. contents (world sv') q = contents (world sv1) q @ map (\<lambda>m. (m, len)) ms"
    using Cons.IH[of sv1] Cons.prems(2,3) by auto
  then show ?case using 1 b(2) by simp
qed simp

text \<open>Log-ins and texts in any order, as they come from several clients: a queue that is in the table once gets every text.\<close>

lemma server_run:
  "server_holds sv xs \<Longrightarrow> count_list (map msgid xs) q = 1 \<Longrightarrow>
   \<forall>r\<in>set R. (\<exists>c. r = Received (login_request c) 8 \<and> msgid c \<noteq> q) \<or> (\<exists>m len. r = Received m len \<and> mtype m = TEXT_MSG) \<Longrightarrow>
   length (filter is_login R) \<le> quota (clients sv) \<Longrightarrow>
   \<exists>sv'. server_loop sendq rmid R sv = Some (Inr sv') \<and> contents (world sv') q = contents (world sv) q @ texts_of R"
proof (induction R arbitrary: sv xs)
  case (Cons r R)
  consider (login) c where "r = Received (login_request c) 8" "msgid c \<noteq> q"
    | (said) m len where "r = Received m len" "mtype m = TEXT_MSG" using Cons.prems(3) by auto
  then show ?case
  proof cases
    case login
    then have q: "0 < quota (clients sv)" using Cons.prems(4) by (simp add: login_request_def)
    obtain sv1 where sv1: "server_step sendq rmid r sv = Some (Inr sv1)" "server_holds sv1 (c # xs)"
      "quota (clients sv1) = quota (clients sv) - 1" "world sv1 = world sv"
      using login_holds[OF Cons.prems(1) q, of "login_request c"] login(1)
      by (cases c) (auto simp: server_step_def login_request_def text_int_def)
    have "count_list (map msgid (c # xs)) q = 1" using Cons.prems(2) login(2) by simp
    moreover have "length (filter is_login R) \<le> quota (clients sv1)" using Cons.prems(4) sv1(3) login(1) by (simp add: login_request_def)
    ultimately obtain sv' where "server_loop sendq rmid R sv1 = Some (Inr sv')" "contents (world sv') q = contents (world sv1) q @ texts_of R"
      using Cons.IH[OF sv1(2)] Cons.prems(3) by auto
    then show ?thesis using sv1 login(1) by (simp add: login_request_def LOGIN_MSG_def TEXT_MSG_def)
  next
    case said
    obtain w' evs where b: "bcast_spec sendq rmid m len (world sv) xs = Some (w', xs, evs)" "contents w' q = contents (world sv) q @ [(m, len)]"
      using bcast_counted[of rmid m len "world sv" xs] Cons.prems(2) by auto
    then obtain sv1 where sv1: "server_step sendq rmid r sv = Some (Inr sv1)" "server_holds sv1 xs" "world sv1 = w'" "quota (clients sv) \<le> quota (clients sv1)"
      using text_refines_step[OF Cons.prems(1) said(2), of sendq rmid len] said
        broadcast_quota[of sendq rmid m len sv "header sv"]
      by (auto simp: server_step_def LOGIN_MSG_def LOGOUT_MSG_def TEXT_MSG_def)
    have "length (filter is_login R) \<le> quota (clients sv1)" using Cons.prems(4) sv1(4) said by (simp add: LOGIN_MSG_def TEXT_MSG_def)
    then obtain sv' where "server_loop sendq rmid R sv1 = Some (Inr sv')" "contents (world sv') q = contents (world sv1) q @ texts_of R"
      using Cons.IH[OF sv1(2) Cons.prems(2)] Cons.prems(3) by auto
    then show ?thesis using sv1(1,3) b(2) said by simp
  qed
qed simp

end

interpretation talk_queues: message_queues queue_send "\<lambda>w q. w q"
  by unfold_locales (simp_all add: queue_send_def)

section \<open>The child that prints\<close>

lemma receive_whole:
  assumes "length (mtext old) = MAX_TEXT_LEN" and "carries pid l m"
  shows "receive_into old m CLI_LEN = m"
  using assms by (cases m) (auto simp: receive_into_def carries_def CLI_LEN_def)

lemma message_line_shown:
  assumes "carries pid l m" and "0 \<notin> set l"
  shows "message_line m = Inr (shown_line pid l)"
proof -
  obtain p where p: "mtext m = l @ 0 # p" "msg_pid m = pid" using assms(1) by (auto simp: carries_def)
  have "takeWhile (\<lambda>b. b \<noteq> 0) (l @ 0 # p) = l" using assms(2) by (induction l) auto
  then show ?thesis using p by (simp add: message_line_def shown_line_def)
qed

lemma client_child_shows:
  "list_all2 (carries pid) ls ms \<Longrightarrow> \<forall>l\<in>set ls. 0 \<notin> set l \<Longrightarrow> length (mtext (cmsg cl)) = MAX_TEXT_LEN \<Longrightarrow>
   \<exists>cl'. client_child rmid (taken (map (\<lambda>m. (m, CLI_LEN)) ms)) cl = Inr (concat (map (shown_line pid) ls), cl')"
proof (induction arbitrary: cl rule: list_all2_induct)
  case Nil
  then show ?case by (simp add: taken_def)
next
  case (Cons l ls m ms)
  let ?cl = "cl\<lparr>cmsg := m\<rparr>"
  have r: "receive_into (cmsg cl) m CLI_LEN = m" using receive_whole[OF Cons.prems(2) Cons.hyps(1)] .
  have "length (mtext (cmsg ?cl)) = MAX_TEXT_LEN" using Cons.hyps(1) by (simp add: carries_def)
  then obtain cl' where "client_child rmid (taken (map (\<lambda>m. (m, CLI_LEN)) ms)) ?cl = Inr (concat (map (shown_line pid) ls), cl')"
    using Cons.IH[of ?cl] Cons.prems(1) by auto
  then show ?case using message_line_shown[OF Cons.hyps(1)] Cons.prems(1) r by (auto simp: taken_def)
qed

section \<open>From keyboard to screens\<close>

lemma client_main_lines:
  assumes "0 < forked" and "sent cl = []" and "length (mtext (cmsg cl)) = MAX_TEXT_LEN"
    and "stdin cl = concat ls @ rest" and "\<forall>l\<in>set ls. typed_line l" and "\<And>w q m len. snd (csend w q m len) = Sent"
    and "client_main env csend crmid pid forked (length ls) rs cl = Inr (out, cl1)"
  shows "\<exists>ms. list_all2 (carries pid) ls ms \<and>
    arrivals (sent cl1) = Received (login_request \<lparr>cpid = pid, msgid = clientId cl1\<rparr>) 8 # map (\<lambda>m. Received m CLI_LEN) ms"
proof -
  obtain c0 c1 where c: "client_start env crmid cl = Inr c0" "client_login csend crmid pid c0 = Inr c1"
    "client_texts csend crmid (length ls) (c1\<lparr>cmsg := (cmsg c1)\<lparr>mtype := TEXT_MSG\<rparr>\<rparr>) = Inr cl1"
    using assms(1,7) by (auto simp: client_main_def quit_def split: if_splits)
  have c0: "sent c0 = []" "stdin c0 = stdin cl" "length (mtext (cmsg c0)) = MAX_TEXT_LEN"
    using c(1) assms(2,3) by (auto simp: client_start_def quit_def Let_def split: if_splits option.splits prod.splits)
  have c1: "sent c1 = [(serverId c1, login_request \<lparr>cpid = pid, msgid = clientId c1\<rparr>, 8)]"
    using client_login_cases[where sendq = csend and rmid = crmid and pid = pid and cl = c0] c(2) c0(1) by simp
  have d: "stdin c1 = stdin cl" "length (mtext (cmsg c1)) = MAX_TEXT_LEN" "msg_pid (cmsg c1) = pid"
    using c(2) c0 by (auto simp: client_login_def send_to_def quit_def MAX_TEXT_LEN_def Let_def split: send_outcome.splits prod.splits)
  let ?c = "c1\<lparr>cmsg := (cmsg c1)\<lparr>mtype := TEXT_MSG\<rparr>\<rparr>"
  obtain cl' ms where "client_texts csend crmid (length ls) ?c = Inr cl'" "list_all2 (carries pid) ls ms"
    "sent cl' = sent ?c @ map (\<lambda>m. (serverId ?c, m, CLI_LEN)) ms" "clientId cl' = clientId ?c"
    using client_texts_lines[where sendq = csend and rmid = crmid and ls = ls and cl = ?c and rest = rest and pid = pid, OF assms(6,5)]
      d assms(4) by auto
  then show ?thesis using c(3) c1 by (intro exI[of _ ms]) (auto simp: arrivals_def)
qed

text \<open>Every line typed at one client, if nobody else types, is printed once, in order and under the number of its process, by the child of every client that is
  logged in, the sender's own included: through \<open>fgets\<close>, the messages and their queues, the table of the server and the buffers.\<close>

lemma lines_reach_all:
  assumes "0 < forked" and "sent cl = []" and "length (mtext (cmsg cl)) = MAX_TEXT_LEN"
    and "stdin cl = concat ls @ rest" and "\<forall>l\<in>set ls. typed_line l" and "\<And>w q m len. snd (csend w q m len) = Sent"
    and "client_main env csend crmid pid forked (length ls) rs cl = Inr (out, cl1)"
    and "server_holds sv xs" and "0 < quota (clients sv)" and "distinct (clientId cl1 # map msgid xs)"
    and "c \<in> set (\<lparr>cpid = pid, msgid = clientId cl1\<rparr> # xs)" and "world sv (msgid c) = []"
    and "length (mtext (cmsg other)) = MAX_TEXT_LEN"
  shows "\<exists>sv' other'. server_loop queue_send queue_rmid (arrivals (sent cl1)) sv = Some (Inr sv') \<and>
    client_child crmid' (taken (world sv' (msgid c))) other = Inr (concat (map (shown_line pid) ls), other')"
proof -
  let ?c = "\<lparr>cpid = pid, msgid = clientId cl1\<rparr>"
  obtain ms where ms: "list_all2 (carries pid) ls ms"
    "arrivals (sent cl1) = Received (login_request ?c) 8 # map (\<lambda>m. Received m CLI_LEN) ms"
    using client_main_lines[where csend = csend, OF assms(1-7)] by blast
  obtain sv1 where sv1: "server_step queue_send queue_rmid (Received (login_request ?c) 8) sv = Some (Inr sv1)"
    "server_holds sv1 (?c # xs)" "world sv1 = world sv"
    using login_holds[OF assms(8,9), of "login_request ?c"] by (auto simp: server_step_def login_request_def text_int_def)
  have t: "\<forall>m\<in>set ms. mtype m = TEXT_MSG" using ms(1) by (auto simp: carries_def list_all2_conv_all_nth in_set_conv_nth)
  have d: "distinct (map msgid (?c # xs))" using assms(10) by simp
  obtain sv' where sv': "server_loop queue_send queue_rmid (map (\<lambda>m. Received m CLI_LEN) ms) sv1 = Some (Inr sv')"
    "world sv' (msgid c) = world sv1 (msgid c) @ map (\<lambda>m. (m, CLI_LEN)) ms"
    using talk_queues.server_queues[OF sv1(2) d t] assms(11) by blast
  have z: "\<forall>l\<in>set ls. 0 \<notin> set l" using assms(5) by (simp add: typed_line_def)
  obtain other' where "client_child crmid' (taken (map (\<lambda>m. (m, CLI_LEN)) ms)) other = Inr (concat (map (shown_line pid) ls), other')"
    using client_child_shows[OF ms(1) z assms(13)] by blast
  then show ?thesis using sv1(1,3) sv' ms(2) assms(12) by simp
qed


section \<open>Several clients that type\<close>

fun sender_of :: "received \<Rightarrow> c_int option" where
  "sender_of (Received m len) = Some (msg_pid m)"
| "sender_of (Receive_error e) = None"

definition from_pid :: "c_int \<Rightarrow> received \<Rightarrow> bool" where
  "from_pid p r \<longleftrightarrow> sender_of r = Some p"

definition line_of :: "clientMsg \<times> nat \<Rightarrow> c_int \<times> 8 word list" where
  "line_of x = (msg_pid (fst x), takeWhile (\<lambda>b. b \<noteq> 0) (mtext (fst x)))"

text \<open>A run of a client that types the lines \<open>ls\<close>, from a start to the state \<open>cl1\<close>.\<close>

definition typing_run :: "'w sender \<Rightarrow> c_int \<times> 8 word list list \<times> 'w talk_client \<Rightarrow> bool" where
  "typing_run csend x = (case x of (pid, ls, cl1) \<Rightarrow> (\<forall>l\<in>set ls. typed_line l) \<and>
     (\<exists>env crmid forked rs cl rest out. 0 < forked \<and> sent cl = [] \<and> length (mtext (cmsg cl)) = MAX_TEXT_LEN \<and> stdin cl = concat ls @ rest \<and>
        client_main env csend crmid pid forked (length ls) rs cl = Inr (out, cl1)))"

lemma length_by_keys:
  "\<forall>k\<in>set ks. length (filter (\<lambda>x. key x = Some k) L) \<le> 1 \<Longrightarrow> \<forall>x\<in>set L. \<exists>k\<in>set ks. key x = Some k \<Longrightarrow> length L \<le> length ks"
proof (induction ks arbitrary: L)
  case (Cons k ks)
  let ?L = "filter (\<lambda>x. key x \<noteq> Some k) L"
  have "length (filter (\<lambda>x. key x = Some k') ?L) \<le> 1" if "k' \<in> set ks" for k'
  proof -
    have "length (filter (\<lambda>x. key x = Some k') ?L) \<le> length (filter (\<lambda>x. key x = Some k') L)" by (induction L) auto
    then show ?thesis using Cons.prems(1) that by force
  qed
  moreover have "\<forall>x\<in>set ?L. \<exists>k\<in>set ks. key x = Some k" using Cons.prems(2) by auto
  ultimately have "length ?L \<le> length ks" using Cons.IH by blast
  moreover have "length L = length (filter (\<lambda>x. key x = Some k) L) + length ?L" by (rule sum_length_filter_compl[symmetric])
  ultimately show ?case using Cons.prems(1) by force
qed simp

lemma filter_login: "filter is_login (filter P R) = filter P (filter is_login R)"
  by (induction R) auto

lemma lines_from:
  "map snd (filter (\<lambda>(q, l). q = p) (map line_of (texts_of R))) = map (snd \<circ> line_of) (texts_of (filter (from_pid p) R))"
proof (induction R)
  case (Cons r R)
  then show ?case by (cases r) (auto simp: from_pid_def line_of_def)
qed simp

lemma texts_of_sent: "list_all2 (carries p) ls ms \<Longrightarrow> texts_of (map (\<lambda>m. Received m CLI_LEN) ms) = map (\<lambda>m. (m, CLI_LEN)) ms"
  by (induction rule: list_all2_induct) (auto simp: carries_def)

lemma carries_line: "carries p l m \<Longrightarrow> 0 \<notin> set l \<Longrightarrow> line_of (m, len) = (p, l)"
proof -
  assume c: "carries p l m" and z: "0 \<notin> set l"
  have "takeWhile (\<lambda>b. b \<noteq> 0) (l @ 0 # q) = l" for q using z by (induction l) auto
  then show ?thesis using c by (auto simp: carries_def line_of_def)
qed

lemma carries_lines: "list_all2 (carries p) ls ms \<Longrightarrow> \<forall>l\<in>set ls. 0 \<notin> set l \<Longrightarrow> map (snd \<circ> line_of) (map (\<lambda>m. (m, CLI_LEN)) ms) = ls"
  by (induction rule: list_all2_induct) (auto simp: carries_line)

lemma child_shows_texts:
  "\<forall>(m, len)\<in>set ms. len = CLI_LEN \<and> (\<exists>p l. carries p l m \<and> 0 \<notin> set l) \<Longrightarrow> length (mtext (cmsg cl)) = MAX_TEXT_LEN \<Longrightarrow>
   \<exists>cl'. client_child rmid (taken ms) cl = Inr (concat (map (\<lambda>x. shown_line (fst (line_of x)) (snd (line_of x))) ms), cl')"
proof (induction ms arbitrary: cl)
  case (Cons x ms)
  obtain m len where x: "x = (m, len)" by fastforce
  obtain p l where c: "carries p l m" "0 \<notin> set l" "len = CLI_LEN" using Cons.prems(1) x by auto
  let ?cl = "cl\<lparr>cmsg := m\<rparr>"
  have r: "receive_into (cmsg cl) m CLI_LEN = m" using receive_whole[OF Cons.prems(2) c(1)] .
  have "length (mtext (cmsg ?cl)) = MAX_TEXT_LEN" using c(1) by (simp add: carries_def)
  then obtain cl' where "client_child rmid (taken ms) ?cl =
      Inr (concat (map (\<lambda>x. shown_line (fst (line_of x)) (snd (line_of x))) ms), cl')"
    using Cons.IH[of ?cl] Cons.prems(1) by auto
  then show ?case using message_line_shown[OF c(1,2)] carries_line[OF c(1,2)] r x c(3) by (auto simp: taken_def)
qed (simp add: taken_def)

text \<open>What reaches the server from a client: its log-in and its lines.\<close>

lemma typing_run_sent:
  assumes "typing_run csend (pid, ls, cl1)" and "\<And>w q m len. snd (csend w q m len) = Sent"
  shows "\<exists>ms. list_all2 (carries pid) ls ms \<and>
    arrivals (sent cl1) = Received (login_request \<lparr>cpid = pid, msgid = clientId cl1\<rparr>) 8 # map (\<lambda>m. Received m CLI_LEN) ms"
  using assms client_main_lines[where csend = csend] unfolding typing_run_def prod.case by blast

text \<open>The messages \<open>R\<close> at the server are those of the runs, in any order between two clients, and no client has the queue \<open>q\<close>.\<close>

definition merged :: "c_int \<Rightarrow> (c_int \<times> 8 word list list \<times> 'w talk_client) list \<Rightarrow> received list \<Rightarrow> bool" where
  "merged q runs R \<longleftrightarrow> (\<forall>r\<in>set R. \<exists>x\<in>set runs. from_pid (fst x) r) \<and>
     (\<forall>(pid, ls, cl1)\<in>set runs. \<exists>ms. list_all2 (carries pid) ls ms \<and> (\<forall>l\<in>set ls. 0 \<notin> set l) \<and> clientId cl1 \<noteq> q \<and>
        filter (from_pid pid) R = Received (login_request \<lparr>cpid = pid, msgid = clientId cl1\<rparr>) 8 # map (\<lambda>m. Received m CLI_LEN) ms)"

lemma runs_merged:
  assumes "\<forall>x\<in>set runs. typing_run csend x" and s: "\<And>w q m len. snd (csend w q m len) = Sent"
    and "\<forall>(pid, ls, cl1)\<in>set runs. filter (from_pid pid) R = arrivals (sent cl1)" and "\<forall>r\<in>set R. \<exists>x\<in>set runs. from_pid (fst x) r"
    and "\<forall>(pid, ls, cl1)\<in>set runs. clientId cl1 \<noteq> q"
  shows "merged q runs R"
  unfolding merged_def
proof (intro conjI assms(4) ballI, clarify)
  fix pid ls cl1 assume x: "(pid, ls, cl1) \<in> set runs"
  have r: "typing_run csend (pid, ls, cl1)" using assms(1) x by blast
  have "\<forall>l\<in>set ls. 0 \<notin> set l" using r by (simp add: typing_run_def typed_line_def)
  moreover have "filter (from_pid pid) R = arrivals (sent cl1)" "clientId cl1 \<noteq> q" using assms(3,5) x by auto
  ultimately show "\<exists>ms. list_all2 (carries pid) ls ms \<and> (\<forall>l\<in>set ls. 0 \<notin> set l) \<and> clientId cl1 \<noteq> q \<and>
      filter (from_pid pid) R = Received (login_request \<lparr>cpid = pid, msgid = clientId cl1\<rparr>) 8 # map (\<lambda>m. Received m CLI_LEN) ms"
    using typing_run_sent[OF r s] by auto
qed

lemma merged_run:
  assumes "merged q runs R" and "(pid, ls, cl1) \<in> set runs"
  obtains ms where "list_all2 (carries pid) ls ms" "\<forall>l\<in>set ls. 0 \<notin> set l" "clientId cl1 \<noteq> q"
    "filter (from_pid pid) R = Received (login_request \<lparr>cpid = pid, msgid = clientId cl1\<rparr>) 8 # map (\<lambda>m. Received m CLI_LEN) ms"
  using assms unfolding merged_def by blast

lemma merged_message:
  assumes m: "merged q runs R" and r: "r \<in> set R"
  shows "(\<exists>c'. r = Received (login_request c') 8 \<and> msgid c' \<noteq> q) \<or>
    (\<exists>m p l. r = Received m CLI_LEN \<and> carries p l m \<and> 0 \<notin> set l \<and> p \<in> fst ` set runs)"
proof -
  obtain x where "x \<in> set runs" "from_pid (fst x) r" using m r unfolding merged_def by blast
  moreover obtain pid ls cl1 where "x = (pid, ls, cl1)" by (metis prod.collapse)
  ultimately have x: "(pid, ls, cl1) \<in> set runs" "from_pid pid r" by simp_all
  obtain ms where ms: "list_all2 (carries pid) ls ms" "\<forall>l\<in>set ls. 0 \<notin> set l" "clientId cl1 \<noteq> q"
    "filter (from_pid pid) R = Received (login_request \<lparr>cpid = pid, msgid = clientId cl1\<rparr>) 8 # map (\<lambda>m. Received m CLI_LEN) ms"
    by (rule merged_run[OF m x(1)])
  have "r \<in> set (filter (from_pid pid) R)" using r x(2) by simp
  then consider "r = Received (login_request \<lparr>cpid = pid, msgid = clientId cl1\<rparr>) 8" | m where "m \<in> set ms" "r = Received m CLI_LEN"
    unfolding ms(4) by auto
  then show ?thesis
  proof cases
    case 2
    then obtain i where "i < length ms" "m = ms ! i" by (auto simp: in_set_conv_nth)
    then have "carries pid (ls ! i) m" "ls ! i \<in> set ls" using ms(1) by (auto simp: list_all2_conv_all_nth)
    then show ?thesis using 2 ms(2) x(1) by force
  qed (use ms(3) in auto)
qed

lemma merged_logins:
  assumes m: "merged q runs R"
  shows "length (filter is_login R) \<le> length runs"
proof -
  have "length (filter is_login R) \<le> length (map fst runs)"
  proof (rule length_by_keys[where key = sender_of], goal_cases)
    case 1
    show ?case
    proof
      fix k assume "k \<in> set (map fst runs)"
      then obtain ls cl1 where x: "(k, ls, cl1) \<in> set runs" by auto
      obtain ms where ms: "list_all2 (carries k) ls ms"
        "filter (from_pid k) R = Received (login_request \<lparr>cpid = k, msgid = clientId cl1\<rparr>) 8 # map (\<lambda>m. Received m CLI_LEN) ms"
        by (rule merged_run[OF m x])
      have "filter is_login (map (\<lambda>m. Received m CLI_LEN) ms) = []"
        using ms(1) by (induction rule: list_all2_induct) (auto simp: carries_def LOGIN_MSG_def TEXT_MSG_def)
      then have "length (filter is_login (filter (from_pid k) R)) = 1" unfolding ms(2) by (simp add: login_request_def)
      then show "length (filter (\<lambda>x. sender_of x = Some k) (filter is_login R)) \<le> 1"
        unfolding filter_login from_pid_def[abs_def] by simp
    qed
  qed (use m in \<open>auto simp: merged_def from_pid_def\<close>)
  then show ?thesis by simp
qed

lemma merged_text:
  assumes m: "merged q runs R" and x: "(m, len) \<in> set (texts_of R)"
  shows "len = CLI_LEN \<and> (\<exists>p l. carries p l m \<and> 0 \<notin> set l \<and> p \<in> fst ` set runs)"
proof -
  obtain r where r: "r \<in> set R" "(m, len) \<in> set (text_in r)" using x by (auto simp: texts_of_def)
  have e: "r = Received m len \<and> mtype m = TEXT_MSG" using r(2) by (cases r) (simp_all split: if_splits)
  then have "m \<noteq> login_request c'" for c' by (auto simp: login_request_def LOGIN_MSG_def TEXT_MSG_def)
  then show ?thesis using merged_message[OF m r(1)] e by auto
qed

lemma merged_lines:
  assumes m: "merged q runs R" and x: "(pid, ls, cl1) \<in> set runs"
  shows "map snd (filter (\<lambda>(p, l). p = pid) (map line_of (texts_of R))) = ls"
proof -
  obtain ms where ms: "list_all2 (carries pid) ls ms" "\<forall>l\<in>set ls. 0 \<notin> set l"
    "filter (from_pid pid) R = Received (login_request \<lparr>cpid = pid, msgid = clientId cl1\<rparr>) 8 # map (\<lambda>m. Received m CLI_LEN) ms"
    by (rule merged_run[OF m x])
  have "texts_of (filter (from_pid pid) R) = map (\<lambda>m. (m, CLI_LEN)) ms"
    unfolding ms(3) using texts_of_sent[OF ms(1)] by (simp add: login_request_def LOGIN_MSG_def TEXT_MSG_def)
  then show ?thesis unfolding lines_from using carries_lines[OF ms(1,2)] by simp
qed

lemma merged_senders:
  assumes m: "merged q runs R"
  shows "fst ` set (map line_of (texts_of R)) \<subseteq> fst ` set runs"
proof -
  have "fst (line_of (t, len)) \<in> fst ` set runs" if x: "(t, len) \<in> set (texts_of R)" for t len
  proof -
    obtain p l where p: "carries p l t" "0 \<notin> set l" "p \<in> fst ` set runs" using merged_text[OF m x] by blast
    then show ?thesis using carries_line[OF p(1,2), of len] by simp
  qed
  then show ?thesis by auto
qed

text \<open>C1: any number of clients that type at the same time: in whatever order their messages reach the server, a client that is logged in prints
  every line once, under the number of the process that sent it, and the lines of each client in the order in which they were typed.  This goes
  through \<open>fgets\<close>, the messages and their queues, the table of the server with the log-ins on the way, and the buffers.  No queue gets full
  and no receive is interrupted.\<close>

theorem lines_reach_everyone:
  assumes "\<forall>x\<in>set runs. typing_run csend x" and "\<And>w q m len. snd (csend w q m len) = Sent"
    and "\<forall>(pid, ls, cl1)\<in>set runs. filter (from_pid pid) R = arrivals (sent cl1)" and "\<forall>r\<in>set R. \<exists>x\<in>set runs. from_pid (fst x) r"
    and "server_holds sv xs" and "length runs \<le> quota (clients sv)" and "c \<in> set xs" and "distinct (map msgid xs)"
    and "\<forall>(pid, ls, cl1)\<in>set runs. clientId cl1 \<noteq> msgid c" and "world sv (msgid c) = []" and "length (mtext (cmsg other)) = MAX_TEXT_LEN"
  shows "\<exists>sv' other' ps. server_loop queue_send queue_rmid R sv = Some (Inr sv') \<and>
    client_child crmid (taken (world sv' (msgid c))) other = Inr (concat (map (\<lambda>(p, l). shown_line p l) ps), other') \<and>
    (\<forall>(pid, ls, cl1)\<in>set runs. map snd (filter (\<lambda>(p, l). p = pid) ps) = ls) \<and> fst ` set ps \<subseteq> fst ` set runs"
proof -
  have m: "merged (msgid c) runs R" using runs_merged[where csend = csend, OF assms(1-4,9)] .
  have one: "count_list (map msgid xs) (msgid c) = 1" using assms(7,8) by (induction xs) auto
  obtain sv' where sv': "server_loop queue_send queue_rmid R sv = Some (Inr sv')" "world sv' (msgid c) = texts_of R"
    using talk_queues.server_run[OF assms(5) one, of R queue_rmid] merged_message[OF m] merged_logins[OF m] assms(6,10)
    by (fastforce simp: carries_def)
  let ?ps = "map line_of (texts_of R)"
  have "map (\<lambda>(p, l). shown_line p l) ?ps = map (\<lambda>x. shown_line (fst (line_of x)) (snd (line_of x))) (texts_of R)"
    by (simp add: case_prod_beta)
  moreover obtain other' where "client_child crmid (taken (texts_of R)) other =
      Inr (concat (map (\<lambda>x. shown_line (fst (line_of x)) (snd (line_of x))) (texts_of R)), other')"
    using child_shows_texts[of "texts_of R" other crmid] merged_text[OF m] assms(11) by fastforce
  ultimately have "client_child crmid (taken (texts_of R)) other = Inr (concat (map (\<lambda>(p, l). shown_line p l) ?ps), other')" by (simp only:)
  then show ?thesis using sv' merged_lines[OF m] merged_senders[OF m]
    by (intro exI[of _ sv'] exI[of _ other'] exI[of _ ?ps]) (simp only: prod.case ball_simps, blast)
qed

section \<open>Two clients that type\<close>

definition quiet_send :: "unit sender" where "quiet_send w q m len = ((), Sent)"
definition quiet_rmid :: "unit remover" where "quiet_rmid w q = ((), True)"

lemma demo_run:
  assumes "\<forall>l\<in>set ls. typed_line l"
  shows "\<exists>cl1. typing_run quiet_send (p, ls, cl1) \<and> clientId cl1 = q"
proof -
  let ?env = "(demo_calls id)\<lparr>msgget := \<lambda>w. (w, Some q)\<rparr>" and ?cl = "(demo_client ())\<lparr>stdin := concat ls\<rparr>"
  let ?c0 = "?cl\<lparr>serverId := 9, clientId := q, clear_registered := True\<rparr>"
  have start: "client_start ?env quiet_rmid ?cl = Inr ?c0"
    by (simp add: client_start_def demo_calls_def demo_client_def Let_def)
  obtain c1 where c1: "client_login quiet_send quiet_rmid p ?c0 = Inr c1" "stdin c1 = concat ls @ []"
    "length (mtext (cmsg c1)) = MAX_TEXT_LEN" "msg_pid (cmsg c1) = p" "clientId c1 = q"
    by (simp add: client_login_def send_to_def quiet_send_def demo_client_def MAX_TEXT_LEN_def Let_def)
  have s: "snd (quiet_send w q m len) = Sent" for w q m len by (simp add: quiet_send_def)
  obtain cl1 where "client_texts quiet_send quiet_rmid (length ls) (c1\<lparr>cmsg := (cmsg c1)\<lparr>mtype := TEXT_MSG\<rparr>\<rparr>) = Inr cl1" "clientId cl1 = q"
    using client_texts_lines[where sendq = quiet_send and rmid = quiet_rmid and cl = "c1\<lparr>cmsg := (cmsg c1)\<lparr>mtype := TEXT_MSG\<rparr>\<rparr>"
        and rest = "[]" and pid = p, OF s assms] c1 by auto
  then have "client_main ?env quiet_send quiet_rmid p 42 (length ls) [] ?cl = Inr ([], cl1)" "clientId cl1 = q"
    using start c1(1) by (simp_all add: client_main_def)
  moreover have "sent ?cl = []" "length (mtext (cmsg ?cl)) = MAX_TEXT_LEN" "stdin ?cl = concat ls @ []" "(0::int) < 42"
    by (simp_all add: demo_client_def MAX_TEXT_LEN_def)
  ultimately show ?thesis using assms unfolding typing_run_def prod.case by blast
qed

lemma demo_lines: "typed_line [104, 105, 10]" "typed_line [98, 10]" "typed_line [111, 107, 10]"
  by (auto simp: typed_line_def intro: exI[of _ "[104, 105]"] exI[of _ "[98]"] exI[of _ "[111, 107]"])

definition watching :: "queues server" where
  "watching = (server_init (\<lambda>q. []) 2)\<lparr>clients := \<lparr>cells = [1 \<mapsto> Node None 2, 2 \<mapsto> Node (Some \<lparr>cpid = 9, msgid = 300\<rparr>) NULL],
     fresh = 3, quota = 2\<rparr>\<rparr>"

lemma watching_holds: "server_holds watching [\<lparr>cpid = 9, msgid = 300\<rparr>]" "quota (clients watching) = 2" "world watching q = []"
  unfolding server_holds_def
  by (rule exI[of _ None], rule exI[of _ "[(2, \<lparr>cpid = 9, msgid = 300\<rparr>)]"])
     (auto simp: watching_def server_init_def headed_def store_ok_def)

theorem lines_reach_everyone_witness:
  "\<exists>cl1 cl2 a1 a2 a3 b1 b2 sv' other' ps. typing_run quiet_send (7, [[104, 105, 10], [98, 10]], cl1) \<and> arrivals (sent cl1) = [a1, a2, a3] \<and>
     typing_run quiet_send (8, [[111, 107, 10]], cl2) \<and> arrivals (sent cl2) = [b1, b2] \<and>
     server_loop queue_send queue_rmid [a1, a2, b1, b2, a3] watching = Some (Inr sv') \<and>
     client_child quiet_rmid (taken (world sv' 300)) (demo_client ()) = Inr (concat (map (\<lambda>(p, l). shown_line p l) ps), other') \<and>
     map snd (filter (\<lambda>(p, l). p = 7) ps) = [[104, 105, 10], [98, 10]] \<and> map snd (filter (\<lambda>(p, l). p = 8) ps) = [[111, 107, 10]]"
proof -
  let ?A = "[[104, 105, 10], [98, 10]] :: 8 word list list" and ?B = "[[111, 107, 10]] :: 8 word list list"
  obtain cl1 cl2 where r: "typing_run quiet_send (7, ?A, cl1)" "clientId cl1 = 100" "typing_run quiet_send (8, ?B, cl2)" "clientId cl2 = 200"
    using demo_run[of ?A 7 100] demo_run[of ?B 8 200] demo_lines by auto
  have s: "snd (quiet_send w q m len) = Sent" for w q m len by (simp add: quiet_send_def)
  obtain m1 m2 where a: "carries 7 [104, 105, 10] m1" "carries 7 [98, 10] m2"
    "arrivals (sent cl1) = [Received (login_request \<lparr>cpid = 7, msgid = 100\<rparr>) 8, Received m1 CLI_LEN, Received m2 CLI_LEN]"
    using typing_run_sent[OF r(1) s] r(2) by (auto simp: list_all2_Cons1)
  obtain n1 where b: "carries 8 [111, 107, 10] n1"
    "arrivals (sent cl2) = [Received (login_request \<lparr>cpid = 8, msgid = 200\<rparr>) 8, Received n1 CLI_LEN]"
    using typing_run_sent[OF r(3) s] r(4) by (auto simp: list_all2_Cons1)
  let ?runs = "[(7, ?A, cl1), (8, ?B, cl2)]"
  let ?R = "[Received (login_request \<lparr>cpid = 7, msgid = 100\<rparr>) 8, Received m1 CLI_LEN, Received (login_request \<lparr>cpid = 8, msgid = 200\<rparr>) 8,
      Received n1 CLI_LEN, Received m2 CLI_LEN]"
  have p: "msg_pid m1 = 7" "msg_pid m2 = 7" "msg_pid n1 = 8" using a(1,2) b(1) by (simp_all add: carries_def)
  have "\<exists>sv' other' ps. server_loop queue_send queue_rmid ?R watching = Some (Inr sv') \<and>
    client_child quiet_rmid (taken (world sv' (msgid \<lparr>cpid = 9, msgid = 300\<rparr>))) (demo_client ()) = Inr (concat (map (\<lambda>(p, l). shown_line p l) ps), other') \<and>
    (\<forall>(pid, ls, cl1)\<in>set ?runs. map snd (filter (\<lambda>(p, l). p = pid) ps) = ls) \<and> fst ` set ps \<subseteq> fst ` set ?runs"
    by (rule lines_reach_everyone[where csend = quiet_send, OF _ s _ _ watching_holds(1)])
       (use r a b p in \<open>auto simp: watching_holds(2,3) from_pid_def login_request_def demo_client_def MAX_TEXT_LEN_def\<close>)
  then show ?thesis using r(1,3) a(3) b(2) by fastforce
qed

end
