(* ===== verification/Small_Programs.thy ===== *)
theory Small_Programs
  imports Error_Functions
begin

text \<open>
  Three small programs: \<open>34-4-pipe_on_single_core.c\<close>, \<open>28-1-fork_speed.c\<close> and \<open>49-4-map_fixed.c\<close>.  In \<open>28-1\<close> the function \<open>__exit\<close>,
  which does not exist, is read as \<open>_exit\<close>.
\<close>

section \<open>A pipe on one processor\<close>

text \<open>A writer puts ten million bytes into its output, a reader takes as many from its input; what the calls return is not looked at.
  \<open>ok i\<close> tells whether the call of round \<open>i\<close> succeeds.\<close>

definition ROUNDS :: nat where "ROUNDS = 10000000"

fun write_rounds :: "(nat \<Rightarrow> bool) \<Rightarrow> nat \<Rightarrow> nat \<Rightarrow> string \<Rightarrow> string" where
  "write_rounds ok i 0 out = out"
| "write_rounds ok i (Suc n) out = write_rounds ok (Suc i) n (if ok i then out @ ''h'' else out)"

fun read_rounds :: "(nat \<Rightarrow> bool) \<Rightarrow> nat \<Rightarrow> nat \<Rightarrow> string \<Rightarrow> string" where
  "read_rounds ok i 0 inp = inp"
| "read_rounds ok i (Suc n) inp = read_rounds ok (Suc i) n (if ok i then tl inp else inp)"

text \<open>The result: what is left of the input, and the output.  \<open>cpu_ok\<close> tells whether the process may be bound to a processor.\<close>

definition one_core_main :: "(int \<Rightarrow> bool) \<Rightarrow> bool \<Rightarrow> (nat \<Rightarrow> bool) \<Rightarrow> string list \<Rightarrow> string \<Rightarrow> (string \<times> string) result" where
  "one_core_main cpu_ok isatty ok argv inp =
     (if length argv < 2 then Inl (Undefined NullDeref)
      else if \<not> cpu_ok (atoi (argv ! 1)) then Inl (stop_with ''sched_setaffinity'')
      else if isatty then Inr (inp, write_rounds ok 0 ROUNDS [])
      else Inr (read_rounds ok 0 ROUNDS inp, ''over'' @ [newline]))"

definition done_in :: "(nat \<Rightarrow> bool) \<Rightarrow> nat \<Rightarrow> nat \<Rightarrow> nat" where
  "done_in ok i n = length (filter ok [i..<i + n])"

lemma done_in_Suc: "done_in ok i (Suc n) = (if ok i then Suc (done_in ok (Suc i) n) else done_in ok (Suc i) n)"
  by (simp add: done_in_def upt_conv_Cons del: upt_Suc)

lemma write_rounds_count: "write_rounds ok i n out = out @ replicate (done_in ok i n) CHR ''h''"
  by (induction n arbitrary: i out) (simp_all add: done_in_Suc, simp add: done_in_def)

lemma read_rounds_count: "read_rounds ok i n inp = drop (done_in ok i n) inp"
  by (induction n arbitrary: i inp) (simp_all add: done_in_Suc drop_Suc, simp add: done_in_def)

text \<open>A reader behind a writer takes all that was written.\<close>

lemma reader_takes_all:
  assumes "one_core_main cpu_ok True ok argv [] = Inr (r, out)" and "one_core_main cpu_ok' False (\<lambda>_. True) argv' out = Inr (r', out')"
  shows "length out \<le> ROUNDS \<and> r' = [] \<and> out' = ''over'' @ [newline]"
proof -
  have d: "done_in ok 0 ROUNDS \<le> ROUNDS" "done_in (\<lambda>_. True) 0 ROUNDS = ROUNDS"
    using length_filter_le[of ok "[0..<ROUNDS]"] by (simp_all add: done_in_def)
  show ?thesis using assms d by (auto simp: one_core_main_def write_rounds_count read_rounds_count split: if_splits)
qed

section \<open>A chain of processes\<close>

text \<open>In every round the process forks and ends, while its child, which has no children to wait for, goes on with the next round.  The
  result tells how the processes end, in the order in which they do.\<close>

fun fork_chain :: "(nat \<Rightarrow> bool) \<Rightarrow> nat \<Rightarrow> nat \<Rightarrow> stop list" where
  "fork_chain fork_ok i 0 = [Exit EXIT_SUCCESS []]"
| "fork_chain fork_ok i (Suc n) =
     (if fork_ok i then Exit EXIT_SUCCESS [] # fork_chain fork_ok (Suc i) n else [stop_with ''fork''])"

definition fork_speed_main :: "(nat \<Rightarrow> bool) \<Rightarrow> stop list" where
  "fork_speed_main fork_ok = fork_chain fork_ok 0 100000"

lemma fork_chain_all: "\<forall>k. i \<le> k \<and> k < i + n \<longrightarrow> fork_ok k \<Longrightarrow> fork_chain fork_ok i n = replicate (Suc n) (Exit EXIT_SUCCESS [])"
  by (induction n arbitrary: i) auto

lemma fork_speed_processes:
  assumes "\<forall>k<100000. fork_ok k"
  shows "fork_speed_main fork_ok = replicate (Suc 100000) (Exit EXIT_SUCCESS [])"
  unfolding fork_speed_main_def by (rule fork_chain_all) (use assms in simp)

section \<open>A mapping of a file without a name\<close>

text \<open>\<open>mmap\<close> is an argument; the mappings it makes are a list of address, length and offset.  No file has the empty name, so that \<open>open\<close>
  gives -1.\<close>

type_synonym mappings = "(64 word \<times> 64 word \<times> 64 word) list"

definition map_fixed_main ::
    "(64 word \<Rightarrow> 64 word \<Rightarrow> bool \<Rightarrow> int \<Rightarrow> 64 word \<Rightarrow> mappings \<Rightarrow> 64 word \<times> mappings) \<Rightarrow> (string \<Rightarrow> int) \<Rightarrow> 64 word \<Rightarrow> mappings \<Rightarrow> int \<times> mappings" where
  "map_fixed_main mmap open_file ps m0 =
     (let fd = open_file [];
          (addr, m1) = mmap 0 (3 * ps) False fd 0 m0;
          (a, m2) = mmap addr ps True fd 0 m1;
          (b, m3) = mmap (addr + 2 * ps) ps True fd (2 * ps) m2 in
      (0, m3))"

lemma map_fixed_maps_nothing:
  assumes "open_file [] = -1" and "\<And>a l f off m. mmap a l f (-1) off m = (-1, m)"
  shows "map_fixed_main mmap open_file ps m0 = (0, m0)"
  using assms by (simp add: map_fixed_main_def)

end
