(* ===== verification/Spec2Isabelle.thy ===== *)
theory Spec2Isabelle
  imports Malloc_Test File_Perms Error_Functions Talk_Server Popen File_Create Tail My_Malloc Chattr Copy_Tools
    Vector_IO Tee Acl Process_Tree Talk_Client Semaphores Interleavings File_Monitor Get_Cwd Library_Routines
    Thread_Tree SysV_Signals Read_Line Seqnum_Server Path_Tools Pipe_Echo
    Open_Files Append_Race Signal_Programs Wait_Child Seqnum_Signal Login_Records User_Procs
    Sockets Semaphore_Sync Commands Sendfile_Mmap Process_Programs
    Signal_Waits Families File_Experiments Timers Talk_System Small_Programs
begin

text \<open>
  Models of the exercise programs of this repository (solutions to \<open>The Linux Programming Interface\<close>), with the theorems
  that say what they do.  Each program is a file under \<open>src/\<close> with a \<open>main\<close> or a few functions of its own; what
  they share are the number parser \<open>get_num.c\<close>, the diagnostics \<open>error_functions.c\<close> and \<open>file_perms.c\<close>.  The
  only programs that talk to each other are the two halves of \<open>46-6\<close>, the talk server and its client.

  \<^bold>\<open>How the programs are modelled.\<close>  A function of the source is a function or a step relation of the same name, with
  its guards and early returns in the order of the code.  \<open>Tlpi_Prelude\<close> has the common result type: a call that
  ends the process gives \<open>Exit\<close> with the status and the text of the diagnostic, an access that C leaves undefined gives
  \<open>Undefined\<close> with its reason, and an ordinary return gives \<open>Inr\<close>; \<open>rbind\<close> sequences such results.  A loop
  that may not end is a \<open>partial_function (option)\<close>, so that \<open>None\<close> is a run that does not end, and \<open>obind\<close> sequences
  these.  A system call is an argument of the model, a function on a state of the system or the list of its
  outcomes; where a theorem needs the documented behaviour of a call, that is a hypothesis with a name of its own.
  \<open>CLib\<close> has the string and number functions of the C library.  Machine integers are words where they wrap or are
  shifted, and integers with an explicit test where an overflow is undefined.

  \<^bold>\<open>Shared parts.\<close>  \<open>Get_Num\<close> (\<open>get_num.c\<close>) and \<open>Error_Functions\<close> (\<open>error_functions.c\<close>, \<open>ename.c.inc\<close>): the accepted
  numerals are exactly those of a grammar stated without \<open>strtol\<close>, and the diagnostics are one bounded line.
  \<open>Linked_Heap\<close> has the headed lists that the programs keep: a store of nodes in which a null pointer, a freed node
  and an uninitialised field are errors, the list that a store holds, what linking and unlinking do to it, and the
  locale \<open>headed_table\<close>, the contract of a table to which entries are added in front and from which the first with a
  key is removed.

  \<open>Transition_System\<close> has the contracts under which the step relations are used: the locale \<open>invariant_system\<close>, a relation with
  an invariant, and its extension \<open>terminating_system\<close>, in which every step does a piece of a finite amount of work.

  \<^bold>\<open>Talk.\<close>  \<open>Talk_Server\<close> (\<open>46-6-talk_server.c\<close>) refines the heap list of clients to a list: log-ins and log-outs
  satisfy the contract of \<open>headed_table\<close>, a text goes once to every client and drops those whose queue is full, and
  the start-up leaves nothing behind.  \<open>Talk_Client\<close> (\<open>46-6-talk_client.c\<close>) composes a client with the server: a session
  that a signal ends leaves the table as it was unless a line comes between the removal of its queue and the log-out, one that ends by
  \<open>exit\<close> makes the next text stop the server.  \<open>Talk_System\<close>
  puts typing clients, the server and a receiving client together over the contract \<open>message_queues\<close>: in whatever order the messages of the
  clients reach the server, every client that is logged in prints every line once and those of each client in order.

  \<^bold>\<open>Processes and threads.\<close>  \<open>Popen\<close> (\<open>44-2\<close>) keeps the table of open children in a heap list.  \<open>Semaphores\<close> (\<open>47-4\<close>,
  \<open>47-6\<close>), \<open>Interleavings\<close> (\<open>31-1\<close>, \<open>55-2\<close>, \<open>30-1\<close>), \<open>Append_Race\<close> (\<open>5-3\<close>) and \<open>Semaphore_Sync\<close> (\<open>47-2\<close>) have step relations for
  any order of the steps of several processes, their invariants, and what every run comes to; the unlocked read of \<open>31-1\<close> may
  give old values and orders nothing, as in a data race.  \<open>Thread_Tree\<close> (\<open>30-2\<close>) is the tree with
  a mutex in each node.  \<open>Process_Programs\<close> (\<open>34-3\<close>, \<open>34-5\<close>, \<open>35-3\<close>, \<open>36-1\<close>, \<open>36-2\<close>, \<open>6-2\<close>) and \<open>Families\<close> (\<open>26-1\<close>, \<open>26-2\<close>, \<open>34-2\<close>,
  \<open>34-6\<close>) are about process groups, processor time and orphans; \<open>Wait_Child\<close> (\<open>26-3\<close>) about what \<open>waitid\<close> reports.

  \<^bold>\<open>Signals.\<close>  \<open>Signal_Programs\<close> has what the kernel does with blocked, pending and handled signals, and the programs that watch it
  (\<open>20-1\<close>, which passes a function for a structure and so counts nothing, \<open>20-2\<close>, \<open>22-1\<close>, \<open>27-6\<close>) or are library routines on it (\<open>21-1\<close>,
  \<open>20-4\<close>); \<open>Signal_Waits\<close> goes on with \<open>22-2\<close>, \<open>26-4\<close>, \<open>34-7\<close>, \<open>20-3\<close> and \<open>20-3-2\<close>; \<open>Timers\<close> (\<open>23-4\<close>) starts
  a timer for each argument; \<open>SysV_Signals\<close> (\<open>22-4\<close>) has the old signal calls.

  \<^bold>\<open>Servers, pipes and sockets.\<close>  \<open>Seqnum_Server\<close> (\<open>44-3\<close>) is a server whose state survives a restart if the last number was
  stored whole; \<open>Seqnum_Signal\<close> (\<open>44-4\<close>) one
  that removes its FIFO on a signal, and the theorem says that the two give the same answers.  \<open>Pipe_Echo\<close> (\<open>44-1\<close>) is a parent and a
  child with two pipes, \<open>Sockets\<close> (\<open>57-4\<close>, \<open>57-1\<close>, \<open>61-2\<close>, \<open>61-4\<close>) the small socket programs.

  \<^bold>\<open>Files and directories.\<close>  \<open>File_Create\<close> (\<open>14-1\<close>) creates files and removes them in the order of a sorted heap list, and ends
  exactly if the random numbers give enough new names;
  \<open>Tail\<close> (\<open>13-5\<close>) keeps the last lines in a ring of growing buffers; \<open>Copy_Tools\<close> (\<open>4-2\<close>), \<open>Tee\<close> (\<open>4-1\<close>) and
  \<open>Vector_IO\<close> (\<open>5-7\<close>) copy data; \<open>File_Perms\<close> (\<open>file_perms.c\<close>, \<open>15-3\<close>, \<open>15-6\<close>), \<open>Chattr\<close> (\<open>15-7\<close>) and \<open>Acl\<close> (\<open>17-1\<close>, three lists in
  one heap, all released) deal with permissions; \<open>Get_Cwd\<close> (\<open>18-5\<close>) climbs to the root, \<open>Path_Tools\<close> (\<open>18-3\<close>, \<open>12-3\<close>) resolves names, \<open>File_Monitor\<close> (\<open>19-1\<close>) decodes
  the event buffer of \<open>inotify\<close>, \<open>Process_Tree\<close> (\<open>12-2\<close>) builds a tree from \<open>/proc\<close>, in which every process is in one list, and \<open>User_Procs\<close> (\<open>12-1\<close>) scans its status files.
  \<open>Open_Files\<close> has descriptors, the open files behind them and their offsets, and on these the programs \<open>5-1\<close>, \<open>5-2\<close>, \<open>5-4\<close>, \<open>5-5\<close> and
  \<open>5-6\<close>; \<open>Append_Race\<close> uses its model of a write.  \<open>Sendfile_Mmap\<close> (\<open>61-3\<close>, \<open>49-1\<close>) copies in two more ways, \<open>File_Experiments\<close> (\<open>18-2\<close>, \<open>15-1-a\<close>,
  \<open>15-1-b\<close>) is about links, directories and permissions.  \<open>Login_Records\<close> (\<open>40-2\<close>, \<open>40-3\<close>, \<open>40-4\<close>) writes and reads the login files.

  \<^bold>\<open>Memory and library functions.\<close>  \<open>My_Malloc\<close> (\<open>7-2\<close>) is an allocator on a byte-addressed heap, \<open>Malloc_Test\<close> (\<open>7-1\<close>) the
  program that exercises one, \<open>Read_Line\<close> (\<open>59-1\<close>) a buffered reader, and \<open>Library_Routines\<close> has \<open>ttyname\<close>, \<open>isatty\<close>,
  \<open>setenv\<close>, \<open>unsetenv\<close>, \<open>getpwnam\<close>, \<open>initgroups\<close>, \<open>ftok\<close> and \<open>alarm\<close> (\<open>62-2\<close>, \<open>62-1\<close>, \<open>6-3\<close>, \<open>8-2\<close>, \<open>9-3\<close>, \<open>45-2\<close>, \<open>23-1\<close>).
  \<open>Commands\<close> has the small commands on their arguments (\<open>15-4\<close>, \<open>16-1\<close>, \<open>18-4\<close>, \<open>18-7\<close>, \<open>27-2\<close>, \<open>35-1\<close>, \<open>35-32\<close>, \<open>37-1\<close>, \<open>38-2\<close>), \<open>Small_Programs\<close>
  \<open>34-4\<close>, \<open>28-1\<close> and \<open>49-4\<close>.

  \<^bold>\<open>Bounds.\<close>  Only two functions have a bound that is not in the code: \<open>print_tree\<close> takes the depth to which it may
  recurse, and the loops of the talk client take the number of rounds after which the observation stops, since they
  never end by themselves.  Endless loops of servers run over the list of what arrives.

  \<^bold>\<open>Not modelled.\<close>  \<open>59-3\<close> and \<open>23-3\<close> are unfinished; \<open>24-2\<close> calls a function that does not exist and returns from \<open>main\<close> in a child of
  \<open>vfork\<close>, which is undefined; \<open>40-1\<close> is a fragment.  Of \<open>18-4\<close> and \<open>61-4\<close> what comes behind the use of a pointer that was never set is left out;
  of \<open>23-4\<close> what follows the start of the timers, and of \<open>17-1\<close> the permission of the owner and the groups of a user, because there the source names variables and
  fields that do not exist.  The headers have declarations only.  Many of the
  files say that they were never run; where a file that does not compile as it stands is modelled (\<open>15-1-a\<close>, \<open>17-1\<close>, \<open>18-7\<close>, \<open>28-1\<close>), its theory
  says how it is read.  Of the programs that print while they wait, messages without a value are left out where a theory says so.
\<close>

end
